(* ===== verification/Go_Prelude.thy ===== *)
theory Go_Prelude
  imports Main
begin

text \<open>
  Shared vocabulary of the development: the collections of facts the component theories
  feed to the simplifier, Go's 64-bit integers with their wrap-around, error results, and
  the list lemmas that more than one component needs.

  Go's \<open>int\<close> and \<open>int64\<close> are 64 bits wide on every release target of the program. A value
  of these types is an \<open>int\<close> here, and every operation of the code that could leave the
  range goes through \<open>wrap64\<close>.
\<close>

named_theorems go_str \<open>facts about Go's byte strings\<close>
named_theorems utf8_facts \<open>facts about UTF-8 validity\<close>
named_theorems go_eval \<open>equations that evaluate the string functions on literals\<close>
named_theorems wf_intros \<open>introduction rules of the well-formedness invariants\<close>

section \<open>64-bit integers\<close>

definition wrap64 :: "int \<Rightarrow> int" where
  "wrap64 n = (n + 2 ^ 63) mod 2 ^ 64 - 2 ^ 63"

definition in_int64 :: "int \<Rightarrow> bool" where
  "in_int64 n \<longleftrightarrow> - (2 ^ 63) \<le> n \<and> n < 2 ^ 63"

lemma wrap64_id: "in_int64 n \<Longrightarrow> wrap64 n = n"
  by (simp add: wrap64_def in_int64_def)

lemma wrap64_in_range [simp]: "in_int64 (wrap64 n)"
proof -
  have "0 \<le> (n + 2 ^ 63) mod 2 ^ 64" and "(n + 2 ^ 63) mod 2 ^ 64 < (2 ^ 64 :: int)"
    by simp_all
  then show ?thesis
    by (simp add: wrap64_def in_int64_def)
qed

lemma wrap64_wrap64_add: "wrap64 (wrap64 a + b) = wrap64 (a + b)"
  by (simp add: wrap64_def) (simp add: mod_simps algebra_simps)

lemma wrap64_eq_iff: "wrap64 a = wrap64 b \<longleftrightarrow> a mod 2 ^ 64 = b mod 2 ^ 64"
  by (simp add: wrap64_def mod_eq_dvd_iff)

lemma wrap64_mod [simp]: "wrap64 a mod 2 ^ 64 = a mod 2 ^ 64"
  by (simp add: wrap64_def mod_simps)

lemma wrap64_wrap64_diff: "wrap64 (wrap64 a - b) = wrap64 (a - b)"
  unfolding wrap64_eq_iff by (rule mod_diff_cong [OF wrap64_mod refl])

lemma wrap64_diff_wrap64: "wrap64 (a - wrap64 b) = wrap64 (a - b)"
  unfolding wrap64_eq_iff by (rule mod_diff_cong [OF refl wrap64_mod])

lemma wrap64_add_wrap64: "wrap64 (a + wrap64 b) = wrap64 (a + b)"
  unfolding wrap64_eq_iff by (rule mod_add_cong [OF refl wrap64_mod])

lemmas wrap64_collapse = wrap64_wrap64_add wrap64_add_wrap64 wrap64_wrap64_diff wrap64_diff_wrap64

lemma wrap64_0 [simp]: "wrap64 0 = 0"
  by (simp add: wrap64_def)

lemma wrap64_diff_nonneg:
  "0 \<le> a \<Longrightarrow> 0 \<le> b \<Longrightarrow> in_int64 a \<Longrightarrow> in_int64 b \<Longrightarrow> wrap64 (a - b) = a - b"
  by (rule wrap64_id) (simp add: in_int64_def)

text \<open>Go's integer division truncates towards zero.\<close>

definition quot :: "int \<Rightarrow> int \<Rightarrow> int" where
  "quot a b = sgn a * sgn b * (\<bar>a\<bar> div \<bar>b\<bar>)"

lemma quot_nonneg: "0 \<le> a \<Longrightarrow> 0 < b \<Longrightarrow> quot a b = a div b"
  by (cases "a = 0") (simp_all add: quot_def)

text \<open>
  A \<open>time.Time\<close> is the number of nanoseconds since the zero time, which \<open>IsZero\<close> recognizes; a
  \<open>time.Duration\<close> is its number of nanoseconds.
\<close>

type_synonym time = int
type_synonym duration = int

definition Milliseconds :: "duration \<Rightarrow> int" where
  "Milliseconds d = quot d 1000000"

section \<open>Results\<close>

text \<open>
  A Go function returning \<open>(T, error)\<close> returns \<open>Inl e\<close> with the error or \<open>Inr x\<close> with
  the value. Errors the program only hands on or prints are their message.
\<close>

type_synonym error = string

fun is_ok :: "'e + 'a \<Rightarrow> bool" where
  "is_ok (Inl _) = False"
| "is_ok (Inr _) = True"

lemma is_ok_iff: "is_ok r \<longleftrightarrow> (\<exists>x. r = Inr x)"
  by (cases r) auto

section \<open>Lists\<close>

lemma takeWhile_replicate_map:
  "\<forall>y \<in> set (takeWhile (\<lambda>y. f y = k) xs). f y = k"
  by (auto dest: set_takeWhileD)

lemma map_takeWhile_eq_replicate:
  "map f (takeWhile (\<lambda>y. f y = k) xs) = replicate (length (takeWhile (\<lambda>y. f y = k) xs)) k"
  by (induction xs) auto

lemma length_dropWhile_takeWhile:
  "length (takeWhile P xs) + length (dropWhile P xs) = length xs"
  by (metis length_append takeWhile_dropWhile_id)

lemma dropWhile_length_takeWhile: "drop (length (takeWhile P xs)) xs = dropWhile P xs"
  by (simp add: dropWhile_eq_drop)

lemma length_filter_mono:
  "(\<And>x. P x \<Longrightarrow> Q x) \<Longrightarrow> length (filter P xs) \<le> length (filter Q xs)"
  by (induction xs) auto

lemma list_all_dropWhile: "list_all Q xs \<Longrightarrow> list_all Q (dropWhile P xs)"
  by (induction xs) auto

lemma list_all_concat_map:
  "list_all P (concat (map f xs)) \<longleftrightarrow> list_all (\<lambda>x. list_all P (f x)) xs"
  by (induction xs) auto

end
