(* ===== verification/Go_Strings.thy ===== *)
theory Go_Strings
  imports Go_Prelude
begin

text \<open>
  Go strings are byte sequences: a \<open>string\<close> of HOL, each \<open>char\<close> one byte. This theory holds
  the byte-wise functions of the packages \<open>strings\<close>, \<open>strconv\<close> and \<open>fmt\<close> that the program
  calls, under their Go names where HOL leaves them free, and the laws the components use.
  Functions of \<open>strings\<close> that look at runes are in \<open>Go_Unicode\<close>.
\<close>

abbreviation NL :: char where "NL \<equiv> CHR 0x0A"
abbreviation CR :: char where "CR \<equiv> CHR 0x0D"
abbreviation TAB :: char where "TAB \<equiv> CHR 0x09"
abbreviation QUOTE :: char where "QUOTE \<equiv> CHR 0x22"
abbreviation BACKSLASH :: char where "BACKSLASH \<equiv> CHR 0x5C"

section \<open>Searching\<close>

definition HasPrefix :: "string \<Rightarrow> string \<Rightarrow> bool" where
  "HasPrefix s p \<longleftrightarrow> take (length p) s = p"

definition HasSuffix :: "string \<Rightarrow> string \<Rightarrow> bool" where
  "HasSuffix s p \<longleftrightarrow> length p \<le> length s \<and> drop (length s - length p) s = p"

text \<open>\<open>strings.Index\<close>, with \<open>None\<close> for its \<open>-1\<close>.\<close>

fun Index :: "string \<Rightarrow> string \<Rightarrow> nat option" where
  "Index [] sub = (if sub = [] then Some 0 else None)"
| "Index (c # cs) sub =
     (if HasPrefix (c # cs) sub then Some 0 else map_option Suc (Index cs sub))"

definition Contains :: "string \<Rightarrow> string \<Rightarrow> bool" where
  "Contains s sub \<longleftrightarrow> Index s sub \<noteq> None"

lemma HasPrefix_iff: "HasPrefix s p \<longleftrightarrow> (\<exists>t. s = p @ t)"
  by (metis HasPrefix_def append_eq_conv_conj)

lemma HasPrefix_append [go_str, simp]: "HasPrefix (p @ t) p"
  by (simp add: HasPrefix_def)

lemma HasSuffix_iff: "HasSuffix s p \<longleftrightarrow> (\<exists>t. s = t @ p)"
proof
  assume "HasSuffix s p"
  then have "s = take (length s - length p) s @ p"
    by (metis HasSuffix_def append_take_drop_id)
  then show "\<exists>t. s = t @ p" by blast
qed (auto simp: HasSuffix_def)

lemma HasSuffix_append [go_str, simp]: "HasSuffix (t @ p) p"
  by (auto simp: HasSuffix_iff)

lemma Index_Some:
  "Index s sub = Some i \<Longrightarrow> s = take i s @ sub @ drop (i + length sub) s \<and> i + length sub \<le> length s"
proof (induction s sub arbitrary: i rule: Index.induct)
  case (1 sub)
  then show ?case by (auto split: if_splits)
next
  case (2 c cs sub)
  show ?case
  proof (cases "HasPrefix (c # cs) sub")
    case True
    then obtain t where t: "c # cs = sub @ t" by (auto simp: HasPrefix_iff)
    have "length sub \<le> length (c # cs)" by (simp only: t) simp
    moreover have "i = 0" using "2.prems" True by simp
    ultimately show ?thesis using t by simp
  next
    case False
    with "2.prems" obtain j where j: "Index cs sub = Some j" and i: "i = Suc j"
      by auto
    from "2.IH" [OF False j] show ?thesis by (simp add: i)
  qed
qed

lemma Index_None: "Index s sub = None \<Longrightarrow> s \<noteq> a @ sub @ b"
proof (induction s sub arbitrary: a rule: Index.induct)
  case (1 sub)
  then show ?case by (auto split: if_splits)
next
  case (2 c cs sub)
  then have np: "\<not> HasPrefix (c # cs) sub" and none: "Index cs sub = None"
    by (auto split: if_splits)
  show ?case
  proof (cases a)
    case Nil
    then show ?thesis using np by (auto simp: HasPrefix_iff)
  next
    case (Cons d ds)
    then show ?thesis using "2.IH" [OF np none, of ds] by auto
  qed
qed

lemma Contains_iff: "Contains s sub \<longleftrightarrow> (\<exists>a b. s = a @ sub @ b)"
  unfolding Contains_def
  by (metis Index_None Index_Some not_None_eq)

text \<open>A byte the pattern does not hold cuts the search in two.\<close>

lemma HasPrefix_cut:
  assumes "x \<notin> set sub"
  shows "HasPrefix (a @ x # b) sub = HasPrefix a sub"
proof (cases "length sub \<le> length a")
  case True
  then show ?thesis by (simp add: HasPrefix_def)
next
  case False
  then have "x \<in> set (take (length sub) (a @ x # b))"
    by (cases "length sub - length a") simp_all
  then have "\<not> HasPrefix (a @ x # b) sub" using assms by (metis HasPrefix_def)
  moreover have "\<not> HasPrefix a sub"
    using False by (auto simp: HasPrefix_def dest: arg_cong [where f = length])
  ultimately show ?thesis by simp
qed

lemma Index_cut:
  assumes "x \<notin> set sub" and "sub \<noteq> []" and "Index a sub = None"
  shows "Index (a @ x # b) sub = map_option (\<lambda>i. Suc (length a) + i) (Index b sub)"
  using assms(3)
proof (induction a)
  case Nil
  have "\<not> HasPrefix (x # b) sub"
    using HasPrefix_cut [OF assms(1), of "[]" b] assms(2) by (simp add: HasPrefix_def)
  then show ?case by (cases "Index b sub") simp_all
next
  case (Cons c a)
  then have "\<not> HasPrefix (c # a) sub" and a: "Index a sub = None" by (auto split: if_splits)
  then have "\<not> HasPrefix (c # a @ x # b) sub" using HasPrefix_cut [OF assms(1), of "c # a" b] by simp
  then show ?case using Cons.IH [OF a] by (cases "Index b sub") simp_all
qed

lemma Index_self: "sub \<noteq> [] \<Longrightarrow> Index (sub @ t) sub = Some 0"
  using HasPrefix_append [of sub t] by (cases sub) simp_all

lemma Index_lines:
  assumes "x \<notin> set sub" and "sub \<noteq> []" and "list_all (\<lambda>l. Index l sub = None) ls"
  shows "Index (concat (map (\<lambda>l. l @ [x]) ls) @ t) sub =
    map_option (\<lambda>i. length (concat (map (\<lambda>l. l @ [x]) ls)) + i) (Index t sub)"
  using assms(3)
proof (induction ls)
  case Nil
  then show ?case by (cases "Index t sub") simp_all
next
  case (Cons l ls)
  then show ?case
    using Index_cut [OF assms(1,2), of l "concat (map (\<lambda>l. l @ [x]) ls) @ t"] 
    by (cases "Index t sub") simp_all
qed

lemma Index_append_None: "Index (a @ b) sub = None \<Longrightarrow> Index a sub = None"
  by (metis Contains_def Contains_iff append.assoc)

lemma Contains_append_right: "Contains s sub \<Longrightarrow> Contains (s @ t) sub"
  by (auto simp: Contains_iff) (metis append.assoc)

lemma Contains_append_left: "Contains t sub \<Longrightarrow> Contains (s @ t) sub"
  by (auto simp: Contains_iff) (metis append.assoc)

lemma Contains_middle [go_str, simp]: "Contains (a @ sub @ b) sub"
  by (auto simp: Contains_iff)

lemma Contains_single: "Contains s [c] \<longleftrightarrow> c \<in> set s"
  by (auto simp: Contains_iff in_set_conv_decomp)

section \<open>Splitting and joining\<close>

text \<open>
  \<open>strings.Split\<close> for the non-empty separators the program uses. (With an empty separator Go
  explodes the string into runes; no call site does that.)
\<close>

function Split :: "string \<Rightarrow> string \<Rightarrow> string list" where
  "Split s sep =
     (if sep = [] then [s]
      else case Index s sep of
        None \<Rightarrow> [s]
      | Some i \<Rightarrow> take i s # Split (drop (i + length sep) s) sep)"
  by pat_completeness auto
termination
proof (relation "measure (\<lambda>(s, sep). length s)")
  fix s sep :: string and i :: nat
  assume "sep \<noteq> []" and "Index s sep = Some i"
  moreover from this have "i + length sep \<le> length s" and "0 < length sep"
    using Index_Some [of s sep i] by auto
  then have "length s - (i + length sep) < length s" by linarith
  then show "((drop (i + length sep) s, sep), s, sep) \<in> measure (\<lambda>(s, sep). length s)"
    by simp
qed simp

declare Split.simps [simp del]

fun Join :: "string list \<Rightarrow> string \<Rightarrow> string" where
  "Join [] sep = []"
| "Join [x] sep = x"
| "Join (x # y # zs) sep = x @ sep @ Join (y # zs) sep"

lemma Join_Cons: "ys \<noteq> [] \<Longrightarrow> Join (x # ys) sep = x @ sep @ Join ys sep"
  by (cases ys) auto

lemma Join_lines: "ls \<noteq> [] \<Longrightarrow> Join ls [x] @ [x] = concat (map (\<lambda>l. l @ [x]) ls)"
proof (induction ls)
  case (Cons l ls)
  then show ?case by (cases ls) simp_all
qed simp

lemma Join_append:
  "xs \<noteq> [] \<Longrightarrow> ys \<noteq> [] \<Longrightarrow> Join (xs @ ys) sep = Join xs sep @ sep @ Join ys sep"
proof (induction xs)
  case (Cons x xs)
  then show ?case by (cases "xs = []") (simp_all add: Join_Cons)
qed simp

lemma Split_not_Nil [simp]: "Split s sep \<noteq> []"
  by (subst Split.simps) (simp split: option.split)

lemma Join_Split [go_str, simp]: "Join (Split s sep) sep = s"
proof (induction s sep rule: Split.induct)
  case (1 s sep)
  show ?case
  proof (cases "sep = [] \<or> Index s sep = None")
    case True
    then show ?thesis by (subst Split.simps) auto
  next
    case False
    then obtain i where sep: "sep \<noteq> []" and i: "Index s sep = Some i" by auto
    have "Join (Split s sep) sep = take i s @ sep @ Join (Split (drop (i + length sep) s) sep) sep"
      by (subst Split.simps) (simp add: sep i Join_Cons)
    also have "\<dots> = s"
      using "1.IH" [OF sep i] Index_Some [OF i] by simp
    finally show ?thesis .
  qed
qed

text \<open>With a one-byte separator the pieces are exactly the maximal separator-free ones.\<close>

lemma Index_single: "Index s [c] = (if c \<in> set s then Some (length (takeWhile (\<lambda>x. x \<noteq> c) s)) else None)"
  by (induction s) (auto simp: HasPrefix_def)

lemma Split_single:
  "Split s [c] = (if c \<in> set s
     then takeWhile (\<lambda>x. x \<noteq> c) s # Split (tl (dropWhile (\<lambda>x. x \<noteq> c) s)) [c] else [s])"
proof (cases "c \<in> set s")
  case True
  have "drop (length (takeWhile (\<lambda>x. x \<noteq> c) s) + 1) s = tl (dropWhile (\<lambda>x. x \<noteq> c) s)"
    by (metis Suc_eq_plus1 drop_Suc dropWhile_length_takeWhile tl_drop)
  then show ?thesis
    using True by (subst Split.simps) (simp add: Index_single takeWhile_eq_take [symmetric])
next
  case False
  then show ?thesis by (subst Split.simps) (simp add: Index_single)
qed

lemma Split_single_pieces: "\<forall>x \<in> set (Split s [c]). c \<notin> set x"
proof (induction "length s" arbitrary: s rule: less_induct)
  case less
  show ?case
  proof (cases "c \<in> set s")
    case True
    then have "dropWhile (\<lambda>x. x \<noteq> c) s \<noteq> []" by simp
    then have "length (tl (dropWhile (\<lambda>x. x \<noteq> c) s)) < length s"
      by (metis length_dropWhile_le length_tl diff_less le_less_trans length_greater_0_conv
          less_imp_diff_less nat_neq_iff not_le order_less_le_trans zero_less_one)
    then have "\<forall>x \<in> set (Split (tl (dropWhile (\<lambda>x. x \<noteq> c) s)) [c]). c \<notin> set x"
      by (rule less)
    then show ?thesis
      using True by (subst Split_single) (auto dest: set_takeWhileD)
  next
    case False
    then show ?thesis by (subst Split_single) simp
  qed
qed

lemma Split_append_sep: "c \<notin> set x \<Longrightarrow> Split (x @ [c] @ s) [c] = x # Split s [c]"
  by (subst Split_single) (simp add: dropWhile_append takeWhile_append)

lemma Split_no_sep: "c \<notin> set x \<Longrightarrow> Split x [c] = [x]"
  by (subst Split_single) simp

lemma Split_Join_single [go_str]:
  "xs \<noteq> [] \<Longrightarrow> \<forall>x \<in> set xs. c \<notin> set x \<Longrightarrow> Split (Join xs [c]) [c] = xs"
proof (induction xs)
  case (Cons x xs)
  show ?case
  proof (cases "xs = []")
    case True
    with Cons.prems show ?thesis by (simp add: Split_no_sep)
  next
    case False
    with Cons show ?thesis by (simp add: Join_Cons Split_append_sep [simplified])
  qed
qed simp

lemma length_Join:
  "length (Join xs sep) = sum_list (map length xs) + (length xs - 1) * length sep"
  by (induction xs sep rule: Join.induct) auto

text \<open>\<open>strings.Cut\<close>: the text before and after the first separator, or \<open>None\<close> if absent.\<close>

definition Cut :: "string \<Rightarrow> string \<Rightarrow> (string \<times> string) option" where
  "Cut s sep = (case Index s sep of
     None \<Rightarrow> None
   | Some i \<Rightarrow> Some (take i s, drop (i + length sep) s))"

lemma Cut_single: "c \<notin> set a \<Longrightarrow> Cut (a @ c # b) [c] = Some (a, b)"
  by (simp add: Cut_def Index_single takeWhile_append dropWhile_append)

section \<open>Trimming\<close>

definition TrimPrefix :: "string \<Rightarrow> string \<Rightarrow> string" where
  "TrimPrefix s p = (if HasPrefix s p then drop (length p) s else s)"

definition TrimSuffix :: "string \<Rightarrow> string \<Rightarrow> string" where
  "TrimSuffix s p = (if HasSuffix s p then take (length s - length p) s else s)"

lemma TrimPrefix_append [go_str, simp]: "TrimPrefix (p @ t) p = t"
  by (simp add: TrimPrefix_def)

lemma TrimSuffix_append [go_str, simp]: "TrimSuffix (t @ p) p = t"
  by (simp add: TrimSuffix_def)

text \<open>
  \<open>strings.TrimLeft\<close>, \<open>TrimRight\<close> and \<open>Trim\<close> with a cutset of ASCII bytes, which is all the
  program passes: bytes of the set are cut off the ends.
\<close>

definition TrimLeft :: "string \<Rightarrow> string \<Rightarrow> string" where
  "TrimLeft s cutset = dropWhile (\<lambda>c. c \<in> set cutset) s"

definition TrimRight :: "string \<Rightarrow> string \<Rightarrow> string" where
  "TrimRight s cutset = rev (dropWhile (\<lambda>c. c \<in> set cutset) (rev s))"

definition Trim :: "string \<Rightarrow> string \<Rightarrow> string" where
  "Trim s cutset = TrimRight (TrimLeft s cutset) cutset"

lemma TrimRight_last: "TrimRight s cs \<noteq> [] \<Longrightarrow> last (TrimRight s cs) \<notin> set cs"
  unfolding TrimRight_def by (metis hd_dropWhile last_rev rev_is_Nil_conv)

lemma TrimLeft_hd: "TrimLeft s cs \<noteq> [] \<Longrightarrow> hd (TrimLeft s cs) \<notin> set cs"
  unfolding TrimLeft_def by (metis hd_dropWhile)

lemma TrimRight_idem [simp]: "TrimRight (TrimRight s cs) cs = TrimRight s cs"
  by (simp add: TrimRight_def)

lemma TrimRight_decomp: "\<exists>t. s = TrimRight s cs @ t \<and> set t \<subseteq> set cs"
proof -
  have "rev s = takeWhile (\<lambda>c. c \<in> set cs) (rev s) @ dropWhile (\<lambda>c. c \<in> set cs) (rev s)"
    by simp
  then have "s = rev (dropWhile (\<lambda>c. c \<in> set cs) (rev s)) @ rev (takeWhile (\<lambda>c. c \<in> set cs) (rev s))"
    by (metis rev_append rev_rev_ident)
  then show ?thesis
    unfolding TrimRight_def by (metis set_rev set_takeWhileD subsetI)
qed

lemma TrimRight_append_cut: "set t \<subseteq> set cs \<Longrightarrow> TrimRight (s @ t) cs = TrimRight s cs"
proof -
  assume a: "set t \<subseteq> set cs"
  have "dropWhile (\<lambda>c. c \<in> set cs) (rev t @ rev s) = dropWhile (\<lambda>c. c \<in> set cs) (rev s)"
    using a by (subst dropWhile_append2) auto
  then show ?thesis by (simp add: TrimRight_def)
qed

lemma TrimRight_id: "s = [] \<or> last s \<notin> set cs \<Longrightarrow> TrimRight s cs = s"
  by (cases s rule: rev_cases) (auto simp: TrimRight_def)

lemma TrimLeft_id: "s = [] \<or> hd s \<notin> set cs \<Longrightarrow> TrimLeft s cs = s"
  by (cases s) (auto simp: TrimLeft_def)

lemma TrimLeft_append: "TrimLeft s cs \<noteq> [] \<Longrightarrow> TrimLeft (s @ t) cs = TrimLeft s cs @ t"
  unfolding TrimLeft_def by (induction s) auto

lemma TrimRight_append: "TrimRight t cs \<noteq> [] \<Longrightarrow> TrimRight (s @ t) cs = s @ TrimRight t cs"
  unfolding TrimRight_def by (simp add: dropWhile_append) (metis dropWhile_eq_Nil_conv)

lemma Trim_empty_iff: "TrimLeft s cs = [] \<longleftrightarrow> set s \<subseteq> set cs" "TrimRight s cs = [] \<longleftrightarrow> set s \<subseteq> set cs"
  unfolding TrimLeft_def TrimRight_def by auto

lemma TrimLeft_TrimRight_ne: "TrimRight s cs \<noteq> [] \<Longrightarrow> TrimLeft (TrimRight s cs) cs \<noteq> []"
  by (metis Trim_empty_iff(1) TrimRight_last last_in_set subsetD)

lemma TrimRight_TrimLeft: "TrimRight (TrimLeft s cs) cs = TrimLeft (TrimRight s cs) cs"
proof (cases "TrimRight s cs = []")
  case True
  then have "TrimLeft s cs = []" by (simp add: Trim_empty_iff)
  then show ?thesis using True by (simp add: TrimRight_id TrimLeft_id)
next
  case False
  obtain t where t: "s = TrimRight s cs @ t" "set t \<subseteq> set cs" using TrimRight_decomp by blast
  have ne: "TrimLeft (TrimRight s cs) cs \<noteq> []"
    by (rule TrimLeft_TrimRight_ne [OF False])
  then have "TrimLeft s cs = TrimLeft (TrimRight s cs) cs @ t"
    using TrimLeft_append [OF ne, of t] t(1) by simp
  moreover have "last (TrimLeft (TrimRight s cs) cs) = last (TrimRight s cs)"
    using ne unfolding TrimLeft_def by (metis last_appendR takeWhile_dropWhile_id)
  ultimately show ?thesis
    using TrimRight_append_cut [OF t(2)] TrimRight_id [of "TrimLeft (TrimRight s cs) cs" cs]
      TrimRight_last [OF False] by simp
qed

section \<open>Decimal numbers\<close>

definition digit :: "nat \<Rightarrow> char" where
  "digit n = ''0123456789'' ! n"

definition is_digit :: "char \<Rightarrow> bool" where
  "is_digit c \<longleftrightarrow> 48 \<le> (of_char c :: nat) \<and> (of_char c :: nat) \<le> 57"

definition digit_val :: "char \<Rightarrow> nat" where
  "digit_val c = of_char c - 48"

fun decimal :: "nat \<Rightarrow> string" where
  "decimal n = (if n < 10 then [digit n] else decimal (n div 10) @ [digit (n mod 10)])"

declare decimal.simps [simp del]

text \<open>\<open>strconv.Itoa\<close>, and the verb \<open>%d\<close> of \<open>fmt\<close>.\<close>

definition Itoa :: "int \<Rightarrow> string" where
  "Itoa n = (if n < 0 then CHR ''-'' # decimal (nat (- n)) else decimal (nat n))"

definition dec_val :: "string \<Rightarrow> nat" where
  "dec_val s = foldl (\<lambda>a c. a * 10 + digit_val c) 0 s"

text \<open>
  \<open>strconv.Atoi\<close>: an optional sign, at least one digit, nothing else, and a value of the
  64-bit range; \<open>None\<close> is its error.
\<close>

definition Atoi :: "string \<Rightarrow> int option" where
  "Atoi s =
     (let neg = HasPrefix s ''-'';
          body = (if HasPrefix s ''-'' \<or> HasPrefix s ''+'' then drop 1 s else s)
      in if body = [] \<or> \<not> list_all is_digit body then None
         else let v = int (dec_val body); n = (if neg then - v else v)
              in if in_int64 n then Some n else None)"

lemma less_10_cases: "n < 10 \<Longrightarrow> n \<in> {0, 1, 2, 3, 4, 5, 6, 7, 8, 9 :: nat}"
  by auto

lemma of_char_digit: "n < 10 \<Longrightarrow> of_char (digit n) = 48 + n"
  by (drule less_10_cases) (auto simp: digit_def)

lemma digit_is_digit [simp]: "n < 10 \<Longrightarrow> is_digit (digit n)"
  by (simp add: is_digit_def of_char_digit)

lemma digit_val_digit [simp]: "n < 10 \<Longrightarrow> digit_val (digit n) = n"
  by (simp add: digit_val_def of_char_digit)

lemma decimal_not_Nil [simp]: "decimal n \<noteq> []"
  by (subst decimal.simps) simp

lemma decimal_digits: "list_all is_digit (decimal n)"
proof (induction n rule: decimal.induct)
  case (1 n)
  then show ?case
    by (cases "n < 10") (simp_all add: decimal.simps [of n])
qed

lemma dec_val_snoc: "dec_val (s @ [c]) = dec_val s * 10 + digit_val c"
  by (simp add: dec_val_def)

lemma dec_val_decimal [simp]: "dec_val (decimal n) = n"
proof (induction n rule: decimal.induct)
  case (1 n)
  show ?case
  proof (cases "n < 10")
    case True
    then show ?thesis by (simp add: decimal.simps [of n] dec_val_def)
  next
    case False
    then show ?thesis
      using 1 by (simp add: decimal.simps [of n] dec_val_snoc)
  qed
qed

lemma decimal_inject [simp]: "decimal m = decimal n \<longleftrightarrow> m = n"
  by (metis dec_val_decimal)

lemma length_decimal: "n < 10 ^ Suc k \<Longrightarrow> length (decimal n) \<le> Suc k"
proof (induction k arbitrary: n)
  case 0
  then show ?case by (subst decimal.simps) simp
next
  case (Suc k)
  show ?case
  proof (cases "n < 10")
    case True
    then show ?thesis by (subst decimal.simps) simp
  next
    case False
    from Suc.prems have "n div 10 < 10 ^ Suc k"
      by (simp add: less_mult_imp_div_less mult.commute)
    then have "length (decimal (n div 10)) \<le> Suc k" by (rule Suc.IH)
    then show ?thesis
      using False by (subst decimal.simps) simp
  qed
qed

lemma is_digit_not: "is_digit c \<Longrightarrow> c \<noteq> CHR ''-'' \<and> c \<noteq> CHR ''+'' \<and> c \<noteq> CHR '' '' \<and> c \<noteq> NL \<and> c \<noteq> CHR '':''"
  by (auto simp: is_digit_def)

lemma decimal_hd: "is_digit (hd (decimal n))"
  using decimal_digits [of n] by (cases "decimal n") auto

lemma Itoa_no_NL [simp]: "NL \<notin> set (Itoa n)"
  using decimal_digits [of "nat n"] decimal_digits [of "nat (- n)"]
  by (auto simp: Itoa_def list_all_iff dest!: is_digit_not)

lemma HasPrefix_single: "HasPrefix s [c] \<longleftrightarrow> s \<noteq> [] \<and> hd s = c"
  by (cases s) (auto simp: HasPrefix_def)

lemma Atoi_decimal: "in_int64 (int n) \<Longrightarrow> Atoi (decimal n) = Some (int n)"
  using is_digit_not [OF decimal_hd [of n]]
  by (simp add: Atoi_def HasPrefix_single decimal_digits)

lemma Atoi_Itoa [go_str]: "in_int64 n \<Longrightarrow> Atoi (Itoa n) = Some n"
proof (cases "n < 0")
  case True
  then show "in_int64 n \<Longrightarrow> Atoi (Itoa n) = Some n"
    by (simp add: Itoa_def Atoi_def HasPrefix_single decimal_digits)
next
  case False
  then show "in_int64 n \<Longrightarrow> Atoi (Itoa n) = Some n"
    by (simp add: Itoa_def Atoi_decimal)
qed

lemma Atoi_in_range: "Atoi s = Some n \<Longrightarrow> in_int64 n"
  by (auto simp: Atoi_def Let_def split: if_splits)

text \<open>Evaluation on literals, for the concrete instances of the development.\<close>

lemmas string_eval [go_eval] = HasPrefix_def HasSuffix_def Contains_def Split.simps Cut_def
  TrimPrefix_def TrimSuffix_def TrimLeft_def TrimRight_def Trim_def
  digit_def is_digit_def digit_val_def decimal.simps Itoa_def dec_val_def Atoi_def in_int64_def

end
