(* ===== verification/Go_Unicode.thy ===== *)
theory Go_Unicode
  imports Go_Strings
begin

text \<open>
  Runes: the UTF-8 decoding that Go's \<open>range\<close> loop, \<open>unicode/utf8\<close> and the rune-wise part of
  \<open>strings\<close> share. \<open>runes s\<close> is the sequence the \<open>range\<close> loop over \<open>s\<close> sees, each rune with
  the bytes it was decoded from; a byte that starts no valid encoding is a \<open>RuneError\<close> of
  width one. All rune-wise functions are stated over this sequence.

  The Unicode character database beyond ASCII is data the program does not carry: the record
  \<open>unicode_tables\<close> stands for the tables of Go's package \<open>unicode\<close>, which the definitions
  consult for runes from 128 on only. White space is complete.
\<close>

type_synonym rune = nat

abbreviation RuneError :: rune where "RuneError \<equiv> 65533"

abbreviation byte :: "char \<Rightarrow> nat" where "byte c \<equiv> of_char c"

section \<open>Decoding\<close>

definition is_cont :: "char \<Rightarrow> bool" where
  "is_cont c \<longleftrightarrow> 128 \<le> byte c \<and> byte c \<le> 191"

text \<open>The range of the second byte depends on the first (no overlong forms, no surrogates).\<close>

definition second_ok :: "nat \<Rightarrow> char \<Rightarrow> bool" where
  "second_ok b c \<longleftrightarrow>
     (if b = 224 then 160 else if b = 240 then 144 else 128) \<le> byte c \<and>
     byte c \<le> (if b = 237 then 159 else if b = 244 then 143 else 191)"

text \<open>\<open>utf8.DecodeRuneInString\<close>: the first rune and its width in bytes.\<close>

definition DecodeRune :: "string \<Rightarrow> rune \<times> nat" where
  "DecodeRune s = (case s of
     [] \<Rightarrow> (RuneError, 0)
   | c # cs \<Rightarrow>
     (let b = byte c in
      if b < 128 then (b, 1)
      else if 194 \<le> b \<and> b \<le> 223 then
        (case cs of
           c1 # _ \<Rightarrow> if is_cont c1 then ((b - 192) * 64 + (byte c1 - 128), 2) else (RuneError, 1)
         | [] \<Rightarrow> (RuneError, 1))
      else if 224 \<le> b \<and> b \<le> 239 then
        (case cs of
           c1 # c2 # _ \<Rightarrow>
             if second_ok b c1 \<and> is_cont c2
             then ((b - 224) * 4096 + (byte c1 - 128) * 64 + (byte c2 - 128), 3)
             else (RuneError, 1)
         | _ \<Rightarrow> (RuneError, 1))
      else if 240 \<le> b \<and> b \<le> 244 then
        (case cs of
           c1 # c2 # c3 # _ \<Rightarrow>
             if second_ok b c1 \<and> is_cont c2 \<and> is_cont c3
             then ((b - 240) * 262144 + (byte c1 - 128) * 4096 + (byte c2 - 128) * 64
                   + (byte c3 - 128), 4)
             else (RuneError, 1)
         | _ \<Rightarrow> (RuneError, 1))
      else (RuneError, 1)))"

lemma second_ok_cont: "second_ok b c \<Longrightarrow> is_cont c"
  by (auto simp: second_ok_def is_cont_def split: if_splits)

lemma DecodeRune_width:
  "s \<noteq> [] \<Longrightarrow> 1 \<le> snd (DecodeRune s) \<and> snd (DecodeRune s) \<le> length s"
  by (cases s) (auto simp: DecodeRune_def Let_def split: list.split)

function runes :: "string \<Rightarrow> (rune \<times> string) list" where
  "runes s = (if s = [] then []
     else (let (r, n) = DecodeRune s in (r, take n s) # runes (drop n s)))"
  by pat_completeness auto
termination
proof (relation "measure length")
  fix s :: string and x r n
  assume "s \<noteq> []" and "x = DecodeRune s" and "(r, n) = x"
  then show "(drop n s, s) \<in> measure length"
    using DecodeRune_width [of s] by (cases s) (auto simp: prod_eq_iff)
qed simp

declare runes.simps [simp del]

lemma runes_Nil [simp]: "runes [] = []"
  by (simp add: runes.simps)

lemma runes_step:
  "s \<noteq> [] \<Longrightarrow> runes s =
     (fst (DecodeRune s), take (snd (DecodeRune s)) s) # runes (drop (snd (DecodeRune s)) s)"
  by (subst runes.simps) (simp add: case_prod_beta)

lemma runes_eq_Nil [simp]: "runes s = [] \<longleftrightarrow> s = []"
  by (cases "s = []") (simp_all add: runes_step)

lemma DecodeRune_ascii: "byte c < 128 \<Longrightarrow> DecodeRune (c # cs) = (byte c, 1)"
  by (simp add: DecodeRune_def)

lemma runes_ascii_Cons: "byte c < 128 \<Longrightarrow> runes (c # cs) = (byte c, [c]) # runes cs"
  by (simp add: runes_step DecodeRune_ascii)

text \<open>Equations that evaluate without unfolding under a binder.\<close>

lemma runes_code [code]:
  "runes [] = []"
  "runes (c # cs) =
     (if byte c < 128 then (byte c, [c]) # runes cs
      else (fst (DecodeRune (c # cs)), take (snd (DecodeRune (c # cs))) (c # cs))
           # runes (drop (snd (DecodeRune (c # cs))) (c # cs)))"
  by (simp_all add: runes_ascii_Cons) (simp add: runes_step)

lemma concat_runes [utf8_facts]: "concat (map snd (runes s)) = s"
proof (induction s rule: runes.induct)
  case (1 s)
  show ?case
  proof (cases "s = []")
    case False
    with 1 [of "DecodeRune s" "fst (DecodeRune s)" "snd (DecodeRune s)"]
    show ?thesis by (simp add: runes_step)
  qed simp
qed

text \<open>
  Decoding stops at a byte that is no continuation byte: what precedes such a byte is decoded
  as if the string ended there.
\<close>

lemma DecodeRune_append:
  assumes "s \<noteq> []" and "t = [] \<or> \<not> is_cont (hd t)"
  shows "DecodeRune (s @ t) = DecodeRune s"
proof -
  from assms(1) obtain a s1 where s: "s = a # s1" by (cases s) auto
  show ?thesis
    using assms(2)
    by (cases t) (auto simp: s DecodeRune_def Let_def dest: second_ok_cont split: list.split)
qed

lemma runes_append:
  assumes "t = [] \<or> \<not> is_cont (hd t)"
  shows "runes (s @ t) = runes s @ runes t"
proof (induction s rule: runes.induct)
  case (1 s)
  show ?case
  proof (cases "s = []")
    case False
    then have w: "snd (DecodeRune s) \<le> length s" by (simp add: DecodeRune_width)
    from False 1 [of "DecodeRune s" "fst (DecodeRune s)" "snd (DecodeRune s)"]
    have "runes (drop (snd (DecodeRune s)) s @ t) = runes (drop (snd (DecodeRune s)) s) @ runes t"
      by simp
    then show ?thesis
      using False w by (simp add: runes_step DecodeRune_append [OF False assms])
  qed simp
qed

section \<open>Validity\<close>

text \<open>\<open>utf8.ValidString\<close> and \<open>utf8.Valid\<close>.\<close>

definition bad_chunk :: "rune \<times> string \<Rightarrow> bool" where
  "bad_chunk ch \<longleftrightarrow> fst ch = RuneError \<and> length (snd ch) = 1"

definition ValidString :: "string \<Rightarrow> bool" where
  "ValidString s \<longleftrightarrow> list_all (\<lambda>ch. \<not> bad_chunk ch) (runes s)"

definition ascii :: "string \<Rightarrow> bool" where
  "ascii s \<longleftrightarrow> list_all (\<lambda>c. byte c < 128) s"

lemma ascii_simps [simp]:
  "ascii []" "ascii (c # cs) \<longleftrightarrow> byte c < 128 \<and> ascii cs" "ascii (s @ t) \<longleftrightarrow> ascii s \<and> ascii t"
  by (simp_all add: ascii_def)

lemma ValidString_Nil [simp, utf8_facts]: "ValidString []"
  by (simp add: ValidString_def)

lemma ascii_not_cont: "byte c < 128 \<Longrightarrow> \<not> is_cont c"
  by (simp add: is_cont_def)

lemma ValidString_ascii_Cons [utf8_facts]: "byte c < 128 \<Longrightarrow> ValidString (c # cs) = ValidString cs"
  by (simp add: ValidString_def runes_ascii_Cons bad_chunk_def)

lemma ValidString_ascii [utf8_facts]: "ascii s \<Longrightarrow> ValidString s"
  by (induction s) (simp_all add: ValidString_ascii_Cons)

lemma ValidString_split:
  "t = [] \<or> \<not> is_cont (hd t) \<Longrightarrow> ValidString (s @ t) \<longleftrightarrow> ValidString s \<and> ValidString t"
  by (simp add: ValidString_def runes_append)

lemma ValidString_hd: "ValidString s \<Longrightarrow> s = [] \<or> \<not> is_cont (hd s)"
proof (rule ccontr)
  assume v: "ValidString s" and n: "\<not> (s = [] \<or> \<not> is_cont (hd s))"
  then obtain c cs where s: "s = c # cs" and c: "is_cont c" by (cases s) auto
  then have "DecodeRune s = (RuneError, 1)"
    by (simp add: DecodeRune_def is_cont_def)
  then show False
    using v s by (simp add: ValidString_def runes_step bad_chunk_def)
qed

lemma ValidString_append [utf8_facts]:
  "ValidString s \<Longrightarrow> ValidString t \<Longrightarrow> ValidString (s @ t)"
  using ValidString_split ValidString_hd by blast

lemma ValidString_ascii_mid:
  assumes "sep \<noteq> []" and "ascii sep"
  shows "ValidString (s @ sep @ t) \<longleftrightarrow> ValidString s \<and> ValidString t"
proof -
  obtain c cs where sep: "sep = c # cs" using assms(1) by (cases sep) auto
  have "ValidString (sep @ t) = ValidString t"
    using assms(2) by (induction sep) (simp_all add: ValidString_ascii_Cons)
  moreover have "ValidString (s @ sep @ t) \<longleftrightarrow> ValidString s \<and> ValidString (sep @ t)"
    by (rule ValidString_split) (use assms(2) in \<open>simp add: sep ascii_not_cont\<close>)
  ultimately show ?thesis by simp
qed

lemma ValidString_Join [utf8_facts]:
  "ascii sep \<Longrightarrow> list_all ValidString xs \<Longrightarrow> ValidString (Join xs sep)"
  by (induction xs sep rule: Join.induct) (simp_all add: ValidString_append ValidString_ascii)

lemma ValidString_Split [utf8_facts]:
  assumes "ascii sep" and "ValidString s"
  shows "list_all ValidString (Split s sep)"
  using assms
proof (induction s sep rule: Split.induct)
  case (1 s sep)
  show ?case
  proof (cases "sep = [] \<or> Index s sep = None")
    case True
    then show ?thesis using "1.prems" by (subst Split.simps) auto
  next
    case False
    then obtain i where sep: "sep \<noteq> []" and i: "Index s sep = Some i" by auto
    have "s = take i s @ sep @ drop (i + length sep) s"
      using Index_Some [OF i] by simp
    then have "ValidString (take i s) \<and> ValidString (drop (i + length sep) s)"
      using ValidString_ascii_mid [OF sep "1.prems"(1)] "1.prems"(2) by metis
    then show ?thesis
      using "1.IH" [OF sep i "1.prems"(1)] by (subst Split.simps) (simp add: sep i)
  qed
qed

section \<open>White space\<close>

text \<open>\<open>unicode.IsSpace\<close>, in full: Latin-1 first, then the property \<open>White_Space\<close>.\<close>

definition IsSpace :: "rune \<Rightarrow> bool" where
  "IsSpace r \<longleftrightarrow>
     (9 \<le> r \<and> r \<le> 13) \<or> r = 32 \<or> r = 133 \<or> r = 160 \<or> r = 5760 \<or>
     (8192 \<le> r \<and> r \<le> 8202) \<or> r = 8232 \<or> r = 8233 \<or> r = 8239 \<or> r = 8287 \<or> r = 12288"

definition space_chunk :: "rune \<times> string \<Rightarrow> bool" where
  "space_chunk ch \<longleftrightarrow> IsSpace (fst ch)"

definition bytes_of :: "(rune \<times> string) list \<Rightarrow> string" where
  "bytes_of chs = concat (map snd chs)"

text \<open>
  \<open>strings.TrimSpace\<close>. Go trims the right end by decoding runes backwards; an encoded space
  at the end of a string is always a whole rune of the forward decoding too, because its
  first byte is no continuation byte (\<open>runes_append\<close>), so both give the same result.
\<close>

definition TrimSpace :: "string \<Rightarrow> string" where
  "TrimSpace s = bytes_of (rev (dropWhile space_chunk (rev (dropWhile space_chunk (runes s)))))"

text \<open>\<open>strings.FieldsFunc\<close>: the maximal non-empty runs of runes that do not satisfy \<open>f\<close>.\<close>

fun fields_acc :: "(rune \<Rightarrow> bool) \<Rightarrow> (rune \<times> string) list \<Rightarrow> string \<Rightarrow> string list" where
  "fields_acc f [] cur = (if cur = [] then [] else [cur])"
| "fields_acc f ((r, bs) # chs) cur =
     (if f r then (if cur = [] then [] else [cur]) @ fields_acc f chs []
      else fields_acc f chs (cur @ bs))"

definition FieldsFunc :: "string \<Rightarrow> (rune \<Rightarrow> bool) \<Rightarrow> string list" where
  "FieldsFunc s f = fields_acc f (runes s) []"

definition Fields :: "string \<Rightarrow> string list" where
  "Fields s = FieldsFunc s IsSpace"

definition solid :: "string \<Rightarrow> bool" where
  "solid s \<longleftrightarrow> list_all (\<lambda>c. byte c < 128 \<and> \<not> IsSpace (byte c)) s"

lemma solid_simps [simp]:
  "solid []" "solid (c # cs) \<longleftrightarrow> byte c < 128 \<and> \<not> IsSpace (byte c) \<and> solid cs"
  "solid (s @ t) \<longleftrightarrow> solid s \<and> solid t"
  by (auto simp: solid_def)

lemma fields_acc_solid:
  "solid s \<Longrightarrow> fields_acc IsSpace (runes (s @ t)) cur = fields_acc IsSpace (runes t) (cur @ s)"
  by (induction s arbitrary: cur) (simp_all add: runes_ascii_Cons)

lemma Fields_solid_space:
  "solid s \<Longrightarrow> s \<noteq> [] \<Longrightarrow> Fields (s @ CHR '' '' # t) = s # Fields t"
  by (simp add: Fields_def FieldsFunc_def fields_acc_solid runes_ascii_Cons IsSpace_def)

lemma Fields_solid: "solid s \<Longrightarrow> s \<noteq> [] \<Longrightarrow> Fields s = [s]"
  using fields_acc_solid [of s "[]" "[]"] by (simp add: Fields_def FieldsFunc_def)

lemma TrimSpace_Nil [simp]: "TrimSpace [] = []"
  by (simp add: TrimSpace_def bytes_of_def)

lemma runes_nonempty_bytes: "ch \<in> set (runes s) \<Longrightarrow> snd ch \<noteq> []"
proof (induction s rule: runes.induct)
  case (1 s)
  show ?case
  proof (cases "s = []")
    case False
    then have w: "1 \<le> snd (DecodeRune s)" using DecodeRune_width by blast
    from False 1 (1) [of "DecodeRune s" "fst (DecodeRune s)" "snd (DecodeRune s)"]
    have "ch \<in> set (runes (drop (snd (DecodeRune s)) s)) \<Longrightarrow> snd ch \<noteq> []" by simp
    with False w 1 (2) show ?thesis
      by (auto simp: runes_step [OF False])
  qed (use 1 in simp)
qed

lemma bytes_of_eq_Nil: "(\<forall>ch \<in> set chs. snd ch \<noteq> []) \<Longrightarrow> bytes_of chs = [] \<longleftrightarrow> chs = []"
  by (cases chs) (auto simp: bytes_of_def)

text \<open>The blank strings, on which \<open>TrimSpace\<close> is empty, are those made of spaces only.\<close>

lemma TrimSpace_eq_Nil: "TrimSpace s = [] \<longleftrightarrow> list_all space_chunk (runes s)"
proof -
  let ?d = "dropWhile space_chunk (rev (dropWhile space_chunk (runes s)))"
  have "set ?d \<subseteq> set (runes s)"
    by (auto dest!: set_dropWhileD)
  then have "\<forall>ch \<in> set (rev ?d). snd ch \<noteq> []"
    using runes_nonempty_bytes by (metis set_rev subsetD)
  then have "bytes_of (rev ?d) = [] \<longleftrightarrow> ?d = []"
    by (simp only: bytes_of_eq_Nil rev_is_Nil_conv)
  also have "\<dots> \<longleftrightarrow> dropWhile space_chunk (runes s) = []"
  proof (cases "dropWhile space_chunk (runes s)")
    case Nil
    show ?thesis unfolding Nil by simp
  next
    case (Cons ch chs)
    then have "\<not> space_chunk ch" by (metis hd_dropWhile list.distinct(1) list.sel(1))
    then show ?thesis by (simp add: Cons)
  qed
  also have "\<dots> \<longleftrightarrow> list_all space_chunk (runes s)"
    by (simp add: list_all_iff)
  finally show ?thesis by (simp only: TrimSpace_def)
qed

text \<open>An ASCII space at the end is trimmed.\<close>

lemma TrimSpace_snoc:
  assumes "byte c < 128" and "IsSpace (byte c)"
  shows "TrimSpace (s @ [c]) = TrimSpace s"
proof -
  have r: "runes (s @ [c]) = runes s @ [(byte c, [c])]"
    using runes_append [of "[c]" s] assms(1) by (simp add: runes_ascii_Cons is_cont_def)
  have sp: "space_chunk (byte c, [c])" using assms(2) by (simp add: space_chunk_def)
  show ?thesis
  proof (cases "list_all space_chunk (runes s)")
    case True
    then have "dropWhile space_chunk (runes s) = []" "dropWhile space_chunk (runes s @ [(byte c, [c])]) = []"
      using sp by (simp_all add: list_all_iff)
    then show ?thesis by (simp only: TrimSpace_def r)
  next
    case False
    then obtain ch where "ch \<in> set (runes s)" "\<not> space_chunk ch" by (auto simp: list_all_iff)
    then have "dropWhile space_chunk (runes s @ [(byte c, [c])]) = dropWhile space_chunk (runes s) @ [(byte c, [c])]"
      by (rule dropWhile_append1)
    then show ?thesis using sp by (simp add: TrimSpace_def r)
  qed
qed

section \<open>Letter case\<close>

record unicode_tables =
  punct_table :: "rune \<Rightarrow> bool"
  symbol_table :: "rune \<Rightarrow> bool"
  upper_table :: "rune \<Rightarrow> rune"
  lower_table :: "rune \<Rightarrow> rune"
  print_table :: "rune \<Rightarrow> bool"

definition EncodeRune :: "rune \<Rightarrow> string" where
  "EncodeRune r =
     (if r < 128 then [char_of r]
      else if r < 2048 then [char_of (192 + r div 64), char_of (128 + r mod 64)]
      else if 1114111 < r \<or> (55296 \<le> r \<and> r \<le> 57343) then map char_of [239, 191, 189 :: nat]
      else if r < 65536 then
        [char_of (224 + r div 4096), char_of (128 + r div 64 mod 64), char_of (128 + r mod 64)]
      else [char_of (240 + r div 262144), char_of (128 + r div 4096 mod 64),
            char_of (128 + r div 64 mod 64), char_of (128 + r mod 64)])"

definition rune_lower :: "unicode_tables \<Rightarrow> rune \<Rightarrow> rune" where
  "rune_lower T r = (if r < 128 then (if 65 \<le> r \<and> r \<le> 90 then r + 32 else r) else lower_table T r)"

definition rune_upper :: "unicode_tables \<Rightarrow> rune \<Rightarrow> rune" where
  "rune_upper T r = (if r < 128 then (if 97 \<le> r \<and> r \<le> 122 then r - 32 else r) else upper_table T r)"

text \<open>\<open>strings.ToLower\<close> and \<open>strings.ToUpper\<close>: rune by rune, invalid bytes as \<open>RuneError\<close>.\<close>

definition ToLower :: "unicode_tables \<Rightarrow> string \<Rightarrow> string" where
  "ToLower T s = concat (map (\<lambda>ch. EncodeRune (rune_lower T (fst ch))) (runes s))"

definition ToUpper :: "unicode_tables \<Rightarrow> string \<Rightarrow> string" where
  "ToUpper T s = concat (map (\<lambda>ch. EncodeRune (rune_upper T (fst ch))) (runes s))"

definition lower_char :: "char \<Rightarrow> char" where
  "lower_char c = (if 65 \<le> byte c \<and> byte c \<le> 90 then char_of (byte c + 32) else c)"

lemma ToLower_ascii: "ascii s \<Longrightarrow> ToLower T s = map lower_char s"
  by (induction s)
    (auto simp: ToLower_def runes_ascii_Cons EncodeRune_def rune_lower_def lower_char_def)

text \<open>
  \<open>strings.EqualFold\<close> against an ASCII string: simple case folding identifies an ASCII letter
  with its other case, and besides that only \<open>s\<close> with the long s (U+017F) and \<open>k\<close> with the
  Kelvin sign (U+212A).
\<close>

definition fold_match :: "rune \<Rightarrow> char \<Rightarrow> bool" where
  "fold_match r c \<longleftrightarrow>
     (if r < 128 then lower_char (char_of r) = lower_char c
      else (r = 383 \<and> lower_char c = CHR ''s'') \<or> (r = 8490 \<and> lower_char c = CHR ''k''))"

definition EqualFold :: "string \<Rightarrow> string \<Rightarrow> bool" where
  "EqualFold s t \<longleftrightarrow> list_all2 (\<lambda>ch c. fold_match (fst ch) c) (runes s) t"

lemma runes_ascii: "ascii s \<Longrightarrow> runes s = map (\<lambda>c. (byte c, [c])) s"
  by (induction s) (simp_all add: runes_ascii_Cons)

lemma EqualFold_ascii:
  "ascii s \<Longrightarrow> EqualFold s t \<longleftrightarrow> map lower_char s = map lower_char t"
proof -
  assume "ascii s"
  then have "EqualFold s t \<longleftrightarrow> list_all2 (\<lambda>c d. lower_char c = lower_char d) s t"
    unfolding EqualFold_def runes_ascii [OF \<open>ascii s\<close>] list_all2_map1
    by (auto simp: fold_match_def ascii_def list_all_iff list_all2_conv_all_nth)
  then show ?thesis
    by (simp add: list_all2_conv_all_nth list_eq_iff_nth_eq) (metis nth_map)
qed

section \<open>Punctuation and symbols\<close>

definition IsPunct :: "unicode_tables \<Rightarrow> rune \<Rightarrow> bool" where
  "IsPunct T r \<longleftrightarrow>
     (if r < 128
      then (33 \<le> r \<and> r \<le> 35) \<or> (37 \<le> r \<and> r \<le> 42) \<or> (44 \<le> r \<and> r \<le> 47) \<or> r = 58 \<or> r = 59 \<or>
           r = 63 \<or> r = 64 \<or> (91 \<le> r \<and> r \<le> 93) \<or> r = 95 \<or> r = 123 \<or> r = 125
      else punct_table T r)"

definition IsSymbol :: "unicode_tables \<Rightarrow> rune \<Rightarrow> bool" where
  "IsSymbol T r \<longleftrightarrow>
     (if r < 128
      then r = 36 \<or> r = 43 \<or> (60 \<le> r \<and> r \<le> 62) \<or> r = 94 \<or> r = 96 \<or> r = 124 \<or> r = 126
      else symbol_table T r)"

text \<open>Tables with nothing beyond ASCII, for evaluating the model on concrete inputs.\<close>

definition ascii_tables :: unicode_tables where
  "ascii_tables = \<lparr>punct_table = (\<lambda>_. False), symbol_table = (\<lambda>_. False),
     upper_table = (\<lambda>r. r), lower_table = (\<lambda>r. r), print_table = (\<lambda>_. False)\<rparr>"

lemmas unicode_eval [go_eval] = runes_code DecodeRune_def is_cont_def second_ok_def bad_chunk_def
  ValidString_def IsSpace_def space_chunk_def bytes_of_def TrimSpace_def FieldsFunc_def Fields_def
  EncodeRune_def rune_lower_def rune_upper_def ToLower_def ToUpper_def lower_char_def
  char_of_eq_iff fold_match_def EqualFold_def IsPunct_def IsSymbol_def ascii_tables_def

end
