(* ===== verification/Tokens.thy ===== *)
theory Tokens
  imports Go_Unicode
begin

text \<open>
  \<open>internal/tokens/counter.go\<close>: token counts, the registry of exact counters per provider
  and model, the deterministic estimator it falls back to, and the savings of a proposed
  text over an original one.

  A \<open>Counter\<close> is a function from the text to a count or an error. \<open>float64(n)/4\<close> is exact for
  every length below \<open>2 ^ 53\<close>, so \<open>math.Ceil\<close> of it is the rounded-up integer quotient.
\<close>

record provider_model =
  pm_Provider :: string
  pm_Model :: string

record count =
  ct_Tokens :: int
  ct_Exact :: bool
  ct_Method :: string

record savings =
  sv_Original :: count
  sv_Proposed :: count
  sv_Delta :: int
  sv_Improved :: bool

type_synonym counter = "string \<Rightarrow> error + count"
type_synonym counter_set = "provider_model \<Rightarrow> counter option"

definition MethodEstimated :: string where
  "MethodEstimated = ''estimated''"

definition zero_count :: count where
  "zero_count = \<lparr>ct_Tokens = 0, ct_Exact = False, ct_Method = []\<rparr>"

definition zero_savings :: savings where
  "zero_savings = \<lparr>sv_Original = zero_count, sv_Proposed = zero_count, sv_Delta = 0,
     sv_Improved = False\<rparr>"

section \<open>The estimator\<close>

definition word_separator :: "unicode_tables \<Rightarrow> rune \<Rightarrow> bool" where
  "word_separator T r \<longleftrightarrow> IsSpace r \<or> IsPunct T r \<or> IsSymbol T r"

definition countWords :: "unicode_tables \<Rightarrow> string \<Rightarrow> nat" where
  "countWords T text = length (FieldsFunc text (word_separator T))"

definition countNonSpace :: "string \<Rightarrow> nat" where
  "countNonSpace text = length (filter (\<lambda>ch. \<not> IsSpace (fst ch)) (runes text))"

definition countPunctuation :: "unicode_tables \<Rightarrow> string \<Rightarrow> nat" where
  "countPunctuation T text =
     length (filter (\<lambda>ch. IsPunct T (fst ch) \<or> IsSymbol T (fst ch)) (runes text))"

definition ceil_div :: "nat \<Rightarrow> nat \<Rightarrow> nat" where
  "ceil_div n k = (n + k - 1) div k"

definition Estimate :: "unicode_tables \<Rightarrow> string \<Rightarrow> count" where
  "Estimate T text =
     (if text = [] then zero_count\<lparr>ct_Method := MethodEstimated\<rparr>
      else
        let rs = length (runes text);
            words = countWords T text;
            nonSpace = countNonSpace text;
            punctuation = countPunctuation T text;
            byChars = ceil_div nonSpace 4;
            tokens = max (words + punctuation) byChars;
            tokens = max tokens (ceil_div rs 8)
        in \<lparr>ct_Tokens = int tokens, ct_Exact = False, ct_Method = MethodEstimated\<rparr>)"

section \<open>The registry of exact counters\<close>

text \<open>The receiver is a pointer: \<open>None\<close> is the nil \<open>CounterSet\<close>.\<close>

definition NewCounterSet :: "counter_set option" where
  "NewCounterSet = Some (\<lambda>_. None)"

definition RegisterExact ::
  "counter_set option \<Rightarrow> string \<Rightarrow> string \<Rightarrow> counter option \<Rightarrow> counter_set option" where
  "RegisterExact s provider model counter =
     (case (s, counter) of
        (Some exact, Some c) \<Rightarrow>
          Some (exact(\<lparr>pm_Provider = provider, pm_Model = model\<rparr> := Some c))
      | _ \<Rightarrow> s)"

definition Count ::
  "unicode_tables \<Rightarrow> counter_set option \<Rightarrow> provider_model \<Rightarrow> string \<Rightarrow> error + count" where
  "Count T s pm text =
     (case s of
        None \<Rightarrow> Inr (Estimate T text)
      | Some exact \<Rightarrow>
          (case exact pm of
             None \<Rightarrow> Inr (Estimate T text)
           | Some counter \<Rightarrow>
               (case counter text of
                  Inl err \<Rightarrow> Inl err
                | Inr c \<Rightarrow>
                    let c = c\<lparr>ct_Exact := True\<rparr>
                    in Inr (if ct_Method c = []
                            then c\<lparr>ct_Method := pm_Provider pm @ ''/'' @ pm_Model pm\<rparr>
                            else c))))"

definition Savings ::
  "unicode_tables \<Rightarrow> counter_set option \<Rightarrow> provider_model \<Rightarrow> string \<Rightarrow> string \<Rightarrow> error + savings"
where
  "Savings T s pm original proposed =
     (case Count T s pm original of
        Inl err \<Rightarrow> Inl err
      | Inr originalCount \<Rightarrow>
          (case Count T s pm proposed of
             Inl err \<Rightarrow> Inl err
           | Inr proposedCount \<Rightarrow>
               let delta = wrap64 (ct_Tokens originalCount - ct_Tokens proposedCount)
               in Inr \<lparr>sv_Original = originalCount, sv_Proposed = proposedCount,
                       sv_Delta = delta, sv_Improved = 0 < delta\<rparr>))"

section \<open>Bounds of the estimate\<close>

lemma length_fields_acc:
  "length (fields_acc f chs cur) \<le>
     (if cur = [] then 0 else 1) + length (filter (\<lambda>ch. \<not> f (fst ch)) chs)"
proof (induction f chs cur rule: fields_acc.induct)
  case (2 f r bs chs cur)
  then show ?case by (cases "f r"; cases "cur = []") (auto split: if_splits)
qed simp

lemma countWords_le:
  "countWords T text \<le> length (filter (\<lambda>ch. \<not> word_separator T (fst ch)) (runes text))"
  unfolding countWords_def FieldsFunc_def
  using length_fields_acc [of "word_separator T" "runes text" "[]"] by simp

lemma countPunctuation_le:
  "countPunctuation T text \<le> length (filter (\<lambda>ch. word_separator T (fst ch)) (runes text))"
  unfolding countPunctuation_def word_separator_def
  by (rule length_filter_mono) auto

lemma words_and_punctuation_le:
  "countWords T text + countPunctuation T text \<le> length (runes text)"
  using countWords_le [of T "text"] countPunctuation_le [of T "text"]
    sum_length_filter_compl [of "\<lambda>ch. word_separator T (fst ch)" "runes text"]
  by linarith

lemma length_runes_le: "length (runes s) \<le> length s"
proof (induction s rule: runes.induct)
  case (1 s)
  show ?case
  proof (cases "s = []")
    case False
    then have w: "1 \<le> snd (DecodeRune s)" "snd (DecodeRune s) \<le> length s"
      using DecodeRune_width by blast+
    from False 1 [of "DecodeRune s" "fst (DecodeRune s)" "snd (DecodeRune s)"]
    have "length (runes (drop (snd (DecodeRune s)) s)) \<le> length s - snd (DecodeRune s)"
      by simp
    then show ?thesis using w by (simp add: runes_step [OF False])
  qed simp
qed

lemma ceil_div_le: "0 < k \<Longrightarrow> ceil_div n k \<le> n"
proof -
  assume k: "0 < k"
  then have "n \<le> n * k" by simp
  with k have "n + k - 1 < Suc n * k" unfolding mult_Suc by linarith
  with k have "(n + k - 1) div k < Suc n" by (simp only: div_less_iff_less_mult)
  then show ?thesis by (simp add: ceil_div_def)
qed

lemma Estimate_empty: "ct_Tokens (Estimate T []) = 0"
  by (simp add: Estimate_def zero_count_def)

lemma Estimate_pos: "text \<noteq> [] \<Longrightarrow> 1 \<le> ct_Tokens (Estimate T text)"
proof -
  assume t: "text \<noteq> []"
  then have "1 \<le> ceil_div (length (runes text)) 8"
    by (cases "runes text") (simp_all add: ceil_div_def div_le_mono Suc_le_eq)
  then show ?thesis using t by (simp add: Estimate_def Let_def)
qed

lemma Estimate_le_runes: "ct_Tokens (Estimate T text) \<le> int (length (runes text))"
proof -
  have "countNonSpace text \<le> length (runes text)"
    unfolding countNonSpace_def by simp
  then show ?thesis
    using words_and_punctuation_le [of T "text"] ceil_div_le [of 4 "countNonSpace text"]
      ceil_div_le [of 8 "length (runes text)"]
    by (simp add: Estimate_def Let_def zero_count_def)
qed

section \<open>The contract of a counter\<close>

text \<open>
  What the savings computation needs of a counter: on the texts that can occur, a count that
  is neither negative nor beyond the 64-bit range. Then the difference cannot wrap around.
\<close>

locale sane_counter =
  fixes tokens_of :: "string \<Rightarrow> int" and occurs :: "string \<Rightarrow> bool"
  assumes tokens_nonneg: "occurs s \<Longrightarrow> 0 \<le> tokens_of s"
    and tokens_in_range: "occurs s \<Longrightarrow> in_int64 (tokens_of s)"
begin

lemma delta_exact:
  "occurs s \<Longrightarrow> occurs t \<Longrightarrow> wrap64 (tokens_of s - tokens_of t) = tokens_of s - tokens_of t"
  by (intro wrap64_diff_nonneg tokens_nonneg tokens_in_range)

lemma improved_iff:
  "occurs s \<Longrightarrow> occurs t \<Longrightarrow> 0 < wrap64 (tokens_of s - tokens_of t) \<longleftrightarrow> tokens_of t < tokens_of s"
  by (simp add: delta_exact)

end

text \<open>A Go string is shorter than \<open>2 ^ 63\<close> bytes; on those the estimator meets the contract.\<close>

definition go_string :: "string \<Rightarrow> bool" where
  "go_string s \<longleftrightarrow> int (length s) < 2 ^ 63"

interpretation estimator: sane_counter "\<lambda>s. ct_Tokens (Estimate T s)" go_string for T
proof unfold_locales
  fix s assume s: "go_string s"
  show "0 \<le> ct_Tokens (Estimate T s)"
    using Estimate_pos [of s T] Estimate_empty [of T] by (cases "s = []") auto
  moreover have "ct_Tokens (Estimate T s) \<le> int (length s)"
    using Estimate_le_runes [of T s] length_runes_le [of s] by linarith
  ultimately show "in_int64 (ct_Tokens (Estimate T s))"
    using s by (simp add: in_int64_def go_string_def)
qed

section \<open>Counting and savings\<close>

lemma Count_registered:
  "Count T (RegisterExact (Some exact) p m (Some c)) \<lparr>pm_Provider = p, pm_Model = m\<rparr> text =
     (case c text of Inl e \<Rightarrow> Inl e
      | Inr k \<Rightarrow> Inr (k\<lparr>ct_Exact := True,
          ct_Method := (if ct_Method k = [] then p @ ''/'' @ m else ct_Method k)\<rparr>))"
  by (simp add: Count_def RegisterExact_def Let_def split: sum.split)

lemma Count_other:
  "pm \<noteq> \<lparr>pm_Provider = p, pm_Model = m\<rparr> \<Longrightarrow>
     Count T (RegisterExact s p m c) pm text = Count T s pm text"
  by (auto simp: Count_def RegisterExact_def split: option.splits)

lemma Count_estimated: "s = None \<or> s = NewCounterSet \<Longrightarrow> Count T s pm text = Inr (Estimate T text)"
  by (auto simp: Count_def NewCounterSet_def)

lemma Savings_Inr:
  "Savings T s pm a b = Inr sv \<Longrightarrow>
     Count T s pm a = Inr (sv_Original sv) \<and> Count T s pm b = Inr (sv_Proposed sv) \<and>
     sv_Delta sv = wrap64 (ct_Tokens (sv_Original sv) - ct_Tokens (sv_Proposed sv)) \<and>
     (sv_Improved sv \<longleftrightarrow> 0 < sv_Delta sv)"
  by (auto simp: Savings_def Let_def split: sum.splits)

lemma Savings_estimated:
  "s = None \<or> s = NewCounterSet \<Longrightarrow> \<exists>sv. Savings T s pm a b = Inr sv"
  by (auto simp: Savings_def Count_estimated Let_def)

section \<open>Properties\<close>

text \<open>C31. The estimate is zero exactly on the empty text and never exceeds the number of
  runes, nor the number of bytes, of the text; it is never called exact.\<close>

theorem Estimate_bounds:
  "(ct_Tokens (Estimate T text) = 0 \<longleftrightarrow> text = []) \<and> 0 \<le> ct_Tokens (Estimate T text) \<and>
   ct_Tokens (Estimate T text) \<le> int (length (runes text)) \<and>
   ct_Tokens (Estimate T text) \<le> int (length text) \<and>
   \<not> ct_Exact (Estimate T text) \<and> ct_Method (Estimate T text) = MethodEstimated"
proof -
  have "ct_Tokens (Estimate T text) \<le> int (length (runes text))" by (rule Estimate_le_runes)
  moreover have "int (length (runes text)) \<le> int (length text)" by (simp add: length_runes_le)
  moreover have "\<not> ct_Exact (Estimate T text) \<and> ct_Method (Estimate T text) = MethodEstimated"
    by (simp add: Estimate_def Let_def zero_count_def)
  ultimately show ?thesis
    using Estimate_pos [of "text" T] Estimate_empty [of T] by (cases "text = []") auto
qed

text \<open>The registry: after \<open>RegisterExact\<close> the provider and model registered count with the
  given counter, marked exact and labelled with provider and model when it has no label; its
  error is passed on; every other provider and model counts as before.\<close>

theorem RegisterExact_Count:
  "Count T (RegisterExact (Some exact) p m (Some c)) pm text =
     (if pm = \<lparr>pm_Provider = p, pm_Model = m\<rparr>
      then (case c text of Inl e \<Rightarrow> Inl e
            | Inr k \<Rightarrow> Inr (k\<lparr>ct_Exact := True,
                ct_Method := (if ct_Method k = [] then p @ ''/'' @ m else ct_Method k)\<rparr>))
      else Count T (Some exact) pm text)"
  using Count_registered [of T exact p m c "text"] Count_other [of pm p m T "Some exact" "Some c" "text"]
  by simp

text \<open>With no exact counter registered, \<open>Savings\<close> cannot fail, its delta is the difference
  of the estimates without wrap-around, and it reports an improvement exactly when the proposed
  text has the smaller estimate.\<close>

lemma Savings_estimates:
  assumes "go_string original" and "go_string proposed"
  shows "Savings T NewCounterSet pm original proposed =
    Inr \<lparr>sv_Original = Estimate T original, sv_Proposed = Estimate T proposed,
         sv_Delta = ct_Tokens (Estimate T original) - ct_Tokens (Estimate T proposed),
         sv_Improved = (ct_Tokens (Estimate T proposed) < ct_Tokens (Estimate T original))\<rparr>"
  using estimator.delta_exact [OF assms, of T]
  by (simp add: Savings_def Count_estimated Let_def)

end
