(* ===== verification/Go_Json_Scan.thy ===== *)
theory Go_Json_Scan
  imports Go_Unicode
begin

text \<open>
  The scanner of Go's \<open>encoding/json\<close>: a push-down automaton that reads one byte at a time.
  The program reaches it through \<open>json.Valid\<close> (content classification), \<open>json.Compact\<close> (the
  JSON compressor) and, as the first pass, every \<open>json.Unmarshal\<close>. The states are those of
  \<open>scanner.go\<close>; the parse stack has its top first, and a step says whether \<open>Compact\<close> keeps
  the byte, drops it as white space, or stops on a syntax error.
\<close>

datatype parse_state = ParseObjectKey | ParseObjectValue | ParseArrayValue

datatype scan_state =
    BeginValue | BeginValueOrEmpty | BeginStringOrEmpty | BeginString
  | EndValue | EndTop | InString | InStringEsc | InStringEscU nat
  | Neg | Num1 | Num0 | Dot | Dot0 | ExpE | ExpESign | ExpE0
  | Literal string | ScanStop

datatype scan_op = KeepByte | DropSpace | ScanError

type_synonym scanner = "scan_state \<times> parse_state list"

definition json_space :: "char \<Rightarrow> bool" where
  "json_space c \<longleftrightarrow> c = CHR '' '' \<or> c = TAB \<or> c = CR \<or> c = NL"

definition is_hex :: "char \<Rightarrow> bool" where
  "is_hex c \<longleftrightarrow> is_digit c \<or> (97 \<le> byte c \<and> byte c \<le> 102) \<or> (65 \<le> byte c \<and> byte c \<le> 70)"

definition max_nesting :: nat where
  "max_nesting = 10000"

definition scan_error :: "scanner \<times> scan_op" where
  "scan_error = ((ScanStop, []), ScanError)"

definition keep :: "scan_state \<Rightarrow> parse_state list \<Rightarrow> scanner \<times> scan_op" where
  "keep st stk = ((st, stk), KeepByte)"

definition push_state :: "scan_state \<Rightarrow> parse_state \<Rightarrow> parse_state list \<Rightarrow> scanner \<times> scan_op" where
  "push_state st p stk = (if length stk < max_nesting then keep st (p # stk) else scan_error)"

definition pop_state :: "parse_state list \<Rightarrow> scanner \<times> scan_op" where
  "pop_state stk = keep (if stk = [] then EndTop else EndValue) stk"

fun end_value :: "parse_state list \<Rightarrow> char \<Rightarrow> scanner \<times> scan_op" where
  "end_value [] c = (if json_space c then ((EndTop, []), DropSpace) else scan_error)"
| "end_value (p # stk) c =
     (if json_space c then ((EndValue, p # stk), DropSpace)
      else case p of
        ParseObjectKey \<Rightarrow>
          if c = CHR '':'' then keep BeginValue (ParseObjectValue # stk) else scan_error
      | ParseObjectValue \<Rightarrow>
          if c = CHR '','' then keep BeginString (ParseObjectKey # stk)
          else if c = CHR ''}'' then pop_state stk else scan_error
      | ParseArrayValue \<Rightarrow>
          if c = CHR '','' then keep BeginValue (ParseArrayValue # stk)
          else if c = CHR '']'' then pop_state stk else scan_error)"

definition begin_value :: "parse_state list \<Rightarrow> char \<Rightarrow> scanner \<times> scan_op" where
  "begin_value stk c =
     (if c = CHR ''{'' then push_state BeginStringOrEmpty ParseObjectKey stk
      else if c = CHR ''['' then push_state BeginValueOrEmpty ParseArrayValue stk
      else if c = QUOTE then keep InString stk
      else if c = CHR ''-'' then keep Neg stk
      else if c = CHR ''0'' then keep Num0 stk
      else if c = CHR ''t'' then keep (Literal ''rue'') stk
      else if c = CHR ''f'' then keep (Literal ''alse'') stk
      else if c = CHR ''n'' then keep (Literal ''ull'') stk
      else if is_digit c then keep Num1 stk
      else scan_error)"

definition begin_string :: "parse_state list \<Rightarrow> char \<Rightarrow> scanner \<times> scan_op" where
  "begin_string stk c = (if c = QUOTE then keep InString stk else scan_error)"

definition num0 :: "parse_state list \<Rightarrow> char \<Rightarrow> scanner \<times> scan_op" where
  "num0 stk c =
     (if c = CHR ''.'' then keep Dot stk
      else if c = CHR ''e'' \<or> c = CHR ''E'' then keep ExpE stk
      else end_value stk c)"

fun scan_step :: "scanner \<Rightarrow> char \<Rightarrow> scanner \<times> scan_op" where
  "scan_step (BeginValue, stk) c =
     (if json_space c then ((BeginValue, stk), DropSpace) else begin_value stk c)"
| "scan_step (BeginValueOrEmpty, stk) c =
     (if json_space c then ((BeginValueOrEmpty, stk), DropSpace)
      else if c = CHR '']'' then end_value stk c else begin_value stk c)"
| "scan_step (BeginStringOrEmpty, stk) c =
     (if json_space c then ((BeginStringOrEmpty, stk), DropSpace)
      else if c = CHR ''}'' then end_value (ParseObjectValue # tl stk) c else begin_string stk c)"
| "scan_step (BeginString, stk) c =
     (if json_space c then ((BeginString, stk), DropSpace) else begin_string stk c)"
| "scan_step (EndValue, stk) c = end_value stk c"
| "scan_step (EndTop, stk) c =
     (if json_space c then ((EndTop, stk), DropSpace) else scan_error)"
| "scan_step (InString, stk) c =
     (if c = QUOTE then keep EndValue stk
      else if c = BACKSLASH then keep InStringEsc stk
      else if byte c < 32 then scan_error else keep InString stk)"
| "scan_step (InStringEsc, stk) c =
     (if c \<in> set ''bfnrt/'' \<or> c = BACKSLASH \<or> c = QUOTE then keep InString stk
      else if c = CHR ''u'' then keep (InStringEscU 3) stk else scan_error)"
| "scan_step (InStringEscU n, stk) c =
     (if is_hex c then keep (if n = 0 then InString else InStringEscU (n - 1)) stk
      else scan_error)"
| "scan_step (Neg, stk) c =
     (if c = CHR ''0'' then keep Num0 stk else if is_digit c then keep Num1 stk else scan_error)"
| "scan_step (Num1, stk) c = (if is_digit c then keep Num1 stk else num0 stk c)"
| "scan_step (Num0, stk) c = num0 stk c"
| "scan_step (Dot, stk) c = (if is_digit c then keep Dot0 stk else scan_error)"
| "scan_step (Dot0, stk) c =
     (if is_digit c then keep Dot0 stk
      else if c = CHR ''e'' \<or> c = CHR ''E'' then keep ExpE stk
      else end_value stk c)"
| "scan_step (ExpE, stk) c =
     (if c = CHR ''+'' \<or> c = CHR ''-'' then keep ExpESign stk
      else if is_digit c then keep ExpE0 stk else scan_error)"
| "scan_step (ExpESign, stk) c = (if is_digit c then keep ExpE0 stk else scan_error)"
| "scan_step (ExpE0, stk) c = (if is_digit c then keep ExpE0 stk else end_value stk c)"
| "scan_step (Literal [], stk) c = scan_error"
| "scan_step (Literal (x # xs), stk) c =
     (if c = x then keep (if xs = [] then EndValue else Literal xs) stk else scan_error)"
| "scan_step (ScanStop, stk) c = scan_error"

text \<open>\<open>scanner.eof\<close>: the value is complete, or one space completes it (a top-level number).\<close>

definition scan_eof :: "scanner \<Rightarrow> bool" where
  "scan_eof sc \<longleftrightarrow> fst sc = EndTop \<or> fst (fst (scan_step sc (CHR '' ''))) = EndTop"

text \<open>\<open>json.Compact\<close> with HTML escaping off, and \<open>json.Valid\<close> (\<open>checkValid\<close>).\<close>

fun compact_from :: "scanner \<Rightarrow> string \<Rightarrow> string option" where
  "compact_from sc [] = (if scan_eof sc then Some [] else None)"
| "compact_from sc (c # cs) =
     (case scan_step sc c of
        (sc', KeepByte) \<Rightarrow> map_option ((#) c) (compact_from sc' cs)
      | (sc', DropSpace) \<Rightarrow> compact_from sc' cs
      | (sc', ScanError) \<Rightarrow> None)"

definition scan_init :: scanner where
  "scan_init = (BeginValue, [])"

definition json_Compact :: "string \<Rightarrow> string option" where
  "json_Compact src = compact_from scan_init src"

definition json_Valid :: "string \<Rightarrow> bool" where
  "json_Valid data \<longleftrightarrow> compact_from scan_init data \<noteq> None"

lemmas scan_result_defs = keep_def scan_error_def push_state_def pop_state_def

section \<open>Compacted text scans like the original\<close>

text \<open>
  Dropping a space leaves the scanner at the end of a value (possibly still inside a number)
  where the original has moved on; the states then agree on every byte that can follow.
\<close>

definition value_end :: "scan_state \<Rightarrow> bool" where
  "value_end st \<longleftrightarrow> st \<in> {Num1, Num0, Dot0, ExpE0, EndValue}"

definition lags :: "scanner \<Rightarrow> scanner \<Rightarrow> bool" where
  "lags sc sc' \<longleftrightarrow> sc' = sc \<or>
     (snd sc' = snd sc \<and> value_end (fst sc') \<and>
      (fst sc = EndValue \<and> snd sc \<noteq> [] \<or> fst sc = EndTop \<and> snd sc = []))"

lemma json_space_not_digit: "json_space c \<Longrightarrow> \<not> is_digit c \<and> c \<notin> {CHR ''.'', CHR ''e'', CHR ''E''}"
  by (auto simp: json_space_def is_digit_def)

lemma end_value_keep_char:
  "end_value stk c = (sc, KeepByte) \<Longrightarrow> c \<in> {CHR '':'', CHR '','', CHR ''}'', CHR '']''}"
  by (cases stk) (auto simp: scan_result_defs split: if_splits parse_state.splits)

lemma value_end_step:
  "value_end st \<Longrightarrow> \<not> is_digit c \<Longrightarrow> c \<notin> {CHR ''.'', CHR ''e'', CHR ''E''} \<Longrightarrow>
     scan_step (st, stk) c = end_value stk c"
  by (auto simp: value_end_def num0_def)

lemma end_value_space:
  "json_space c \<Longrightarrow> end_value stk c = ((if stk = [] then EndTop else EndValue, stk), DropSpace)"
  by (cases stk) auto

lemma step_drop_space:
  assumes "scan_step (st, stk) c = (sc, DropSpace)"
  shows "json_space c \<and> lags sc (st, stk)"
proof -
  have end_drop: "end_value stk' c' = (sc, DropSpace) \<Longrightarrow>
      json_space c' \<and> sc = (if stk' = [] then EndTop else EndValue, stk')" for stk' c'
    by (cases stk') (auto simp: scan_result_defs split: if_splits parse_state.splits)
  show ?thesis
    using assms
    by (cases "((st, stk), c)" rule: scan_step.cases)
      (auto simp: lags_def value_end_def num0_def begin_value_def begin_string_def
          scan_result_defs json_space_def is_digit_def dest!: end_drop split: if_splits)
qed

lemma lags_eof: "lags sc sc' \<Longrightarrow> scan_eof sc \<Longrightarrow> scan_eof sc'"
  by (cases sc'; cases sc)
    (auto simp: lags_def scan_eof_def value_end_step end_value_space json_space_def
        is_digit_def)

lemma lags_keep:
  assumes "lags sc sc'" and "scan_step sc c = (sc1, KeepByte)"
  shows "scan_step sc' c = (sc1, KeepByte)"
proof (cases "sc' = sc")
  case False
  then obtain st stk st' where sc: "sc = (st, stk)" "sc' = (st', stk)" and n: "value_end st'"
    and st: "st = EndValue \<and> stk \<noteq> [] \<or> st = EndTop \<and> stk = []"
    using assms(1) by (cases sc; cases sc') (auto simp: lags_def)
  with assms(2) have e: "end_value stk c = (sc1, KeepByte)"
    by (auto simp: scan_result_defs split: if_splits)
  from end_value_keep_char [OF this]
  have "\<not> is_digit c" "c \<notin> {CHR ''.'', CHR ''e'', CHR ''E''}" by (auto simp: is_digit_def)
  then show ?thesis using value_end_step [OF n, of c stk] e sc by simp
qed (use assms in simp)

lemma lags_drop:
  assumes "lags sc sc'" and "scan_step sc c = (sc1, DropSpace)"
  shows "lags sc1 sc'"
proof (cases "sc' = sc")
  case True
  then show ?thesis using step_drop_space [of "fst sc" "snd sc"] assms(2) by simp
next
  case False
  then have "sc1 = sc"
    using assms step_drop_space [of "fst sc" "snd sc" c sc1]
    by (cases sc) (auto simp: lags_def end_value_space split: if_splits)
  then show ?thesis using assms(1) by simp
qed

lemma compact_from_lags:
  "compact_from sc s = Some t \<Longrightarrow> lags sc sc' \<Longrightarrow> compact_from sc' t = Some t"
proof (induction sc s arbitrary: sc' t rule: compact_from.induct)
  case (1 sc)
  then show ?case by (auto dest: lags_eof split: if_splits)
next
  case (2 sc c cs)
  obtain sc1 op where step: "scan_step sc c = (sc1, op)" by (cases "scan_step sc c")
  show ?case
  proof (cases op)
    case KeepByte
    with 2 (3) step obtain t1 where t1: "compact_from sc1 cs = Some t1" "t = c # t1" by auto
    have "compact_from sc1 t1 = Some t1"
      by (rule "2.IH" (1) [OF step [symmetric] KeepByte t1(1)]) (simp add: lags_def)
    then show ?thesis
      using lags_keep [OF 2 (4)] step KeepByte t1 by simp
  next
    case DropSpace
    with 2 (3) step have "compact_from sc1 cs = Some t" by simp
    then show ?thesis
      using "2.IH" (2) [OF step [symmetric] DropSpace] lags_drop [OF 2 (4)] step DropSpace by blast
  next
    case ScanError
    with 2 (3) step show ?thesis by simp
  qed
qed

lemma json_Compact_fixpoint: "json_Compact s = Some t \<Longrightarrow> json_Compact t = Some t"
  using compact_from_lags [of scan_init s t scan_init] by (simp add: json_Compact_def lags_def)

lemma json_Compact_iff_Valid: "json_Valid s \<longleftrightarrow> (\<exists>t. json_Compact s = Some t)"
  by (auto simp: json_Valid_def json_Compact_def)

text \<open>Compaction deletes white space only: what is left is the original without some spaces.\<close>

lemma compact_from_filter:
  "compact_from sc s = Some t \<Longrightarrow>
     filter (\<lambda>c. \<not> json_space c) t = filter (\<lambda>c. \<not> json_space c) s \<and> length t \<le> length s"
proof (induction sc s arbitrary: t rule: compact_from.induct)
  case (2 sc c cs)
  obtain sc1 op where step: "scan_step sc c = (sc1, op)" by (cases "scan_step sc c")
  then have "op = DropSpace \<Longrightarrow> json_space c"
    using step_drop_space [of "fst sc" "snd sc" c sc1] by simp
  with 2 step show ?case by (cases op) (fastforce)+
qed (auto split: if_splits)

lemma ValidString_delete:
  "ValidString (pre @ c # s) \<Longrightarrow> byte c < 128 \<Longrightarrow> ValidString (pre @ s)"
  using ValidString_ascii_mid [of "[c]" pre s] by (simp add: ValidString_append)

lemma compact_from_ValidString:
  "compact_from sc s = Some t \<Longrightarrow> ValidString (pre @ s) \<Longrightarrow> ValidString (pre @ t)"
proof (induction sc s arbitrary: t pre rule: compact_from.induct)
  case (2 sc c cs)
  obtain sc1 op where step: "scan_step sc c = (sc1, op)" by (cases "scan_step sc c")
  show ?case
  proof (cases op)
    case KeepByte
    with 2 (3) step obtain t1 where "compact_from sc1 cs = Some t1" "t = c # t1" by auto
    then show ?thesis
      using "2.IH" (1) [OF step [symmetric] KeepByte, of t1 "pre @ [c]"] 2 (4) by simp
  next
    case DropSpace
    then have "json_space c" using step step_drop_space [of "fst sc" "snd sc" c sc1] by simp
    then have "byte c < 128" by (auto simp: json_space_def)
    then have "ValidString (pre @ cs)" using 2 (4) ValidString_delete by blast
    then show ?thesis
      using "2.IH" (2) [OF step [symmetric] DropSpace] 2 (3) step DropSpace by simp
  next
    case ScanError
    with 2 (3) step show ?thesis by simp
  qed
qed (auto split: if_splits)

text \<open>Evaluation without rewriting under a binder.\<close>

lemma compact_from_eval:
  "compact_from sc (c # cs) =
     (if snd (scan_step sc c) = KeepByte
      then map_option ((#) c) (compact_from (fst (scan_step sc c)) cs)
      else if snd (scan_step sc c) = DropSpace then compact_from (fst (scan_step sc c)) cs
      else None)"
  by (simp split: prod.split scan_op.split)

declare compact_from.simps(2) [simp del]

lemmas json_scan_eval [go_eval] = compact_from_eval json_Compact_def json_Valid_def scan_init_def scan_eof_def
  json_space_def is_hex_def max_nesting_def begin_value_def begin_string_def num0_def
  keep_def scan_error_def push_state_def pop_state_def

section \<open>Which bytes are dropped\<close>

text \<open>
  White space outside of string literals, told without the scanner: three positions of a text, where a quote
  opens or closes a literal and a backslash keeps the next byte from doing so.
\<close>

datatype string_pos = OutsideString | InsideString | AfterBackslash

fun json_strip :: "string_pos \<Rightarrow> string \<Rightarrow> string" where
  "json_strip pos [] = []"
| "json_strip OutsideString (c # cs) =
     (if json_space c then json_strip OutsideString cs
      else c # json_strip (if c = QUOTE then InsideString else OutsideString) cs)"
| "json_strip InsideString (c # cs) =
     c # json_strip (if c = QUOTE then OutsideString else if c = BACKSLASH then AfterBackslash else InsideString) cs"
| "json_strip AfterBackslash (c # cs) = c # json_strip InsideString cs"

fun string_pos_of :: "scan_state \<Rightarrow> string_pos" where
  "string_pos_of InString = InsideString"
| "string_pos_of (InStringEscU n) = InsideString"
| "string_pos_of InStringEsc = AfterBackslash"
| "string_pos_of _ = OutsideString"

text \<open>What is left of a literal such as \<open>true\<close> has neither quotes nor white space.\<close>

fun plain_literal :: "scan_state \<Rightarrow> bool" where
  "plain_literal (Literal xs) \<longleftrightarrow> list_all (\<lambda>c. c \<noteq> QUOTE \<and> \<not> json_space c) xs"
| "plain_literal _ \<longleftrightarrow> True"

lemma not_json_space [simp]:
  "\<not> json_space QUOTE" "\<not> json_space BACKSLASH" "\<not> json_space (CHR ''{'')" "\<not> json_space (CHR ''['')"
  "\<not> json_space (CHR ''-'')" "\<not> json_space (CHR ''+'')" "\<not> json_space (CHR ''.'')" "\<not> json_space (CHR ''0'')"
  "\<not> json_space (CHR ''t'')" "\<not> json_space (CHR ''r'')" "\<not> json_space (CHR ''u'')" "\<not> json_space (CHR ''e'')"
  "\<not> json_space (CHR ''f'')" "\<not> json_space (CHR ''a'')" "\<not> json_space (CHR ''l'')" "\<not> json_space (CHR ''s'')"
  "\<not> json_space (CHR ''n'')" "\<not> json_space (CHR ''E'')" "\<not> json_space (CHR '':'')" "\<not> json_space (CHR '','')"
  "\<not> json_space (CHR ''}'')" "\<not> json_space (CHR '']'')"
  by (simp_all add: json_space_def)

lemma is_digit_outside: "is_digit c \<Longrightarrow> \<not> json_space c \<and> c \<noteq> QUOTE"
  by (auto simp: json_space_def is_digit_def)

lemma is_hex_inside: "is_hex c \<Longrightarrow> c \<noteq> QUOTE \<and> c \<noteq> BACKSLASH"
  by (auto simp: is_hex_def is_digit_def)

text \<open>What a step outside of a string literal may be.\<close>

definition outside_step :: "char \<Rightarrow> scanner \<times> scan_op \<Rightarrow> bool" where
  "outside_step c r \<longleftrightarrow> snd r \<noteq> ScanError \<longrightarrow> plain_literal (fst (fst r)) \<and> (snd r = DropSpace \<longleftrightarrow> json_space c) \<and>
     string_pos_of (fst (fst r)) = (if c = QUOTE then InsideString else OutsideString)"

lemma outside_step_error [simp]: "outside_step c scan_error"
  by (simp add: outside_step_def scan_error_def)

lemma outside_step_keep [simp]:
  "outside_step c (keep st stk) \<longleftrightarrow> plain_literal st \<and> \<not> json_space c \<and>
     string_pos_of st = (if c = QUOTE then InsideString else OutsideString)"
  by (auto simp: outside_step_def keep_def)

lemma outside_step_drop: "json_space c \<Longrightarrow> outside_step c ((st, stk), DropSpace) \<longleftrightarrow> plain_literal st \<and> string_pos_of st = OutsideString"
  using not_json_space(1) by (auto simp: outside_step_def)

lemma outside_step_pop [simp]: "outside_step c (pop_state stk) \<longleftrightarrow> \<not> json_space c \<and> c \<noteq> QUOTE"
  by (simp add: pop_state_def)

lemma outside_step_push [simp]:
  "plain_literal st \<Longrightarrow> string_pos_of st = OutsideString \<Longrightarrow> \<not> json_space c \<Longrightarrow> c \<noteq> QUOTE \<Longrightarrow> outside_step c (push_state st p stk)"
  by (simp add: push_state_def)

lemma outside_end_value: "outside_step c (end_value stk c)"
  by (cases stk) (simp_all add: outside_step_drop split: parse_state.split)

lemma outside_begin_value: "outside_step c (begin_value stk c)"
  using is_digit_outside [of c] by (simp add: begin_value_def)

lemma outside_begin_string: "outside_step c (begin_string stk c)"
  by (simp add: begin_string_def)

lemma outside_num0: "outside_step c (num0 stk c)"
  using outside_end_value [of c stk] by (simp add: num0_def)

lemma scan_step_outside:
  assumes "string_pos_of st = OutsideString" and "plain_literal st"
  shows "outside_step c (scan_step (st, stk) c)"
proof (cases st)
  case (Literal xs)
  then show ?thesis using assms(2) by (cases xs) auto
qed (use assms(1) is_digit_outside [of c]
     in \<open>simp_all add: outside_step_drop outside_end_value outside_begin_value outside_begin_string outside_num0\<close>)

lemma scan_step_pos:
  assumes "scan_step (st, stk) c = (sc, op)" and "op \<noteq> ScanError" and "plain_literal st"
  shows "plain_literal (fst sc) \<and>
    json_strip (string_pos_of st) (c # cs) =
      (if op = DropSpace then json_strip (string_pos_of (fst sc)) cs else c # json_strip (string_pos_of (fst sc)) cs)"
proof (cases "string_pos_of st")
  case OutsideString
  then have "outside_step c (sc, op)" using scan_step_outside [OF _ assms(3), of c stk] assms(1) by simp
  then show ?thesis using assms(2) not_json_space(1) by (auto simp: OutsideString outside_step_def)
next
  case InsideString
  then consider "st = InString" | n where "st = InStringEscU n" by (cases st) auto
  then show ?thesis
    using assms(1,2) is_hex_inside [of c] by cases (auto simp: keep_def scan_error_def split: if_splits)
next
  case AfterBackslash
  then have "st = InStringEsc" by (cases st) auto
  then show ?thesis
    using assms(1,2) by (auto simp: keep_def scan_error_def split: if_splits)
qed

lemma compact_from_strip:
  "compact_from sc s = Some w \<Longrightarrow> plain_literal (fst sc) \<Longrightarrow> w = json_strip (string_pos_of (fst sc)) s"
proof (induction sc s arbitrary: w rule: compact_from.induct)
  case (1 sc)
  then show ?case by (simp split: if_splits)
next
  case (2 sc c cs)
  obtain sc' op where st: "scan_step sc c = (sc', op)" by (cases "scan_step sc c")
  note p = scan_step_pos [of "fst sc" "snd sc" c sc' op cs, unfolded prod.collapse, OF st]
  show ?case
  proof (cases op)
    case KeepByte
    then obtain v where "compact_from sc' cs = Some v" "w = c # v"
      using "2.prems"(1) by (auto simp: compact_from.simps st)
    then show ?thesis using "2.IH"(1) [OF st [symmetric]] p "2.prems"(2) KeepByte by simp
  next
    case DropSpace
    then have "compact_from sc' cs = Some w" using "2.prems"(1) by (simp add: compact_from.simps st)
    then show ?thesis using "2.IH"(2) [OF st [symmetric]] p "2.prems"(2) DropSpace by simp
  next
    case ScanError
    then show ?thesis using "2.prems"(1) by (simp add: compact_from.simps st)
  qed
qed

lemma json_Compact_strip: "json_Compact s = Some w \<Longrightarrow> w = json_strip OutsideString s"
  using compact_from_strip [of scan_init s w] by (simp add: json_Compact_def scan_init_def)

end
