(* ===== verification/Blocks.thy ===== *)
theory Blocks
  imports Go_Json_Scan
begin

text \<open>
  The data of \<open>internal/compress/livezone.go\<close>: the blocks of a provider request, their
  classification by role (\<open>classifySource\<close>) and by content (\<open>ClassifyContent\<close>), and the
  construction of a block. \<open>Provider\<close>, \<open>Stability\<close>, \<open>Source\<close> and \<open>ContentType\<close> are string
  types in the code, so any string is a value of them; the constants are named as there.
\<close>

definition ProviderOpenAI :: string where [simp]: "ProviderOpenAI = ''openai''"
definition ProviderAnthropic :: string where [simp]: "ProviderAnthropic = ''anthropic''"

definition StabilityStable :: string where [simp]: "StabilityStable = ''stable''"
definition StabilityLive :: string where [simp]: "StabilityLive = ''live''"

definition SourceSystem :: string where [simp]: "SourceSystem = ''system''"
definition SourceUserMessage :: string where [simp]: "SourceUserMessage = ''user_message''"
definition SourceAssistantMessage :: string where [simp]: "SourceAssistantMessage = ''assistant_message''"
definition SourceToolResult :: string where [simp]: "SourceToolResult = ''tool_result''"

definition ContentText :: string where [simp]: "ContentText = ''text''"
definition ContentLog :: string where [simp]: "ContentLog = ''log''"
definition ContentCode :: string where [simp]: "ContentCode = ''code''"
definition ContentDiff :: string where [simp]: "ContentDiff = ''diff''"
definition ContentJSON :: string where [simp]: "ContentJSON = ''json''"

record block =
  bl_ID :: string
  bl_Provider :: string
  bl_Path :: string
  bl_Role :: string
  bl_Source :: string
  bl_Stability :: string
  bl_ContentType :: string
  bl_Text :: string
  bl_Selected :: bool

section \<open>Classification\<close>

definition classifySource :: "string \<Rightarrow> string \<times> string \<times> bool" where
  "classifySource role =
     (if role = ''system'' \<or> role = ''developer'' then (SourceSystem, StabilityStable, False)
      else if role = ''assistant'' then (SourceAssistantMessage, StabilityStable, False)
      else if role = ''tool'' then (SourceToolResult, StabilityLive, True)
      else (SourceUserMessage, StabilityStable, False))"

definition looksLikeDiff :: "string \<Rightarrow> bool" where
  "looksLikeDiff text \<longleftrightarrow>
     Contains text (NL # ''+++'') \<or> Contains text (NL # ''---'') \<or> Contains text (NL # ''@@ '') \<or>
     HasPrefix text ''diff --git''"

definition looksLikeCode :: "string \<Rightarrow> bool" where
  "looksLikeCode text \<longleftrightarrow>
     HasPrefix text [CHR 0x60, CHR 0x60, CHR 0x60] \<or> Contains text (NL # ''func '') \<or>
     Contains text (NL # ''package '') \<or> Contains text (NL # ''class '') \<or>
     Contains text (NL # ''def '')"

definition looksLikeLog :: "unicode_tables \<Rightarrow> string \<Rightarrow> bool" where
  "looksLikeLog T text \<longleftrightarrow>
     (let upper = ToUpper T text
      in Contains upper ''ERROR'' \<or> Contains upper ''WARN'' \<or>
         Contains text ''stack trace'' \<or> Contains text ''Traceback'')"

definition ClassifyContent :: "unicode_tables \<Rightarrow> string \<Rightarrow> string" where
  "ClassifyContent T text =
     (let trimmed = TrimSpace text
      in if trimmed = [] then ContentText
         else if json_Valid trimmed \<and> (HasPrefix trimmed ''{'' \<or> HasPrefix trimmed ''['')
         then ContentJSON
         else if looksLikeDiff trimmed then ContentDiff
         else if looksLikeCode trimmed then ContentCode
         else if looksLikeLog T trimmed then ContentLog
         else ContentText)"

definition newBlock :: "unicode_tables \<Rightarrow> string \<Rightarrow> string \<Rightarrow> string \<Rightarrow> string \<Rightarrow> block" where
  "newBlock T provider path role text =
     (let (source, stability, selected) = classifySource role
      in \<lparr>bl_ID = [], bl_Provider = provider, bl_Path = path, bl_Role = role,
          bl_Source = source, bl_Stability = stability,
          bl_ContentType = ClassifyContent T text, bl_Text = text, bl_Selected = selected\<rparr>)"

definition assignBlockID :: "block \<Rightarrow> nat \<Rightarrow> block" where
  "assignBlockID b index = b\<lparr>bl_ID := ''block_'' @ Itoa (int index + 1)\<rparr>"

definition assignBlockIDs :: "block list \<Rightarrow> block list" where
  "assignBlockIDs blocks = map (\<lambda>(i, b). assignBlockID b i) (enumerate 0 blocks)"

section \<open>Facts\<close>

text \<open>The live zone: the blocks the pipeline may rewrite.\<close>

definition live_zone :: "block \<Rightarrow> bool" where
  "live_zone b \<longleftrightarrow> bl_Selected b \<and> bl_Stability b = StabilityLive"

definition content_types :: "string set" where
  "content_types = {ContentText, ContentLog, ContentCode, ContentDiff, ContentJSON}"

lemma ClassifyContent_range: "ClassifyContent T text \<in> content_types"
  by (simp add: ClassifyContent_def content_types_def Let_def)

lemma newBlock_live: "live_zone (newBlock T p path role text) \<longleftrightarrow> role = ''tool''"
  by (simp add: live_zone_def newBlock_def classifySource_def)

lemma newBlock_simps [simp]:
  "bl_Text (newBlock T p path role text) = text"
  "bl_Role (newBlock T p path role text) = role"
  "bl_Path (newBlock T p path role text) = path"
  "bl_Provider (newBlock T p path role text) = p"
  by (simp_all add: newBlock_def classifySource_def)

lemma live_zone_assignBlockID [simp]: "live_zone (assignBlockID b i) = live_zone b"
  by (simp add: live_zone_def assignBlockID_def)

lemma assignBlockIDs_nth:
  "i < length bs \<Longrightarrow> assignBlockIDs bs ! i = assignBlockID (bs ! i) i"
  by (simp add: assignBlockIDs_def nth_enumerate_eq)

lemma length_assignBlockIDs [simp]: "length (assignBlockIDs bs) = length bs"
  by (simp add: assignBlockIDs_def)

lemma Itoa_inject: "0 \<le> m \<Longrightarrow> 0 \<le> n \<Longrightarrow> Itoa m = Itoa n \<longleftrightarrow> m = n"
  by (simp add: Itoa_def) linarith

lemma assignBlockIDs_distinct: "distinct (map bl_ID (assignBlockIDs bs))"
  by (simp add: distinct_conv_nth assignBlockIDs_nth assignBlockID_def Itoa_inject)

end
