(* ===== verification/Native_Compress.thy ===== *)
theory Native_Compress
  imports Blocks
begin

text \<open>
  The native compressors: \<open>internal/compress/native_text_log.go\<close> and
  \<open>native_structured.go\<close>. Repeated lines and paragraphs are collapsed to one copy and a
  marker, diffs keep their changed lines, code loses repeated lines and blank runs, JSON is
  compacted. A compressor maps a block to a proposal (\<open>compress.Proposal\<close>, whose byte slice
  is \<open>None\<close> when nil) or an error.
\<close>

record proposal =
  pr_Text :: string
  pr_Bytes :: "string option"

type_synonym compressor = "block \<Rightarrow> error + proposal"

definition text_proposal :: "string \<Rightarrow> proposal" where
  "text_proposal t = \<lparr>pr_Text = t, pr_Bytes = None\<rparr>"

section \<open>Text and logs\<close>

definition repeated_marker :: "nat \<Rightarrow> string \<Rightarrow> string" where
  "repeated_marker n label = ''[repeated '' @ Itoa (int n) @ '' '' @ label @ '' omitted]''"

text \<open>
  \<open>collapseAdjacent\<close>: the inner loop counts the items after the current one that have its
  (non-empty) key; the outer loop continues after them.
\<close>

fun collapseAdjacent :: "string list \<Rightarrow> (string \<Rightarrow> string) \<Rightarrow> string \<Rightarrow> string list" where
  "collapseAdjacent [] key label = []"
| "collapseAdjacent (item # rest) key label =
     (let same = (if key item = [] then [] else takeWhile (\<lambda>x. key x = key item) rest);
          repeats = Suc (length same)
      in item # (if 1 < repeats then [repeated_marker (repeats - 1) label] else [])
         @ collapseAdjacent (drop (length same) rest) key label)"

definition compressRepeatedLines :: "string \<Rightarrow> string" where
  "compressRepeatedLines text =
     Join (collapseAdjacent (Split text [NL]) TrimSpace ''identical log lines'') [NL]"

definition paragraph_key :: "string \<Rightarrow> string" where
  "paragraph_key paragraph = Join (Fields paragraph) '' ''"

definition compressRepeatedParagraphs :: "string \<Rightarrow> string" where
  "compressRepeatedParagraphs text =
     Join (collapseAdjacent (Split text [NL, NL]) paragraph_key ''identical text blocks'') [NL, NL]"

definition NativeTextLogCompressor :: compressor where
  "NativeTextLogCompressor b =
     (if bl_ContentType b = ContentLog then Inr (text_proposal (compressRepeatedLines (bl_Text b)))
      else if bl_ContentType b = ContentText
      then Inr (text_proposal (compressRepeatedParagraphs (bl_Text b)))
      else Inr (text_proposal (bl_Text b)))"

section \<open>Structured content\<close>

definition compactJSON :: "string \<Rightarrow> string" where
  "compactJSON text = (case json_Compact text of None \<Rightarrow> text | Some compacted \<Rightarrow> compacted)"

definition keepDiffLine :: "string \<Rightarrow> bool" where
  "keepDiffLine line \<longleftrightarrow>
     HasPrefix line ''diff --git '' \<or> HasPrefix line ''index '' \<or> HasPrefix line ''--- '' \<or>
     HasPrefix line ''+++ '' \<or> HasPrefix line ''@@ '' \<or> HasPrefix line ''+'' \<or> HasPrefix line ''-''"

definition diff_marker :: "nat \<Rightarrow> string" where
  "diff_marker n = ''['' @ Itoa (int n) @ '' diff context lines omitted]''"

text \<open>\<open>flushOmitted\<close> writes a marker for two or more omitted lines and resets the count.\<close>

definition flushOmitted :: "string list \<Rightarrow> nat \<Rightarrow> string list" where
  "flushOmitted compressed omitted =
     (if 0 < omitted then (if 1 < omitted then compressed @ [diff_marker omitted] else compressed)
      else compressed)"

fun diff_loop :: "string list \<Rightarrow> string list \<Rightarrow> nat \<Rightarrow> string list" where
  "diff_loop [] compressed omitted = flushOmitted compressed omitted"
| "diff_loop (line # lines) compressed omitted =
     (if keepDiffLine line then diff_loop lines (flushOmitted compressed omitted @ [line]) 0
      else if TrimSpace line = [] then diff_loop lines compressed omitted
      else diff_loop lines compressed (omitted + 1))"

definition compressDiff :: "string \<Rightarrow> string" where
  "compressDiff text = Join (diff_loop (Split text [NL]) [] 0) [NL]"

definition code_key :: "string \<Rightarrow> string" where
  "code_key line = (if TrimSpace line = [] then [] else TrimSpace line)"

fun blank_loop :: "string list \<Rightarrow> bool \<Rightarrow> string list" where
  "blank_loop [] blank = []"
| "blank_loop (line # lines) blank =
     (if TrimSpace line = [] then (if blank then blank_loop lines True else line # blank_loop lines True)
      else line # blank_loop lines False)"

definition collapseBlankRuns :: "string list \<Rightarrow> string list" where
  "collapseBlankRuns lines = blank_loop lines False"

definition compressCode :: "string \<Rightarrow> string" where
  "compressCode text =
     Join (collapseBlankRuns (collapseAdjacent (Split text [NL]) code_key ''identical code lines''))
       [NL]"

definition NativeStructuredCompressor :: compressor where
  "NativeStructuredCompressor b =
     (if bl_ContentType b = ContentJSON then Inr (text_proposal (compactJSON (bl_Text b)))
      else if bl_ContentType b = ContentDiff then Inr (text_proposal (compressDiff (bl_Text b)))
      else if bl_ContentType b = ContentCode then Inr (text_proposal (compressCode (bl_Text b)))
      else Inr (text_proposal (bl_Text b)))"

definition NativeCompressor :: compressor where
  "NativeCompressor b =
     (if bl_ContentType b = ContentText \<or> bl_ContentType b = ContentLog
      then NativeTextLogCompressor b
      else if bl_ContentType b = ContentJSON \<or> bl_ContentType b = ContentDiff \<or>
              bl_ContentType b = ContentCode
      then NativeStructuredCompressor b
      else Inr (text_proposal (bl_Text b)))"

section \<open>Collapsing is run-length encoding\<close>

text \<open>
  The specification of \<open>collapseAdjacent\<close>: the run-length encoding of the items under the key,
  each run printed as its first item and, if it repeats, a marker with the number of copies
  left out. Expanding the runs gives back the keys of the input, so nothing but what the key
  ignores is lost.
\<close>

fun runs_by :: "('a \<Rightarrow> string) \<Rightarrow> 'a list \<Rightarrow> ('a \<times> nat) list" where
  "runs_by key [] = []"
| "runs_by key (x # xs) =
     (let n = length (if key x = [] then [] else takeWhile (\<lambda>y. key y = key x) xs)
      in (x, n) # runs_by key (drop n xs))"

definition print_run :: "string \<Rightarrow> string \<times> nat \<Rightarrow> string list" where
  "print_run label run =
     fst run # (if 0 < snd run then [repeated_marker (snd run) label] else [])"

lemma collapseAdjacent_runs:
  "collapseAdjacent items key label = concat (map (print_run label) (runs_by key items))"
  by (induction items key label rule: collapseAdjacent.induct) (simp_all add: Let_def print_run_def)

lemma runs_by_expand:
  "concat (map (\<lambda>(x, n). replicate (Suc n) (key x)) (runs_by key xs)) = map key xs"
proof (induction key xs rule: runs_by.induct)
  case (2 key x xs)
  define same where "same = (if key x = [] then [] else takeWhile (\<lambda>y. key y = key x) xs)"
  have s: "map key same = replicate (length same) (key x)"
    by (simp add: same_def map_takeWhile_eq_replicate)
  have "xs = same @ drop (length same) xs"
    by (simp add: same_def dropWhile_length_takeWhile)
  then have "map key xs = replicate (length same) (key x) @ map key (drop (length same) xs)"
    by (metis map_append s)
  then show ?case
    using 2 [of "length same"] by (simp add: same_def [symmetric] Let_def)
qed simp

text \<open>Neighbouring runs have different keys, or a blank one: the collapse is maximal.\<close>

lemma runs_by_maximal:
  "runs_by key xs = us @ (x, n) # (y, m) # vs \<Longrightarrow> key x = [] \<or> key y \<noteq> key x"
proof (induction key xs arbitrary: us rule: runs_by.induct)
  case (2 key z zs)
  define same where "same = (if key z = [] then [] else takeWhile (\<lambda>y. key y = key z) zs)"
  have eq: "runs_by key (z # zs) = (z, length same) # runs_by key (drop (length same) zs)"
    by (simp add: same_def Let_def)
  show ?case
  proof (cases us)
    case Nil
    with 2 (2) eq have x: "x = z"
      and y: "runs_by key (drop (length same) zs) = (y, m) # vs" by simp_all
    then have ne: "drop (length same) zs \<noteq> []" by (cases "drop (length same) zs") auto
    with y have "y = hd (drop (length same) zs)"
      by (cases "drop (length same) zs") (simp_all add: Let_def)
    show ?thesis
    proof (cases "key z = []")
      case False
      then have d: "drop (length same) zs = dropWhile (\<lambda>y. key y = key z) zs"
        by (simp add: same_def dropWhile_length_takeWhile)
      have "key y \<noteq> key z"
        using hd_dropWhile [of "\<lambda>y. key y = key z" zs] ne \<open>y = _\<close> unfolding d by simp
      then show ?thesis by (simp add: x)
    qed (simp add: x)
  next
    case (Cons u us')
    with 2 (2) eq have "runs_by key (drop (length same) zs) = us' @ (x, n) # (y, m) # vs" by simp
    then show ?thesis using 2 (1) [of "length same"] by (simp add: same_def Let_def)
  qed
qed simp

lemma collapseAdjacent_set:
  "x \<in> set (collapseAdjacent items key label) \<Longrightarrow> x \<in> set items \<or> (\<exists>n. x = repeated_marker n label)"
proof (induction items key label rule: collapseAdjacent.induct)
  case (2 item rest key label)
  then show ?case by (auto simp: Let_def dest: in_set_dropD split: if_splits)
qed simp

lemma collapseAdjacent_length: "length (collapseAdjacent items key label) \<le> length items"
proof (induction items key label rule: collapseAdjacent.induct)
  case (2 item rest key label)
  define same where "same = (if key item = [] then [] else takeWhile (\<lambda>x. key x = key item) rest)"
  have "length same \<le> length rest" by (simp add: same_def length_takeWhile_le)
  moreover have "length (collapseAdjacent (drop (length same) rest) key label) \<le>
      length (drop (length same) rest)"
    using 2 [of same "Suc (length same)"] by (simp add: same_def)
  moreover have "length (collapseAdjacent (item # rest) key label) =
      (if same = [] then 1 else 2) + length (collapseAdjacent (drop (length same) rest) key label)"
    by (simp add: Let_def same_def [symmetric])
  ultimately show ?case by (cases same) simp_all
qed simp

lemma collapseAdjacent_not_Nil [simp]: "collapseAdjacent items key label = [] \<longleftrightarrow> items = []"
  by (cases items) (simp_all add: Let_def)

lemma runs_by_fst: "set (map fst (runs_by key xs)) \<subseteq> set xs"
proof (induction key xs rule: runs_by.induct)
  case (2 key x xs)
  have "set (map fst (runs_by key (drop n xs))) \<subseteq> set (x # xs)"
    if "n = length (if key x = [] then [] else takeWhile (\<lambda>y. key y = key x) xs)" for n
    using 2 [OF that] set_drop_subset [of n xs] by auto
  then show ?case by (simp add: Let_def)
qed simp

section \<open>Diffs\<close>

text \<open>
  What a shortened diff is, told without the code: between the lines of interest, told by their prefixes, the
  lines are gone, and where two or more of them were not blank a note says how many.
\<close>

definition diff_of_interest :: "string \<Rightarrow> bool" where
  "diff_of_interest l \<longleftrightarrow> list_ex (HasPrefix l) [''diff --git '', ''index '', ''@@ '', ''+'', ''-'']"

definition diff_note :: "string list \<Rightarrow> string list" where
  "diff_note gap =
     (if length (filter (\<lambda>l. TrimSpace l \<noteq> []) gap) < 2 then []
      else [''['' @ Itoa (int (length (filter (\<lambda>l. TrimSpace l \<noteq> []) gap))) @ '' diff context lines omitted]''])"

definition shortened_diff :: "string list \<Rightarrow> string list \<Rightarrow> bool" where
  "shortened_diff old new \<longleftrightarrow>
     (\<exists>gap hunks. old = gap @ concat (map (\<lambda>(k, g). k # g) hunks) \<and>
        list_all (\<lambda>(k, g). diff_of_interest k) hunks \<and> \<not> list_ex diff_of_interest (gap @ concat (map snd hunks)) \<and>
        new = diff_note gap @ concat (map (\<lambda>(k, g). k # diff_note g) hunks))"

lemma keepDiffLine_iff: "keepDiffLine l \<longleftrightarrow> diff_of_interest l"
  by (auto simp: keepDiffLine_def diff_of_interest_def HasPrefix_iff)

lemma diff_loop_shortened:
  "\<exists>gap hunks. ls = gap @ concat (map (\<lambda>(k, g). k # g) hunks) \<and>
     list_all (\<lambda>(k, g). diff_of_interest k) hunks \<and> \<not> list_ex diff_of_interest (gap @ concat (map snd hunks)) \<and>
     diff_loop ls acc n = flushOmitted acc (n + length (filter (\<lambda>l. TrimSpace l \<noteq> []) gap)) @
       concat (map (\<lambda>(k, g). k # diff_note g) hunks)"
proof (induction ls acc n rule: diff_loop.induct)
  case (1 acc n)
  show ?case by (intro exI [of _ "[]"]) simp
next
  case (2 l ls acc n)
  show ?case
  proof (cases "keepDiffLine l")
    case True
    then obtain gap hunks where h: "ls = gap @ concat (map (\<lambda>(k, g). k # g) hunks)"
      "list_all (\<lambda>(k, g). diff_of_interest k) hunks" "\<not> list_ex diff_of_interest (gap @ concat (map snd hunks))"
      "diff_loop ls (flushOmitted acc n @ [l]) 0 =
        flushOmitted (flushOmitted acc n @ [l]) (0 + length (filter (\<lambda>l. TrimSpace l \<noteq> []) gap)) @
          concat (map (\<lambda>(k, g). k # diff_note g) hunks)"
      using "2.IH"(1) by blast
    have f: "flushOmitted a (length (filter (\<lambda>l. TrimSpace l \<noteq> []) gap)) = a @ diff_note gap" for a
      by (auto simp: flushOmitted_def diff_note_def diff_marker_def)
    have "diff_loop (l # ls) acc n = flushOmitted acc n @ concat (map (\<lambda>(k, g). k # diff_note g) ((l, gap) # hunks))"
      using True h(4) f by simp
    then show ?thesis
      using True h(1-3) by (intro exI [of _ "[]"] exI [of _ "(l, gap) # hunks"]) (simp add: keepDiffLine_iff)
  next
    case False
    define m where "m = (if TrimSpace l = [] then n else n + 1)"
    have "\<exists>gap hunks. ls = gap @ concat (map (\<lambda>(k, g). k # g) hunks) \<and>
     list_all (\<lambda>(k, g). diff_of_interest k) hunks \<and> \<not> list_ex diff_of_interest (gap @ concat (map snd hunks)) \<and>
     diff_loop ls acc m = flushOmitted acc (m + length (filter (\<lambda>l. TrimSpace l \<noteq> []) gap)) @
       concat (map (\<lambda>(k, g). k # diff_note g) hunks)"
      using "2.IH"(2,3) False unfolding m_def by (cases "TrimSpace l = []") simp_all
    then obtain gap hunks where h: "ls = gap @ concat (map (\<lambda>(k, g). k # g) hunks)"
      "list_all (\<lambda>(k, g). diff_of_interest k) hunks" "\<not> list_ex diff_of_interest (gap @ concat (map snd hunks))"
      "diff_loop ls acc m = flushOmitted acc (m + length (filter (\<lambda>l. TrimSpace l \<noteq> []) gap)) @
       concat (map (\<lambda>(k, g). k # diff_note g) hunks)" by blast
    have "diff_loop (l # ls) acc n = diff_loop ls acc m" using False by (simp add: m_def)
    moreover have "m + length (filter (\<lambda>l. TrimSpace l \<noteq> []) gap) = n + length (filter (\<lambda>l. TrimSpace l \<noteq> []) (l # gap))"
      by (simp add: m_def)
    ultimately show ?thesis
      using False h by (intro exI [of _ "l # gap"] exI [of _ hunks]) (simp add: keepDiffLine_iff)
  qed
qed

lemma compressDiff_shortened: "\<exists>ls. shortened_diff (Split t [NL]) ls \<and> compressDiff t = Join ls [NL]"
proof -
  have f: "flushOmitted [] (0 + length (filter (\<lambda>l. TrimSpace l \<noteq> []) gap)) = diff_note gap" for gap
    by (auto simp: flushOmitted_def diff_note_def diff_marker_def)
  have "shortened_diff (Split t [NL]) (diff_loop (Split t [NL]) [] 0)"
    using diff_loop_shortened [of "Split t [NL]" "[]" 0] unfolding shortened_diff_def f .
  then show ?thesis unfolding compressDiff_def by blast
qed

lemma diff_marker_not_kept: "\<not> keepDiffLine (diff_marker n)"
  by (simp add: keepDiffLine_def diff_marker_def HasPrefix_def)

lemma filter_flushOmitted [simp]:
  "filter keepDiffLine (flushOmitted c n) = filter keepDiffLine c"
  by (simp add: flushOmitted_def diff_marker_not_kept)

lemma diff_loop_kept:
  "filter keepDiffLine (diff_loop lines compressed omitted) =
     filter keepDiffLine compressed @ filter keepDiffLine lines"
  by (induction lines compressed omitted rule: diff_loop.induct) auto

lemma diff_loop_set:
  "x \<in> set (diff_loop lines compressed omitted) \<Longrightarrow>
     x \<in> set compressed \<or> (x \<in> set lines \<and> keepDiffLine x) \<or> (\<exists>n. x = diff_marker n)"
  by (induction lines compressed omitted rule: diff_loop.induct)
    (auto simp: flushOmitted_def split: if_splits)

section \<open>Code\<close>

lemma blank_loop_nonblank:
  "filter (\<lambda>l. TrimSpace l \<noteq> []) (blank_loop lines b) = filter (\<lambda>l. TrimSpace l \<noteq> []) lines"
  by (induction lines b rule: blank_loop.induct) auto

fun no_blank_pair :: "string list \<Rightarrow> bool" where
  "no_blank_pair (x # y # zs) \<longleftrightarrow>
     \<not> (TrimSpace x = [] \<and> TrimSpace y = []) \<and> no_blank_pair (y # zs)"
| "no_blank_pair _ = True"

lemma blank_loop_no_pair:
  "no_blank_pair (blank_loop lines b) \<and>
   (b \<longrightarrow> blank_loop lines b = [] \<or> TrimSpace (hd (blank_loop lines b)) \<noteq> [])"
proof (induction lines b rule: blank_loop.induct)
  case (2 line lines blank)
  then show ?case
    by (cases "blank_loop lines True"; cases "blank_loop lines False"; cases "TrimSpace line = []";
        cases blank) auto
qed simp

lemma blank_loop_id: "no_blank_pair lines \<Longrightarrow>
   (b \<Longrightarrow> lines = [] \<or> TrimSpace (hd lines) \<noteq> []) \<Longrightarrow> blank_loop lines b = lines"
proof (induction lines b rule: blank_loop.induct)
  case (2 line lines blank)
  have nb: "no_blank_pair lines" using 2 (4) by (cases lines) auto
  have hd: "TrimSpace line = [] \<Longrightarrow> lines = [] \<or> TrimSpace (hd lines) \<noteq> []"
    using 2 (4) by (cases lines) auto
  show ?case
    using 2 nb hd by (cases "TrimSpace line = []"; cases blank) auto
qed simp

lemma collapseBlankRuns_idem:
  "collapseBlankRuns (collapseBlankRuns lines) = collapseBlankRuns lines"
  unfolding collapseBlankRuns_def by (rule blank_loop_id) (simp_all add: blank_loop_no_pair)

lemma blank_loop_set: "set (blank_loop lines b) \<subseteq> set lines"
  by (induction lines b rule: blank_loop.induct) auto

section \<open>Valid UTF-8 in, valid UTF-8 out\<close>

lemma ascii_decimal: "ascii (decimal n)"
proof -
  have "list_all is_digit (decimal n)" by (rule decimal_digits)
  then show ?thesis
    unfolding ascii_def by (rule list.pred_mono_strong) (simp add: is_digit_def)
qed

lemma ascii_Itoa [simp]: "ascii (Itoa n)"
  by (simp add: Itoa_def ascii_decimal)

lemma ascii_markers: "ascii (diff_marker n)" "ascii label \<Longrightarrow> ascii (repeated_marker n label)"
  by (simp_all add: diff_marker_def repeated_marker_def)

lemma collapseAdjacent_valid:
  "ascii label \<Longrightarrow> list_all ValidString items \<Longrightarrow>
     list_all ValidString (collapseAdjacent items key label)"
  by (auto simp: list_all_iff ascii_markers ValidString_ascii dest!: collapseAdjacent_set)

lemma compressRepeatedLines_valid: "ValidString t \<Longrightarrow> ValidString (compressRepeatedLines t)"
  unfolding compressRepeatedLines_def
  by (intro ValidString_Join collapseAdjacent_valid ValidString_Split) simp_all

lemma compressRepeatedParagraphs_valid:
  "ValidString t \<Longrightarrow> ValidString (compressRepeatedParagraphs t)"
  unfolding compressRepeatedParagraphs_def
  by (intro ValidString_Join collapseAdjacent_valid ValidString_Split) simp_all

lemma compactJSON_valid: "ValidString t \<Longrightarrow> ValidString (compactJSON t)"
  using compact_from_ValidString [of scan_init t _ "[]"]
  by (auto simp: compactJSON_def json_Compact_def split: option.split)

lemma compressDiff_valid: "ValidString t \<Longrightarrow> ValidString (compressDiff t)"
  unfolding compressDiff_def
proof (intro ValidString_Join)
  assume v: "ValidString t"
  have "list_all ValidString (Split t [NL])"
    by (rule ValidString_Split) (simp_all add: v)
  then show "list_all ValidString (diff_loop (Split t [NL]) [] 0)"
    by (auto simp: list_all_iff ascii_markers ValidString_ascii dest!: diff_loop_set)
qed simp

lemma compressCode_valid: "ValidString t \<Longrightarrow> ValidString (compressCode t)"
  unfolding compressCode_def
proof (intro ValidString_Join)
  assume v: "ValidString t"
  have "list_all ValidString (collapseAdjacent (Split t [NL]) code_key ''identical code lines'')"
    by (intro collapseAdjacent_valid ValidString_Split) (simp_all add: v)
  then show "list_all ValidString (collapseBlankRuns
      (collapseAdjacent (Split t [NL]) code_key ''identical code lines''))"
    unfolding collapseBlankRuns_def list_all_iff using blank_loop_set by blast
qed simp

lemmas native_valid = compressRepeatedLines_valid compressRepeatedParagraphs_valid
  compactJSON_valid compressDiff_valid compressCode_valid

lemmas native_defs = NativeCompressor_def NativeTextLogCompressor_def
  NativeStructuredCompressor_def text_proposal_def

section \<open>Properties\<close>

lemma marker_no_NL: "NL \<notin> set label \<Longrightarrow> NL \<notin> set (repeated_marker n label)"
  by (auto simp: repeated_marker_def Itoa_no_NL)

lemma Split_Join_lines:
  "(\<And>x. x \<in> set ls \<Longrightarrow> NL \<notin> set x) \<Longrightarrow> Split (Join ls [NL]) [NL] = (if ls = [] then [[]] else ls)"
  by (cases "ls = []") (auto intro: Split_Join_single simp: Split_no_sep)

lemma collapsed_lines_no_NL:
  "NL \<notin> set label \<Longrightarrow> x \<in> set (collapseAdjacent (Split t [NL]) key label) \<Longrightarrow> NL \<notin> set x"
  using Split_single_pieces [of t NL] marker_no_NL by (auto dest!: collapseAdjacent_set)

lemma compressRepeatedLines_runs:
  "Split (compressRepeatedLines t) [NL] =
     concat (map (print_run ''identical log lines'') (runs_by TrimSpace (Split t [NL])))"
  unfolding compressRepeatedLines_def collapseAdjacent_runs [symmetric]
  by (subst Split_Join_lines) (auto dest!: collapsed_lines_no_NL [rotated])

text \<open>C29. Compressing a log is run-length encoding of its lines: the lines of the result are the
  runs of lines equal up to surrounding white space, each printed as its first line and a marker
  with the number of further copies; expanding the runs gives every line back up to surrounding
  white space; and no two neighbouring runs could have been one.\<close>

theorem compressRepeatedLines_is_rle:
  "\<exists>rs. Split (compressRepeatedLines t) [NL] = concat (map (print_run ''identical log lines'') rs) \<and>
     concat (map (\<lambda>(x, n). replicate (Suc n) (TrimSpace x)) rs) = map TrimSpace (Split t [NL]) \<and>
     \<not> (\<exists>us x n y m vs. rs = us @ (x, n) # (y, m) # vs \<and> TrimSpace x \<noteq> [] \<and> TrimSpace y = TrimSpace x)"
proof (intro exI conjI)
  let ?rs = "runs_by TrimSpace (Split t [NL])"
  show "Split (compressRepeatedLines t) [NL] = concat (map (print_run ''identical log lines'') ?rs)"
    by (rule compressRepeatedLines_runs)
  show "concat (map (\<lambda>(x, n). replicate (Suc n) (TrimSpace x)) ?rs) = map TrimSpace (Split t [NL])"
    by (rule runs_by_expand)
  show "\<not> (\<exists>us x n y m vs. ?rs = us @ (x, n) # (y, m) # vs \<and> TrimSpace x \<noteq> [] \<and> TrimSpace y = TrimSpace x)"
    using runs_by_maximal by metis
qed

lemma diff_lines_no_NL: "x \<in> set (diff_loop (Split t [NL]) [] 0) \<Longrightarrow> NL \<notin> set x"
  using Split_single_pieces [of t NL] by (auto simp: diff_marker_def Itoa_no_NL dest!: diff_loop_set)

lemma compressDiff_lines:
  "Split (compressDiff t) [NL] =
     (if diff_loop (Split t [NL]) [] 0 = [] then [[]] else diff_loop (Split t [NL]) [] 0)"
  unfolding compressDiff_def by (rule Split_Join_lines) (rule diff_lines_no_NL)

lemma compressDiff_kept:
  "filter keepDiffLine (Split (compressDiff t) [NL]) = filter keepDiffLine (Split t [NL])"
  using diff_loop_kept [of "Split t [NL]" "[]" 0]
  by (auto simp: compressDiff_lines keepDiffLine_def [of "[]"] HasPrefix_def)

text \<open>C30. Compressing a diff keeps the lines that begin with \<open>diff --git \<close>, \<open>index \<close>, \<open>@@ \<close>, \<open>+\<close> or \<open>-\<close>, which
  takes in the \<open>---\<close> and \<open>+++\<close> lines: these lines of the result are exactly those of the input, in order. Of
  the lines before, between and after them nothing is left, but where two or more of them that lie together
  are not blank there is one line with their exact number. Other header lines (of renames, new files or modes)
  are among the lines left out.\<close>

theorem compressDiff_keeps_changes:
  "filter (\<lambda>l. list_ex (HasPrefix l) [''diff --git '', ''index '', ''@@ '', ''+'', ''-'']) (Split (compressDiff t) [NL]) =
     filter (\<lambda>l. list_ex (HasPrefix l) [''diff --git '', ''index '', ''@@ '', ''+'', ''-'']) (Split t [NL]) \<and>
   (\<exists>gap hunks. Split t [NL] = gap @ concat (map (\<lambda>(k, g). k # g) hunks) \<and>
      list_all (\<lambda>(k, g). list_ex (HasPrefix k) [''diff --git '', ''index '', ''@@ '', ''+'', ''-'']) hunks \<and>
      \<not> list_ex (\<lambda>l. list_ex (HasPrefix l) [''diff --git '', ''index '', ''@@ '', ''+'', ''-'']) (gap @ concat (map snd hunks)) \<and>
      compressDiff t = Join (diff_note gap @ concat (map (\<lambda>(k, g). k # diff_note g) hunks)) [NL])"
proof (rule conjI)
  have k: "keepDiffLine = (\<lambda>l. list_ex (HasPrefix l) [''diff --git '', ''index '', ''@@ '', ''+'', ''-''])"
    by (rule ext) (simp only: keepDiffLine_iff diff_of_interest_def)
  show "filter (\<lambda>l. list_ex (HasPrefix l) [''diff --git '', ''index '', ''@@ '', ''+'', ''-'']) (Split (compressDiff t) [NL]) =
     filter (\<lambda>l. list_ex (HasPrefix l) [''diff --git '', ''index '', ''@@ '', ''+'', ''-'']) (Split t [NL])"
    by (rule compressDiff_kept [of t, unfolded k])
  have d: "diff_of_interest = (\<lambda>l. list_ex (HasPrefix l) [''diff --git '', ''index '', ''@@ '', ''+'', ''-''])"
    by (rule ext) (rule diff_of_interest_def)
  show "\<exists>gap hunks. Split t [NL] = gap @ concat (map (\<lambda>(k, g). k # g) hunks) \<and>
      list_all (\<lambda>(k, g). list_ex (HasPrefix k) [''diff --git '', ''index '', ''@@ '', ''+'', ''-'']) hunks \<and>
      \<not> list_ex (\<lambda>l. list_ex (HasPrefix l) [''diff --git '', ''index '', ''@@ '', ''+'', ''-'']) (gap @ concat (map snd hunks)) \<and>
      compressDiff t = Join (diff_note gap @ concat (map (\<lambda>(k, g). k # diff_note g) hunks)) [NL]"
    using compressDiff_shortened [of t] unfolding shortened_diff_def d by blast
qed

lemma code_lines_no_NL:
  "x \<in> set (collapseBlankRuns (collapseAdjacent (Split t [NL]) code_key ''identical code lines'')) \<Longrightarrow>
     NL \<notin> set x"
  unfolding collapseBlankRuns_def
  using blank_loop_set collapsed_lines_no_NL [of "''identical code lines''" x t code_key] by auto

text \<open>Compressing code leaves no two neighbouring blank lines, and its non-blank lines are
  those of the run-length encoding of the input's lines, which expands to the input's lines up to
  surrounding white space.\<close>

theorem compressCode_lines:
  "no_blank_pair (Split (compressCode t) [NL]) \<and>
   (\<exists>rs. filter (\<lambda>l. TrimSpace l \<noteq> []) (Split (compressCode t) [NL]) =
        filter (\<lambda>l. TrimSpace l \<noteq> []) (concat (map (print_run ''identical code lines'') rs)) \<and>
      set (map fst rs) \<subseteq> set (Split t [NL]) \<and>
      concat (map (\<lambda>(x, n). replicate (Suc n) (TrimSpace x)) rs) = map TrimSpace (Split t [NL]))"
proof -
  let ?ls = "collapseAdjacent (Split t [NL]) code_key ''identical code lines''"
  have ls: "Split (compressCode t) [NL] =
      (if collapseBlankRuns ?ls = [] then [[]] else collapseBlankRuns ?ls)"
    unfolding compressCode_def by (rule Split_Join_lines) (rule code_lines_no_NL)
  have key: "code_key = TrimSpace" by (rule ext) (simp add: code_key_def)
  have "filter (\<lambda>l. TrimSpace l \<noteq> []) (Split (compressCode t) [NL]) = filter (\<lambda>l. TrimSpace l \<noteq> [])
      (concat (map (print_run ''identical code lines'') (runs_by TrimSpace (Split t [NL]))))"
    using blank_loop_nonblank [of ?ls False]
    by (auto simp: ls collapseBlankRuns_def key collapseAdjacent_runs [symmetric])
  moreover have "no_blank_pair (Split (compressCode t) [NL])"
    using blank_loop_no_pair [of ?ls False] by (simp add: ls collapseBlankRuns_def)
  ultimately show ?thesis
    using runs_by_expand [of TrimSpace "Split t [NL]"] runs_by_fst [of TrimSpace "Split t [NL]"] by blast
qed

lemma compactJSON_keeps:
  "json_Valid (compactJSON t) = json_Valid t \<and>
   filter (\<lambda>c. \<not> json_space c) (compactJSON t) = filter (\<lambda>c. \<not> json_space c) t"
proof (cases "json_Compact t")
  case None
  then show ?thesis by (simp add: compactJSON_def)
next
  case (Some u)
  then have "json_Compact u = Some u" by (rule json_Compact_fixpoint)
  then show ?thesis
    using Some compact_from_filter [of scan_init t u] by (simp add: compactJSON_def json_Compact_def json_Compact_iff_Valid)
qed

text \<open>Compacting JSON changes nothing that is not JSON, keeps validity, only deletes white
  space, and is idempotent.\<close>

theorem compactJSON_correct:
  "json_Valid (compactJSON t) = json_Valid t \<and> compactJSON (compactJSON t) = compactJSON t \<and>
   filter (\<lambda>c. \<not> json_space c) (compactJSON t) = filter (\<lambda>c. \<not> json_space c) t \<and>
   length (compactJSON t) \<le> length t"
proof (cases "json_Compact t")
  case None
  then show ?thesis by (simp add: compactJSON_def)
next
  case (Some u)
  then have "json_Compact u = Some u" "length u \<le> length t"
    using json_Compact_fixpoint compact_from_filter [of scan_init t u] by (auto simp: json_Compact_def)
  then show ?thesis using Some compactJSON_keeps [of t] by (simp add: compactJSON_def)
qed

end
