(* ===== verification/Pipeline.thy ===== *)
theory Pipeline
  imports Tokens Native_Compress
begin

text \<open>
  \<open>internal/compress/pipeline.go\<close>: every selected live block is offered to the compressors in
  order; the first proposal that is valid UTF-8 and saves tokens replaces the text, and a
  decision records what happened. \<open>try_compressors\<close> is the inner loop of \<open>Apply\<close> with the
  decision as its state, \<open>apply_loop\<close> the outer one.
\<close>

datatype decision_reason =
    ReasonUnset
  | DecisionApplied
  | DecisionNotSelected
  | DecisionNoSavings
  | DecisionInvalidUTF8
  | DecisionError

record decision =
  dc_BlockID :: string
  dc_Applied :: bool
  dc_Reason :: decision_reason
  dc_Savings :: savings
  dc_Err :: "error option"

record pipeline_stats =
  st_Applied :: int
  st_Skipped :: int
  st_TokenDelta :: int

record pipeline_result =
  res_Blocks :: "block list"
  res_Decisions :: "decision list"
  res_Stats :: pipeline_stats

record pipeline_options =
  opt_Compressor :: "compressor option"
  opt_Compressors :: "compressor list"
  opt_Counters :: "counter_set option"
  opt_ProviderModel :: provider_model

record pipeline =
  pl_compressors :: "compressor list"
  pl_counters :: "counter_set option"
  pl_providerModel :: provider_model

definition NewPipeline :: "pipeline_options \<Rightarrow> pipeline" where
  "NewPipeline options =
     (let counters = (if opt_Counters options = None then NewCounterSet else opt_Counters options);
          compressors = opt_Compressors options;
          compressors = (if compressors = [] \<and> opt_Compressor options \<noteq> None
            then compressors @ [the (opt_Compressor options)] else compressors)
      in \<lparr>pl_compressors = compressors, pl_counters = counters,
          pl_providerModel = opt_ProviderModel options\<rparr>)"

definition proposalText :: "proposal \<Rightarrow> string option" where
  "proposalText p =
     (case pr_Bytes p of
        Some bs \<Rightarrow> if ValidString bs then Some bs else None
      | None \<Rightarrow> if ValidString (pr_Text p) then Some (pr_Text p) else None)"

definition evaluateProposal ::
  "unicode_tables \<Rightarrow> pipeline \<Rightarrow> block \<Rightarrow> proposal \<Rightarrow> error + (string \<times> savings \<times> decision_reason)"
where
  "evaluateProposal T p b pr =
     (case proposalText pr of
        None \<Rightarrow> Inr ([], zero_savings, DecisionInvalidUTF8)
      | Some text \<Rightarrow>
          (case Savings T (pl_counters p) (pl_providerModel p) (bl_Text b) text of
             Inl err \<Rightarrow> Inl err
           | Inr sv \<Rightarrow>
               if \<not> sv_Improved sv then Inr (text, sv, DecisionNoSavings)
               else Inr (text, sv, DecisionApplied)))"

fun try_compressors ::
  "unicode_tables \<Rightarrow> pipeline \<Rightarrow> block \<Rightarrow> compressor list \<Rightarrow> decision \<Rightarrow> decision \<times> string option"
where
  "try_compressors T p b [] d = (d, None)"
| "try_compressors T p b (c # cs) d =
     (case c b of
        Inl err \<Rightarrow>
          try_compressors T p b cs (d\<lparr>dc_Reason := DecisionError, dc_Err := Some err\<rparr>)
      | Inr pr \<Rightarrow>
          (case evaluateProposal T p b pr of
             Inl err \<Rightarrow>
               try_compressors T p b cs (d\<lparr>dc_Reason := DecisionError, dc_Err := Some err\<rparr>)
           | Inr (text, sv, reason) \<Rightarrow>
               let d = d\<lparr>dc_Savings := sv\<rparr>
               in if reason \<noteq> DecisionApplied
                  then try_compressors T p b cs (d\<lparr>dc_Reason := reason\<rparr>)
                  else (d\<lparr>dc_Applied := True, dc_Reason := DecisionApplied\<rparr>, Some text)))"

definition new_decision :: "block \<Rightarrow> decision" where
  "new_decision b = \<lparr>dc_BlockID = bl_ID b, dc_Applied = False, dc_Reason = ReasonUnset,
     dc_Savings = zero_savings, dc_Err = None\<rparr>"

text \<open>The body of the outer loop for one block: its new text, its decision.\<close>

definition apply_block :: "unicode_tables \<Rightarrow> pipeline \<Rightarrow> block \<Rightarrow> block \<times> decision" where
  "apply_block T p b =
     (if \<not> bl_Selected b \<or> bl_Stability b \<noteq> StabilityLive
      then (b, (new_decision b)\<lparr>dc_Reason := DecisionNotSelected\<rparr>)
      else
        let (d, text) = try_compressors T p b (pl_compressors p) (new_decision b);
            d = (if dc_Reason d = ReasonUnset
                 then d\<lparr>dc_Reason := DecisionError, dc_Err := Some ''compressor is required''\<rparr>
                 else d)
        in (case text of None \<Rightarrow> b | Some t \<Rightarrow> b\<lparr>bl_Text := t\<rparr>, d))"

definition count_decision :: "decision \<Rightarrow> pipeline_stats \<Rightarrow> pipeline_stats" where
  "count_decision d st =
     (if dc_Applied d
      then st\<lparr>st_Applied := wrap64 (st_Applied st + 1),
              st_TokenDelta := wrap64 (st_TokenDelta st + sv_Delta (dc_Savings d))\<rparr>
      else st\<lparr>st_Skipped := wrap64 (st_Skipped st + 1)\<rparr>)"

fun apply_loop :: "unicode_tables \<Rightarrow> pipeline \<Rightarrow> block list \<Rightarrow> pipeline_result \<Rightarrow> pipeline_result" where
  "apply_loop T p [] r = r"
| "apply_loop T p (b # bs) r =
     (let bd = apply_block T p b
      in apply_loop T p bs
           \<lparr>res_Blocks = res_Blocks r @ [fst bd], res_Decisions = res_Decisions r @ [snd bd],
            res_Stats = count_decision (snd bd) (res_Stats r)\<rparr>)"

definition Apply :: "unicode_tables \<Rightarrow> pipeline \<Rightarrow> block list \<Rightarrow> pipeline_result" where
  "Apply T p blocks =
     apply_loop T p blocks
       \<lparr>res_Blocks = [], res_Decisions = [],
        res_Stats = \<lparr>st_Applied = 0, st_Skipped = 0, st_TokenDelta = 0\<rparr>\<rparr>"

section \<open>The loops\<close>

lemma apply_loop_lists:
  "res_Blocks (apply_loop T p bs r) = res_Blocks r @ map (\<lambda>b. fst (apply_block T p b)) bs \<and>
   res_Decisions (apply_loop T p bs r) = res_Decisions r @ map (\<lambda>b. snd (apply_block T p b)) bs"
  by (induction bs arbitrary: r) (simp_all add: Let_def)

lemma Apply_Blocks: "res_Blocks (Apply T p bs) = map (\<lambda>b. fst (apply_block T p b)) bs"
  by (simp add: Apply_def apply_loop_lists)

lemma Apply_Decisions: "res_Decisions (Apply T p bs) = map (\<lambda>b. snd (apply_block T p b)) bs"
  by (simp add: Apply_def apply_loop_lists)

lemma Apply_Stats:
  "res_Stats (Apply T p bs) =
     fold (\<lambda>b. count_decision (snd (apply_block T p b))) bs
       \<lparr>st_Applied = 0, st_Skipped = 0, st_TokenDelta = 0\<rparr>"
proof -
  have "res_Stats (apply_loop T p bs r) =
      fold (\<lambda>b. count_decision (snd (apply_block T p b))) bs (res_Stats r)" for r
    by (induction bs arbitrary: r) (simp_all add: Let_def)
  then show ?thesis by (simp add: Apply_def)
qed

text \<open>
  The reference for the inner loop: the first compressor whose proposal is acceptable. A
  proposal is acceptable when the compressor returns one, its text is valid UTF-8, counting
  succeeds, and the count goes down.
\<close>

definition acceptable :: "unicode_tables \<Rightarrow> pipeline \<Rightarrow> block \<Rightarrow> compressor \<Rightarrow> (string \<times> savings) option" where
  "acceptable T p b c =
     (case c b of Inl _ \<Rightarrow> None
      | Inr pr \<Rightarrow>
          (case evaluateProposal T p b pr of
             Inr (text, sv, DecisionApplied) \<Rightarrow> Some (text, sv)
           | _ \<Rightarrow> None))"

fun first_acceptable ::
  "unicode_tables \<Rightarrow> pipeline \<Rightarrow> block \<Rightarrow> compressor list \<Rightarrow> (string \<times> savings) option" where
  "first_acceptable T p b [] = None"
| "first_acceptable T p b (c # cs) =
     (case acceptable T p b c of Some r \<Rightarrow> Some r | None \<Rightarrow> first_acceptable T p b cs)"

lemma try_compressors_first:
  "map_option (\<lambda>t. (t, dc_Savings (fst (try_compressors T p b cs d))))
     (snd (try_compressors T p b cs d)) = first_acceptable T p b cs"
  by (induction T p b cs d rule: try_compressors.induct)
    (auto simp: acceptable_def Let_def split: sum.splits prod.splits decision_reason.splits)

lemma try_compressors_applied:
  "\<not> dc_Applied d \<Longrightarrow> dc_Reason d \<noteq> DecisionApplied \<Longrightarrow>
     (dc_Applied (fst (try_compressors T p b cs d)) \<longleftrightarrow> snd (try_compressors T p b cs d) \<noteq> None) \<and>
     (dc_Reason (fst (try_compressors T p b cs d)) = DecisionApplied \<longleftrightarrow>
        snd (try_compressors T p b cs d) \<noteq> None)"
  by (induction T p b cs d rule: try_compressors.induct)
    (auto simp: Let_def split: sum.splits prod.splits)

lemma evaluateProposal_reason:
  "evaluateProposal T p b pr = Inr (text, sv, reason) \<Longrightarrow> reason \<noteq> ReasonUnset"
  by (auto simp: evaluateProposal_def split: option.splits sum.splits if_splits)

lemma try_compressors_reason_set:
  "dc_Reason d \<noteq> ReasonUnset \<or> cs \<noteq> [] \<Longrightarrow>
     dc_Reason (fst (try_compressors T p b cs d)) \<noteq> ReasonUnset"
proof (induction cs arbitrary: d)
  case (Cons c cs)
  show ?case
  proof (cases "c b")
    case (Inl e)
    then show ?thesis by (simp add: Cons.IH)
  next
    case pr: (Inr pr)
    show ?thesis
    proof (cases "evaluateProposal T p b pr")
      case (Inl e)
      then show ?thesis by (simp add: pr Cons.IH)
    next
      case (Inr x)
      obtain tx sv re where x: "x = (tx, sv, re)" by (cases x)
      then have "re \<noteq> ReasonUnset" using Inr by (simp add: evaluateProposal_reason)
      then show ?thesis by (simp add: pr Inr x Let_def Cons.IH)
    qed
  qed
qed simp

lemma try_compressors_ID:
  "dc_BlockID (fst (try_compressors T p b cs d)) = dc_BlockID d"
  by (induction T p b cs d rule: try_compressors.induct)
    (auto simp: Let_def split: sum.splits prod.splits)

lemma acceptable_Some:
  assumes "acceptable T p b c = Some (text, sv)"
  shows "ValidString text \<and> sv_Improved sv \<and>
     Savings T (pl_counters p) (pl_providerModel p) (bl_Text b) text = Inr sv \<and>
     (\<exists>pr. c b = Inr pr \<and> proposalText pr = Some text)"
  using assms
  by (auto simp: acceptable_def evaluateProposal_def proposalText_def
      split: sum.splits option.splits if_splits prod.splits decision_reason.splits)

lemma first_acceptable_mem:
  "first_acceptable T p b cs = Some r \<Longrightarrow> \<exists>c \<in> set cs. acceptable T p b c = Some r"
  by (induction cs) (auto split: option.splits)

section \<open>One block\<close>

lemma apply_block_not_live: "\<not> live_zone b \<Longrightarrow>
   apply_block T p b = (b, (new_decision b)\<lparr>dc_Reason := DecisionNotSelected\<rparr>)"
  by (auto simp: apply_block_def live_zone_def)

lemma apply_block_live:
  assumes "live_zone b"
  shows "fst (apply_block T p b) =
      (case first_acceptable T p b (pl_compressors p) of None \<Rightarrow> b | Some (t, _) \<Rightarrow> b\<lparr>bl_Text := t\<rparr>)
    \<and> (dc_Applied (snd (apply_block T p b)) \<longleftrightarrow>
        first_acceptable T p b (pl_compressors p) \<noteq> None)
    \<and> (dc_Reason (snd (apply_block T p b)) = DecisionApplied \<longleftrightarrow>
        dc_Applied (snd (apply_block T p b)))
    \<and> (case first_acceptable T p b (pl_compressors p) of None \<Rightarrow> True
       | Some (_, sv) \<Rightarrow> dc_Savings (snd (apply_block T p b)) = sv)"
proof -
  obtain d tx where t: "try_compressors T p b (pl_compressors p) (new_decision b) = (d, tx)"
    by (cases "try_compressors T p b (pl_compressors p) (new_decision b)")
  have f: "first_acceptable T p b (pl_compressors p) = map_option (\<lambda>t. (t, dc_Savings d)) tx"
    using try_compressors_first [of T p b "pl_compressors p" "new_decision b"] t by simp
  have a: "(dc_Applied d \<longleftrightarrow> tx \<noteq> None) \<and> (dc_Reason d = DecisionApplied \<longleftrightarrow> tx \<noteq> None)"
    using try_compressors_applied [of "new_decision b" T p b "pl_compressors p"] t
    by (simp add: new_decision_def)
  show ?thesis
    using assms a by (cases tx) (auto simp: apply_block_def live_zone_def t f)
qed

lemma apply_block_frame:
  "\<exists>t. fst (apply_block T p b) = b\<lparr>bl_Text := t\<rparr>"
proof (cases "live_zone b")
  case True
  have "b = b\<lparr>bl_Text := bl_Text b\<rparr>" by simp
  then show ?thesis
    using apply_block_live [OF True, of T p]
    by (cases "first_acceptable T p b (pl_compressors p)") (metis option.simps(4), auto)
next
  case False
  then show ?thesis by (auto simp: apply_block_not_live intro!: exI [of _ "bl_Text b"])
qed

lemma apply_block_changed:
  assumes "bl_Text (fst (apply_block T p b)) \<noteq> bl_Text b"
  shows "live_zone b \<and> dc_Applied (snd (apply_block T p b))"
  using assms apply_block_live [of b T p]
  by (cases "live_zone b") (auto simp: apply_block_not_live split: option.splits)

lemma apply_block_applied:
  assumes "dc_Applied (snd (apply_block T p b))"
  obtains t sv c pr where "live_zone b" "c \<in> set (pl_compressors p)" "c b = Inr pr"
    "proposalText pr = Some t" "ValidString t" "sv_Improved sv"
    "Savings T (pl_counters p) (pl_providerModel p) (bl_Text b) t = Inr sv"
    "fst (apply_block T p b) = b\<lparr>bl_Text := t\<rparr>" "dc_Savings (snd (apply_block T p b)) = sv"
proof -
  have l: "live_zone b"
    using assms by (cases "live_zone b") (auto simp: apply_block_not_live new_decision_def)
  then obtain t sv where f: "first_acceptable T p b (pl_compressors p) = Some (t, sv)"
    using assms apply_block_live [OF l, of T p] by auto
  then obtain c where c: "c \<in> set (pl_compressors p)" "acceptable T p b c = Some (t, sv)"
    using first_acceptable_mem by blast
  from acceptable_Some [OF c(2)] obtain pr where
    "ValidString t" "sv_Improved sv" "c b = Inr pr" "proposalText pr = Some t"
    "Savings T (pl_counters p) (pl_providerModel p) (bl_Text b) t = Inr sv" by auto
  moreover have "fst (apply_block T p b) = b\<lparr>bl_Text := t\<rparr>"
    "dc_Savings (snd (apply_block T p b)) = sv"
    using apply_block_live [OF l, of T p] f by auto
  ultimately show thesis using that l c by blast
qed

lemma apply_block_reason: "dc_Reason (snd (apply_block T p b)) \<noteq> ReasonUnset"
  by (auto simp: apply_block_def Let_def split: prod.split)

lemma apply_block_ID: "dc_BlockID (snd (apply_block T p b)) = bl_ID b"
proof -
  have "dc_BlockID (fst (try_compressors T p b (pl_compressors p) (new_decision b))) = bl_ID b"
    by (simp add: try_compressors_ID) (simp add: new_decision_def)
  then show ?thesis
    by (auto simp: apply_block_def Let_def new_decision_def split: prod.split)
qed

section \<open>The contract of a compressor\<close>

text \<open>
  What the pipeline can rely on of a compressor that never damages text: on a block with
  valid text it proposes valid text. Such a compressor never costs a block its rewrite for
  encoding reasons, alone or in any list of such compressors.
\<close>

locale utf8_safe_compressor =
  fixes compress :: compressor
  assumes proposes_valid: "ValidString (bl_Text b) \<Longrightarrow> compress b = Inr pr \<Longrightarrow> proposalText pr \<noteq> None"
begin

lemma never_invalid:
  "ValidString (bl_Text b) \<Longrightarrow> compress b = Inr pr \<Longrightarrow>
     evaluateProposal T p b pr \<noteq> Inr (text, sv, DecisionInvalidUTF8)"
  using proposes_valid [of b pr]
  by (cases "proposalText pr") (auto simp: evaluateProposal_def split: sum.splits)

lemma alone_never_invalid:
  assumes "ValidString (bl_Text b)" and "dc_Reason d \<noteq> DecisionInvalidUTF8"
  shows "dc_Reason (fst (try_compressors T p b [compress] d)) \<noteq> DecisionInvalidUTF8"
  using assms never_invalid by (auto simp: Let_def split: sum.splits prod.splits)

end

interpretation native: utf8_safe_compressor NativeCompressor
proof unfold_locales
  fix b pr assume "ValidString (bl_Text b)" and "NativeCompressor b = Inr pr"
  then show "proposalText pr \<noteq> None"
    by (auto simp: native_defs proposalText_def native_valid split: if_splits)
qed

lemma native_apply_block:
  assumes "pl_compressors p = [NativeCompressor]" and "ValidString (bl_Text b)"
  shows "dc_Reason (snd (apply_block T p b)) \<noteq> DecisionInvalidUTF8 \<and>
         ValidString (bl_Text (fst (apply_block T p b)))"
proof
  have "dc_Reason (new_decision b) \<noteq> DecisionInvalidUTF8" by (simp add: new_decision_def)
  then have "dc_Reason (fst (try_compressors T p b [NativeCompressor] (new_decision b)))
      \<noteq> DecisionInvalidUTF8"
    by (rule native.alone_never_invalid [OF assms(2)])
  then show "dc_Reason (snd (apply_block T p b)) \<noteq> DecisionInvalidUTF8"
    by (auto simp: apply_block_def Let_def assms(1) new_decision_def simp del: try_compressors.simps
        split: prod.split)
next
  show "ValidString (bl_Text (fst (apply_block T p b)))"
  proof (cases "dc_Applied (snd (apply_block T p b))")
    case True
    then show ?thesis by (rule apply_block_applied) simp
  next
    case False
    then have "bl_Text (fst (apply_block T p b)) = bl_Text b"
      using apply_block_changed [of T p b] by blast
    then show ?thesis using assms(2) by simp
  qed
qed

section \<open>Properties\<close>

text \<open>C2. \<open>Apply\<close> implements its specification: each live, selected block gets the text of the
  first compressor whose proposal is valid UTF-8, countable and saves tokens, every other block
  and every other field is unchanged; there is one decision per block, in order, under the block's
  ID, applied exactly where the text was replaced, with the savings of that proposal.\<close>

theorem Apply_first_acceptable:
  "res_Blocks (Apply T p bs) =
     map (\<lambda>b. if live_zone b
              then (case first_acceptable T p b (pl_compressors p) of
                      None \<Rightarrow> b | Some (t, _) \<Rightarrow> b\<lparr>bl_Text := t\<rparr>)
              else b) bs \<and>
   map (\<lambda>d. (dc_BlockID d, dc_Applied d)) (res_Decisions (Apply T p bs)) =
     map (\<lambda>b. (bl_ID b, live_zone b \<and> first_acceptable T p b (pl_compressors p) \<noteq> None)) bs \<and>
   map dc_Savings (filter dc_Applied (res_Decisions (Apply T p bs))) =
     map (\<lambda>b. snd (the (first_acceptable T p b (pl_compressors p))))
       (filter (\<lambda>b. live_zone b \<and> first_acceptable T p b (pl_compressors p) \<noteq> None) bs)"
proof (intro conjI)
  have a: "dc_Applied (snd (apply_block T p b)) \<longleftrightarrow>
      live_zone b \<and> first_acceptable T p b (pl_compressors p) \<noteq> None" for b
    using apply_block_live [of b T p] by (cases "live_zone b") (simp_all add: apply_block_not_live new_decision_def)
  show "map (\<lambda>d. (dc_BlockID d, dc_Applied d)) (res_Decisions (Apply T p bs)) =
     map (\<lambda>b. (bl_ID b, live_zone b \<and> first_acceptable T p b (pl_compressors p) \<noteq> None)) bs"
    by (simp add: Apply_Decisions a apply_block_ID)
  show "res_Blocks (Apply T p bs) =
     map (\<lambda>b. if live_zone b
              then (case first_acceptable T p b (pl_compressors p) of
                      None \<Rightarrow> b | Some (t, _) \<Rightarrow> b\<lparr>bl_Text := t\<rparr>)
              else b) bs"
    using apply_block_live by (auto simp: Apply_Blocks apply_block_not_live)
  have sv: "dc_Savings (snd (apply_block T p b)) = snd (the (first_acceptable T p b (pl_compressors p)))"
    if "live_zone b \<and> first_acceptable T p b (pl_compressors p) \<noteq> None" for b
    using apply_block_live [of b T p] that by auto
  show "map dc_Savings (filter dc_Applied (res_Decisions (Apply T p bs))) =
     map (\<lambda>b. snd (the (first_acceptable T p b (pl_compressors p))))
       (filter (\<lambda>b. live_zone b \<and> first_acceptable T p b (pl_compressors p) \<noteq> None) bs)"
    by (simp add: Apply_Decisions filter_map comp_def a sv cong: map_cong)
qed

text \<open>Two compressors for the witnesses: one that shortens, one that breaks the text.\<close>

definition demo_block :: "string \<Rightarrow> block" where
  "demo_block role = newBlock ascii_tables ProviderOpenAI ''$.messages[0].content'' role ''aa bb cc dd''"

definition demo_pipeline :: pipeline where
  "demo_pipeline = NewPipeline \<lparr>opt_Compressor = None,
     opt_Compressors = [\<lambda>b. Inl ''broken'', \<lambda>b. Inr (text_proposal ''aa'')], opt_Counters = None,
     opt_ProviderModel = \<lparr>pm_Provider = ''openai'', pm_Model = []\<rparr>\<rparr>"

lemmas demo_eval = demo_block_def demo_pipeline_def NewPipeline_def NewCounterSet_def newBlock_def
  classifySource_def

text \<open>Blocks outside the live zone are never rewritten, whatever the compressors do, and
  their decision says so without an error.\<close>

theorem Apply_keeps_stable_blocks:
  assumes "i < length bs" and "bl_Selected (bs ! i) \<longrightarrow> bl_Stability (bs ! i) \<noteq> StabilityLive"
  shows "res_Blocks (Apply T p bs) ! i = bs ! i \<and>
    dc_Reason (res_Decisions (Apply T p bs) ! i) = DecisionNotSelected \<and>
    \<not> dc_Applied (res_Decisions (Apply T p bs) ! i) \<and> dc_Err (res_Decisions (Apply T p bs) ! i) = None"
proof -
  have "\<not> live_zone (bs ! i)" using assms(2) by (auto simp: live_zone_def)
  then show ?thesis
    using assms(1) by (simp add: Apply_Blocks Apply_Decisions apply_block_not_live new_decision_def)
qed

lemma Apply_keeps_stable_blocks_witness:
  "res_Blocks (Apply ascii_tables demo_pipeline [demo_block ''tool'', demo_block ''user'']) ! 1 =
     demo_block ''user''"
proof -
  have "bl_Selected ([demo_block ''tool'', demo_block ''user''] ! 1) \<longrightarrow>
      bl_Stability ([demo_block ''tool'', demo_block ''user''] ! 1) \<noteq> StabilityLive"
    by (simp add: demo_eval)
  then show ?thesis
    using Apply_keeps_stable_blocks [of 1 "[demo_block ''tool'', demo_block ''user'']"] by simp
qed

text \<open>C3. With no exact counter registered, a rewrite the pipeline reports as applied is valid
  UTF-8, was proposed by one of its compressors, and has a strictly smaller token estimate than
  the text it replaces; the decision's delta is the difference.\<close>

theorem Apply_applied_saves:
  assumes "i < length bs" and "dc_Applied (res_Decisions (Apply T p bs) ! i)"
    and "pl_counters p = NewCounterSet"
    and "go_string (bl_Text (bs ! i))" and "go_string (bl_Text (res_Blocks (Apply T p bs) ! i))"
  shows "ValidString (bl_Text (res_Blocks (Apply T p bs) ! i)) \<and>
    (\<exists>c pr. c \<in> set (pl_compressors p) \<and> c (bs ! i) = Inr pr \<and>
       proposalText pr = Some (bl_Text (res_Blocks (Apply T p bs) ! i))) \<and>
    ct_Tokens (Estimate T (bl_Text (res_Blocks (Apply T p bs) ! i))) <
      ct_Tokens (Estimate T (bl_Text (bs ! i))) \<and>
    sv_Delta (dc_Savings (res_Decisions (Apply T p bs) ! i)) =
      ct_Tokens (Estimate T (bl_Text (bs ! i))) -
      ct_Tokens (Estimate T (bl_Text (res_Blocks (Apply T p bs) ! i)))"
proof -
  define b where "b = bs ! i"
  have r: "res_Blocks (Apply T p bs) ! i = fst (apply_block T p b)"
    "res_Decisions (Apply T p bs) ! i = snd (apply_block T p b)"
    using assms(1) by (simp_all add: Apply_Blocks Apply_Decisions b_def)
  show ?thesis
  proof (rule apply_block_applied [OF assms(2) [unfolded r]])
    fix t sv c pr
    assume c: "c \<in> set (pl_compressors p)" "c b = Inr pr" "proposalText pr = Some t" "ValidString t"
      and sv: "sv_Improved sv" "Savings T (pl_counters p) (pl_providerModel p) (bl_Text b) t = Inr sv"
      and res: "fst (apply_block T p b) = b\<lparr>bl_Text := t\<rparr>" "dc_Savings (snd (apply_block T p b)) = sv"
    have g: "go_string (bl_Text b)" "go_string t" using assms(4,5) r res by (simp_all add: b_def)
    have "sv_Delta sv = ct_Tokens (Estimate T (bl_Text b)) - ct_Tokens (Estimate T t)"
      and "0 < sv_Delta sv"
      using Savings_Inr [OF sv(2)] sv(1) estimator.delta_exact [OF g, of T] assms(3)
      by (auto simp: Count_estimated)
    then show ?thesis using c res r by (auto simp: b_def [symmetric])
  qed
qed

lemma demo_tool_live: "live_zone (demo_block ''tool'')"
  by (simp add: demo_block_def newBlock_live)

lemma demo_Estimates:
  "ct_Tokens (Estimate ascii_tables ''aa bb cc dd'') = 4" "ct_Tokens (Estimate ascii_tables ''aa'') = 1"
  by (simp_all add: Estimate_def Let_def zero_count_def countWords_def countNonSpace_def
      countPunctuation_def FieldsFunc_def word_separator_def ceil_div_def go_eval)

lemma demo_evaluate:
  "\<exists>sv. evaluateProposal ascii_tables (demo_pipeline\<lparr>pl_compressors := cs\<rparr>) (demo_block ''tool'')
     (text_proposal ''aa'') = Inr (''aa'', sv, DecisionApplied)"
  using Savings_estimates [of "''aa bb cc dd''" "''aa''" ascii_tables "\<lparr>pm_Provider = ''openai'', pm_Model = []\<rparr>"]
  by (simp add: demo_eval evaluateProposal_def proposalText_def text_proposal_def
      go_string_def demo_Estimates ValidString_ascii)

lemma demo_first:
  "\<exists>sv. first_acceptable ascii_tables demo_pipeline (demo_block ''tool'') (pl_compressors demo_pipeline) =
     Some (''aa'', sv)"
  using demo_evaluate [of "pl_compressors demo_pipeline"]
  by (auto simp: acceptable_def demo_pipeline_def NewPipeline_def)

lemma demo_apply:
  "fst (apply_block ascii_tables demo_pipeline (demo_block ''tool'')) = (demo_block ''tool'')\<lparr>bl_Text := ''aa''\<rparr>"
  "dc_Applied (snd (apply_block ascii_tables demo_pipeline (demo_block ''tool'')))"
  using apply_block_live [OF demo_tool_live, of ascii_tables demo_pipeline] demo_first by auto

lemma Apply_applied_saves_witness:
  "sv_Delta (dc_Savings (res_Decisions (Apply ascii_tables demo_pipeline [demo_block ''tool'']) ! 0)) = 3"
proof -
  let ?A = "Apply ascii_tables demo_pipeline [demo_block ''tool'']"
  have b: "bl_Text (demo_block ''tool'') = ''aa bb cc dd''" by (simp add: demo_block_def)
  have t: "bl_Text (res_Blocks ?A ! 0) = ''aa''" by (simp add: Apply_Blocks demo_apply)
  have "ct_Tokens (Estimate ascii_tables (bl_Text ([demo_block ''tool''] ! 0))) -
      ct_Tokens (Estimate ascii_tables (bl_Text (res_Blocks ?A ! 0))) = 3"
    using demo_Estimates by (simp only: t nth_Cons_0 b)
  moreover have "dc_Applied (res_Decisions ?A ! 0)" by (simp add: Apply_Decisions demo_apply)
  moreover have "pl_counters demo_pipeline = NewCounterSet" by (simp add: demo_eval)
  moreover have "go_string (bl_Text ([demo_block ''tool''] ! 0))" "go_string (bl_Text (res_Blocks ?A ! 0))"
    by (simp_all only: t nth_Cons_0 b) (simp_all add: go_string_def)
  ultimately show ?thesis
    using Apply_applied_saves [of 0 "[demo_block ''tool'']" ascii_tables demo_pipeline] by simp
qed

lemma count_decisions:
  "fold count_decision ds \<lparr>st_Applied = wrap64 a, st_Skipped = wrap64 s, st_TokenDelta = wrap64 t\<rparr> =
     \<lparr>st_Applied = wrap64 (a + int (length (filter dc_Applied ds))),
      st_Skipped = wrap64 (s + int (length (filter (\<lambda>d. \<not> dc_Applied d) ds))),
      st_TokenDelta = wrap64 (t + (\<Sum>d\<leftarrow>filter dc_Applied ds. sv_Delta (dc_Savings d)))\<rparr>"
proof (induction ds arbitrary: a s t)
  case (Cons d ds)
  show ?case
    using Cons [of "if dc_Applied d then a + 1 else a" "if dc_Applied d then s else s + 1"
        "if dc_Applied d then t + sv_Delta (dc_Savings d) else t"]
    by (cases "dc_Applied d") (simp_all add: count_decision_def wrap64_wrap64_add add.assoc)
qed simp

text \<open>The statistics are those of the decisions, as 64-bit sums: how many were applied, how
  many were not, and the total of the applied savings; every block is counted once.\<close>

theorem Apply_statistics:
  "res_Stats (Apply T p bs) =
     (let ds = res_Decisions (Apply T p bs)
      in \<lparr>st_Applied = wrap64 (int (length (filter dc_Applied ds))),
          st_Skipped = wrap64 (int (length bs) - int (length (filter dc_Applied ds))),
          st_TokenDelta = wrap64 (\<Sum>d\<leftarrow>filter dc_Applied ds. sv_Delta (dc_Savings d))\<rparr>)"
proof -
  let ?ds = "map (\<lambda>b. snd (apply_block T p b)) bs"
  have "fold (\<lambda>b. count_decision (snd (apply_block T p b))) bs = fold count_decision ?ds"
    by (simp add: fold_map comp_def)
  moreover have "int (length (filter (\<lambda>d. \<not> dc_Applied d) ?ds)) =
      int (length bs) - int (length (filter dc_Applied ?ds))"
    using sum_length_filter_compl [of dc_Applied ?ds] by simp
  ultimately show ?thesis
    using count_decisions [of ?ds 0 0 0]
    by (simp add: Apply_Stats Apply_Decisions Let_def wrap64_def)
qed

text \<open>With the native compressor alone, on blocks of valid text, no block is refused for its
  encoding, every decision has a reason, and every resulting text is valid UTF-8.\<close>

theorem Apply_native_valid:
  assumes "pl_compressors p = [NativeCompressor]" and "list_all (\<lambda>b. ValidString (bl_Text b)) bs"
  shows "list_all (\<lambda>d. dc_Reason d \<notin> {ReasonUnset, DecisionInvalidUTF8}) (res_Decisions (Apply T p bs)) \<and>
         list_all (\<lambda>b. ValidString (bl_Text b)) (res_Blocks (Apply T p bs))"
  using assms(2) native_apply_block [OF assms(1)]
  by (auto simp: Apply_Blocks Apply_Decisions list_all_iff apply_block_reason)

lemma Apply_native_valid_witness:
  "list_all (\<lambda>b. ValidString (bl_Text b))
     (res_Blocks (Apply ascii_tables (demo_pipeline\<lparr>pl_compressors := [NativeCompressor]\<rparr>)
        [demo_block ''tool'', demo_block ''user'']))"
  using Apply_native_valid [of "demo_pipeline\<lparr>pl_compressors := [NativeCompressor]\<rparr>"
      "[demo_block ''tool'', demo_block ''user'']" ascii_tables]
  by (simp add: demo_block_def ValidString_ascii)

end
