(* ===== verification/Go_Json_Decode.thy ===== *)
theory Go_Json_Decode
  imports Go_Json_Scan
begin

text \<open>
  \<open>json.Unmarshal\<close> as the program uses it. A text the scanner accepts is looked at one level
  deep: \<open>json_shape\<close> says whether it is null, a string (decoded), an array or an object of raw
  values, or something else (a number or a boolean). The decoders of the program's structs are
  written on shapes; a \<open>json.RawMessage\<close> is the raw text of a value, empty when absent.
\<close>

section \<open>String literals\<close>

definition hex_val :: "char \<Rightarrow> nat" where
  "hex_val c = (if is_digit c then byte c - 48 else if 97 \<le> byte c then byte c - 87 else byte c - 55)"

text \<open>\<open>getu4\<close>: the value of \<open>\uXXXX\<close> at the head of the text.\<close>

definition getu4 :: "string \<Rightarrow> nat option" where
  "getu4 s = (case s of
     b # u # h1 # h2 # h3 # h4 # _ \<Rightarrow>
       if b = BACKSLASH \<and> u = CHR ''u'' \<and> is_hex h1 \<and> is_hex h2 \<and> is_hex h3 \<and> is_hex h4
       then Some (((hex_val h1 * 16 + hex_val h2) * 16 + hex_val h3) * 16 + hex_val h4)
       else None
   | _ \<Rightarrow> None)"

text \<open>\<open>utf16.DecodeRune\<close>; \<open>None\<close> for its replacement character.\<close>

definition surrogate_pair :: "nat \<Rightarrow> nat option \<Rightarrow> nat option" where
  "surrogate_pair r1 r2 = (case r2 of None \<Rightarrow> None | Some r2 \<Rightarrow>
     if 55296 \<le> r1 \<and> r1 < 56320 \<and> 56320 \<le> r2 \<and> r2 < 57344
     then Some ((r1 - 55296) * 1024 + (r2 - 56320) + 65536) else None)"

definition is_surrogate :: "nat \<Rightarrow> bool" where
  "is_surrogate r \<longleftrightarrow> 55296 \<le> r \<and> r < 57344"

definition simple_escape :: "char \<Rightarrow> char option" where
  "simple_escape c =
     (if c = QUOTE \<or> c = BACKSLASH \<or> c = CHR ''/'' \<or> c = CHR 0x27 then Some c
      else if c = CHR ''b'' then Some (CHR 0x08)
      else if c = CHR ''f'' then Some (CHR 0x0C)
      else if c = CHR ''n'' then Some NL
      else if c = CHR ''r'' then Some CR
      else if c = CHR ''t'' then Some TAB
      else None)"

text \<open>
  \<open>unquoteBytes\<close> between the quotes. Each step consumes at least one byte of the text, so its
  length is enough fuel.
\<close>

fun unquote_body :: "nat \<Rightarrow> string \<Rightarrow> string option" where
  "unquote_body 0 s = (if s = [] then Some [] else None)"
| "unquote_body (Suc n) s =
     (if s = [] then Some []
      else if hd s = BACKSLASH then
        (if tl s = [] then None
         else if hd (tl s) = CHR ''u'' then
           (case getu4 s of
              None \<Rightarrow> None
            | Some r \<Rightarrow>
                (case (if is_surrogate r then surrogate_pair r (getu4 (drop 6 s)) else None) of
                   Some dec \<Rightarrow> map_option ((@) (EncodeRune dec)) (unquote_body n (drop 12 s))
                 | None \<Rightarrow>
                     map_option ((@) (EncodeRune (if is_surrogate r then RuneError else r)))
                       (unquote_body n (drop 6 s))))
         else (case simple_escape (hd (tl s)) of
                 None \<Rightarrow> None
               | Some c \<Rightarrow> map_option ((#) c) (unquote_body n (drop 2 s))))
      else if hd s = QUOTE \<or> byte (hd s) < 32 then None
      else if byte (hd s) < 128 then map_option ((#) (hd s)) (unquote_body n (tl s))
      else map_option ((@) (EncodeRune (fst (DecodeRune s))))
             (unquote_body n (drop (snd (DecodeRune s)) s)))"

definition unquote :: "string \<Rightarrow> string option" where
  "unquote s =
     (if length s < 2 \<or> hd s \<noteq> QUOTE \<or> last s \<noteq> QUOTE then None
      else unquote_body (length s) (butlast (tl s)))"

section \<open>Shapes\<close>

datatype json_shape =
    ShNull
  | ShString string
  | ShArray "string list"
  | ShObject "(string \<times> string) list"
  | ShOther

fun prepend :: "string \<Rightarrow> string list \<Rightarrow> string list" where
  "prepend x [] = [x]"
| "prepend x (p # ps) = (x @ p) # ps"

text \<open>
  The pieces of a valid text between the separators that stand outside all brackets (the
  number is the depth of the open ones) and string literals (inside one when the flag is set).
\<close>

fun split_top :: "char \<Rightarrow> nat \<Rightarrow> bool \<Rightarrow> string \<Rightarrow> string list" where
  "split_top sep d q [] = [[]]"
| "split_top sep d True [c] = [[c]]"
| "split_top sep d True (c # e # cs) =
     (if c = BACKSLASH then prepend [c, e] (split_top sep d True cs)
      else prepend [c] (split_top sep d (c \<noteq> QUOTE) (e # cs)))"
| "split_top sep d False (c # cs) =
     (if c = QUOTE then prepend [c] (split_top sep d True cs)
      else if c = sep \<and> d = 0 then [] # split_top sep 0 False cs
      else if c = CHR ''['' \<or> c = CHR ''{'' then prepend [c] (split_top sep (Suc d) False cs)
      else if c = CHR '']'' \<or> c = CHR ''}'' then prepend [c] (split_top sep (d - 1) False cs)
      else prepend [c] (split_top sep d False cs))"

definition json_trim :: "string \<Rightarrow> string" where
  "json_trim s = rev (dropWhile json_space (rev (dropWhile json_space s)))"

text \<open>The members of an array or object, given what stands between its brackets.\<close>

definition members :: "string \<Rightarrow> string list" where
  "members body =
     (if json_trim body = [] then [] else map json_trim (split_top (CHR '','') 0 False body))"

definition inner :: "string \<Rightarrow> string" where
  "inner s = butlast (tl s)"

definition key_value :: "string \<Rightarrow> string \<times> string" where
  "key_value member =
     (case split_top (CHR '':'') 0 False member of
        k # v # _ \<Rightarrow> (case unquote (json_trim k) of None \<Rightarrow> [] | Some key \<Rightarrow> key, json_trim v)
      | _ \<Rightarrow> ([], []))"

definition shape_of :: "string \<Rightarrow> json_shape" where
  "shape_of raw =
     (let s = json_trim raw
      in if s = [] then ShOther
         else if hd s = CHR ''n'' then ShNull
         else if hd s = QUOTE then (case unquote s of None \<Rightarrow> ShOther | Some t \<Rightarrow> ShString t)
         else if hd s = CHR ''['' then ShArray (members (inner s))
         else if hd s = CHR ''{'' then ShObject (map key_value (members (inner s)))
         else ShOther)"

text \<open>The first pass of \<open>json.Unmarshal\<close>: a syntax error, or the shape of the value.\<close>

definition json_shape :: "string \<Rightarrow> json_shape option" where
  "json_shape data = (if json_Valid data then Some (shape_of data) else None)"

section \<open>Decoding fields\<close>

text \<open>
  A decoder returns \<open>None\<close> for a mismatch of types, which makes \<open>Unmarshal\<close> return an error.
  Null leaves a string, a struct or a slice element as it is.
\<close>

definition decode_string :: "string \<Rightarrow> string \<Rightarrow> string option" where
  "decode_string prev raw =
     (case shape_of raw of ShString t \<Rightarrow> Some t | ShNull \<Rightarrow> Some prev | _ \<Rightarrow> None)"

text \<open>\<open>json.Unmarshal(raw, &text)\<close> with a fresh \<open>text\<close>.\<close>

definition Unmarshal_string :: "string \<Rightarrow> string option" where
  "Unmarshal_string raw = (if json_Valid raw then decode_string [] raw else None)"

text \<open>
  The members of an object in order, each given to the decoder of the field its key names; a
  key names a field when it equals the field's name up to letter case.
\<close>

fun decode_fields :: "(string \<Rightarrow> string \<Rightarrow> 'a \<Rightarrow> 'a option) \<Rightarrow> (string \<times> string) list \<Rightarrow> 'a \<Rightarrow> 'a option" where
  "decode_fields f [] x = Some x"
| "decode_fields f (kv # kvs) x =
     (case f (fst kv) (snd kv) x of None \<Rightarrow> None | Some y \<Rightarrow> decode_fields f kvs y)"

definition decode_struct :: "(string \<Rightarrow> string \<Rightarrow> 'a \<Rightarrow> 'a option) \<Rightarrow> 'a \<Rightarrow> string \<Rightarrow> 'a option" where
  "decode_struct f prev raw =
     (case shape_of raw of
        ShObject kvs \<Rightarrow> decode_fields f kvs prev
      | ShNull \<Rightarrow> Some prev
      | _ \<Rightarrow> None)"

text \<open>
  Decoding an array into a slice: an element is decoded over the one the slice already holds
  at its place, or over the zero value.
\<close>

fun decode_elems :: "('a \<Rightarrow> string \<Rightarrow> 'a option) \<Rightarrow> 'a \<Rightarrow> 'a list \<Rightarrow> string list \<Rightarrow> 'a list option" where
  "decode_elems f zero prev [] = Some []"
| "decode_elems f zero prev (raw # raws) =
     (case f (case prev of [] \<Rightarrow> zero | p # _ \<Rightarrow> p) raw of
        None \<Rightarrow> None
      | Some x \<Rightarrow> map_option ((#) x) (decode_elems f zero (tl prev) raws))"

definition decode_slice :: "('a \<Rightarrow> string \<Rightarrow> 'a option) \<Rightarrow> 'a \<Rightarrow> 'a list \<Rightarrow> string \<Rightarrow> 'a list option" where
  "decode_slice f zero prev raw =
     (case shape_of raw of
        ShArray raws \<Rightarrow> decode_elems f zero prev raws
      | ShNull \<Rightarrow> Some []
      | _ \<Rightarrow> None)"

definition Unmarshal_slice :: "('a \<Rightarrow> string \<Rightarrow> 'a option) \<Rightarrow> 'a \<Rightarrow> string \<Rightarrow> 'a list option" where
  "Unmarshal_slice f zero raw = (if json_Valid raw then decode_slice f zero [] raw else None)"

text \<open>
  \<open>Decoder.Decode\<close> reads the first JSON value of the body and ignores what follows it. The value
  ends with the bracket that closes it, with the byte that cannot continue it, or with the body.
\<close>

fun first_value :: "scanner \<Rightarrow> string \<Rightarrow> string \<Rightarrow> string option" where
  "first_value sc acc [] = (if scan_eof sc \<and> acc \<noteq> [] then Some acc else None)"
| "first_value sc acc (c # cs) =
     (if snd (scan_step sc c) = ScanError then
        (if fst sc = EndValue \<and> snd sc = [] then Some acc else None)
      else if snd (scan_step sc c) = DropSpace then
        (if fst (fst (scan_step sc c)) = EndTop then Some acc
         else first_value (fst (scan_step sc c)) acc cs)
      else if fst (fst (scan_step sc c)) = EndTop then Some (acc @ [c])
      else first_value (fst (scan_step sc c)) (acc @ [c]) cs)"

section \<open>Encoding\<close>

text \<open>A string as \<open>json.Marshal\<close> prints it, with HTML characters and line separators escaped.\<close>

definition hex_lower :: "nat \<Rightarrow> char" where
  "hex_lower n = ''0123456789abcdef'' ! (n mod 16)"

definition quote_chunk :: "rune \<times> string \<Rightarrow> string" where
  "quote_chunk ch =
     (let r = fst ch in
      if bad_chunk ch then BACKSLASH # ''ufffd''
      else if r = 34 then [BACKSLASH, QUOTE]
      else if r = 92 then [BACKSLASH, BACKSLASH]
      else if r = 8 then BACKSLASH # ''b''
      else if r = 12 then BACKSLASH # ''f''
      else if r = 10 then BACKSLASH # ''n''
      else if r = 13 then BACKSLASH # ''r''
      else if r = 9 then BACKSLASH # ''t''
      else if r < 32 \<or> r = 38 \<or> r = 60 \<or> r = 62
      then BACKSLASH # ''u00'' @ [hex_lower (r div 16), hex_lower r]
      else if r = 8232 \<or> r = 8233 then BACKSLASH # ''u202'' @ [hex_lower r]
      else snd ch)"

definition json_quote :: "string \<Rightarrow> string" where
  "json_quote s = QUOTE # concat (map quote_chunk (runes s)) @ [QUOTE]"

definition json_object :: "(string \<times> string) list \<Rightarrow> string" where
  "json_object kvs =
     ''{'' @ Join (map (\<lambda>kv. json_quote (fst kv) @ '':'' @ snd kv) kvs) '','' @ ''}''"

section \<open>Numbers\<close>

text \<open>The exponent as \<open>strconv\<close> reads it: digits are no longer added once it has reached 10000.\<close>

definition read_exponent :: "string \<Rightarrow> int" where
  "read_exponent t =
     (let digits = (if HasPrefix t ''-'' \<or> HasPrefix t ''+'' then tl t else t);
          e = foldl (\<lambda>e c. if e < 10000 then e * 10 + int (byte c - 48) else e) 0 digits
      in if HasPrefix t ''-'' then - e else e)"

text \<open>Whether a number literal is in the range of \<open>float64\<close>, as \<open>strconv.ParseFloat\<close> decides.\<close>

definition float_in_range :: "string \<Rightarrow> bool" where
  "float_in_range raw =
     (let s = (if HasPrefix raw ''-'' then tl raw else raw);
          i = takeWhile is_digit s; s1 = dropWhile is_digit s;
          f = (if HasPrefix s1 ''.'' then takeWhile is_digit (tl s1) else []);
          s2 = (if HasPrefix s1 ''.'' then dropWhile is_digit (tl s1) else s1);
          e = (if s2 = [] then 0 else read_exponent (tl s2));
          m = dec_val (i @ f); x = e - int (length f); limit = 2 ^ 1024 - 2 ^ 970
      in if 0 \<le> x then m * 10 ^ nat x < limit else m < limit * 10 ^ nat (- x))"

definition decode_float :: "string \<Rightarrow> string \<Rightarrow> string option" where
  "decode_float prev raw =
     (case shape_of raw of
        ShNull \<Rightarrow> Some prev
      | ShOther \<Rightarrow>
          if raw \<noteq> [] \<and> (hd raw = CHR ''-'' \<or> is_digit (hd raw)) \<and> float_in_range raw then Some raw else None
      | _ \<Rightarrow> None)"

section \<open>Decoded text is valid UTF-8\<close>

lemma ValidString_whole:
  "1 < length s \<Longrightarrow> snd (DecodeRune s) = length s \<Longrightarrow> ValidString s"
  by (cases "s = []") (simp_all add: ValidString_def runes_step bad_chunk_def)

lemma ValidString_EncodeRune [simp]: "ValidString (EncodeRune r)"
proof -
  consider "r < 128" | "128 \<le> r" "r < 2048" | "2048 \<le> r" "1114111 < r \<or> (55296 \<le> r \<and> r \<le> 57343)"
    | "2048 \<le> r" "r < 65536" "r < 55296 \<or> 57343 < r" | "65536 \<le> r" "r \<le> 1114111"
    by linarith
  then show ?thesis
  proof cases
    case 1
    then show ?thesis by (simp add: EncodeRune_def ValidString_ascii)
  next
    case 2
    then have "2 \<le> r div 64" "r div 64 < 32" "r mod 64 < 64" by auto
    with 2 show ?thesis
      by (intro ValidString_whole) (simp_all add: EncodeRune_def DecodeRune_def is_cont_def)
  next
    case 3
    then show ?thesis
      by (intro ValidString_whole) (simp_all add: EncodeRune_def DecodeRune_def is_cont_def second_ok_def)
  next
    case 4
    define q where "q = r div 64"
    have q: "r div 4096 = q div 64" by (simp add: q_def div_mult2_eq [symmetric])
    have b: "q div 64 < 16" "q mod 64 < 64" "r mod 64 < 64" using 4 by (auto simp: q_def)
    have "32 \<le> q" using 4 by (simp add: q_def)
    then have lo: "q div 64 = 0 \<Longrightarrow> 32 \<le> q mod 64" by simp
    have "q < 864 \<or> 896 \<le> q" using 4 by (auto simp: q_def)
    then have hi: "q div 64 = 13 \<Longrightarrow> q mod 64 < 32" using div_mult_mod_eq [of q 64] by linarith
    show ?thesis
      using 4 b lo hi
      by (intro ValidString_whole)
        (auto simp: EncodeRune_def DecodeRune_def is_cont_def second_ok_def Let_def q q_def [symmetric])
  next
    case 5
    define q where "q = r div 4096"
    have q: "r div 262144 = q div 64" by (simp add: q_def div_mult2_eq [symmetric])
    have b: "q div 64 < 5" "q mod 64 < 64" "r div 64 mod 64 < 64" "r mod 64 < 64"
      using 5 by (auto simp: q_def)
    have "16 \<le> q" "q < 272" using 5 by (auto simp: q_def)
    then have lo: "q div 64 = 0 \<Longrightarrow> 16 \<le> q mod 64" and hi: "q div 64 = 4 \<Longrightarrow> q mod 64 < 16"
      using div_mult_mod_eq [of q 64] by auto
    show ?thesis
      using 5 b lo hi
      by (intro ValidString_whole)
        (auto simp: EncodeRune_def DecodeRune_def is_cont_def second_ok_def Let_def q q_def [symmetric])
  qed
qed

lemma simple_escape_ascii: "simple_escape c = Some d \<Longrightarrow> byte d < 128"
  by (auto simp: simple_escape_def split: if_splits)

lemma unquote_body_valid: "unquote_body n s = Some t \<Longrightarrow> ValidString t"
proof (induction n s arbitrary: t rule: unquote_body.induct)
  case (2 n s)
  then show ?case
    by (auto simp: ValidString_ascii_Cons ValidString_append dest!: simple_escape_ascii
        split: if_splits option.splits)
qed (auto split: if_splits)

lemma unquote_valid: "unquote s = Some t \<Longrightarrow> ValidString t"
  by (auto simp: unquote_def dest: unquote_body_valid split: if_splits)

lemma decode_string_valid: "decode_string prev raw = Some t \<Longrightarrow> ValidString prev \<Longrightarrow> ValidString t"
  by (auto simp: decode_string_def shape_of_def Let_def dest: unquote_valid
      split: json_shape.splits if_splits option.splits)

lemma Unmarshal_string_valid: "Unmarshal_string raw = Some t \<Longrightarrow> ValidString t"
  by (auto simp: Unmarshal_string_def dest: decode_string_valid split: if_splits)

text \<open>The fuel is enough: plain text between quotes is decoded to itself.\<close>

definition plain_char :: "char \<Rightarrow> bool" where
  "plain_char c \<longleftrightarrow> c \<noteq> QUOTE \<and> c \<noteq> BACKSLASH \<and> 32 \<le> byte c \<and> byte c < 128"

lemma unquote_body_plain: "list_all plain_char s \<Longrightarrow> length s \<le> n \<Longrightarrow> unquote_body n s = Some s"
proof (induction s arbitrary: n)
  case Nil
  then show ?case by (cases n) simp_all
next
  case (Cons c s)
  then show ?case by (cases n) (simp_all add: plain_char_def)
qed

lemma unquote_plain: "list_all plain_char s \<Longrightarrow> unquote (QUOTE # s @ [QUOTE]) = Some s"
  by (simp add: unquote_def unquote_body_plain del: unquote_body.simps)

lemmas json_decode_eval [go_eval] = hex_val_def getu4_def surrogate_pair_def is_surrogate_def
  simple_escape_def unquote_def json_trim_def members_def inner_def key_value_def shape_of_def
  json_shape_def decode_string_def Unmarshal_string_def decode_struct_def decode_slice_def
  Unmarshal_slice_def

end
