(* ===== verification/Live_Zone.thy ===== *)
theory Live_Zone
  imports Blocks Go_Json_Decode
begin

text \<open>
  The rest of \<open>internal/compress/livezone.go\<close>: decoding an OpenAI or Anthropic request and
  listing its text blocks. A \<open>json.RawMessage\<close> field is the raw text, empty when absent.
  Every way a decode can fail is the error \<open>JSONError\<close>.

  One corner is simpler than the library: when an object gives the messages field three times or
  more, with a shorter array between two longer ones, Go's slice still holds the elements beyond
  its length and decodes over them, where the model starts from the zero value.
\<close>

datatype detect_error = JSONError | UnsupportedProvider string

record request =
  rq_Provider :: string
  rq_Body :: string

record message =
  ms_Role :: string
  ms_Content :: string

record part =
  pt_Type :: string
  pt_Text :: string
  pt_Content :: string

record anthropic_request =
  ar_System :: string
  ar_Messages :: "message list"

section \<open>Decoding\<close>

definition zero_message :: message where
  "zero_message = \<lparr>ms_Role = [], ms_Content = []\<rparr>"

definition zero_part :: part where
  "zero_part = \<lparr>pt_Type = [], pt_Text = [], pt_Content = []\<rparr>"

definition message_field :: "string \<Rightarrow> string \<Rightarrow> message \<Rightarrow> message option" where
  "message_field key raw m =
     (if EqualFold key ''role''
      then map_option (\<lambda>r. m\<lparr>ms_Role := r\<rparr>) (decode_string (ms_Role m) raw)
      else if EqualFold key ''content'' then Some (m\<lparr>ms_Content := raw\<rparr>)
      else Some m)"

definition decode_message :: "message \<Rightarrow> string \<Rightarrow> message option" where
  "decode_message prev raw = decode_struct message_field prev raw"

text \<open>The anonymous struct of \<open>openAIContentText\<close> has a type and a text only.\<close>

definition openai_part_field :: "string \<Rightarrow> string \<Rightarrow> part \<Rightarrow> part option" where
  "openai_part_field key raw p =
     (if EqualFold key ''type''
      then map_option (\<lambda>t. p\<lparr>pt_Type := t\<rparr>) (decode_string (pt_Type p) raw)
      else if EqualFold key ''text''
      then map_option (\<lambda>t. p\<lparr>pt_Text := t\<rparr>) (decode_string (pt_Text p) raw)
      else Some p)"

definition anthropic_part_field :: "string \<Rightarrow> string \<Rightarrow> part \<Rightarrow> part option" where
  "anthropic_part_field key raw p =
     (if EqualFold key ''content'' then Some (p\<lparr>pt_Content := raw\<rparr>)
      else openai_part_field key raw p)"

definition Unmarshal_parts :: "(string \<Rightarrow> string \<Rightarrow> part \<Rightarrow> part option) \<Rightarrow> string \<Rightarrow> part list option" where
  "Unmarshal_parts fld raw = Unmarshal_slice (decode_struct fld) zero_part raw"

definition openai_request_field :: "string \<Rightarrow> string \<Rightarrow> message list \<Rightarrow> message list option" where
  "openai_request_field key raw msgs =
     (if EqualFold key ''messages'' then decode_slice decode_message zero_message msgs raw
      else Some msgs)"

definition anthropic_request_field ::
  "string \<Rightarrow> string \<Rightarrow> anthropic_request \<Rightarrow> anthropic_request option" where
  "anthropic_request_field key raw rq =
     (if EqualFold key ''system'' then Some (rq\<lparr>ar_System := raw\<rparr>)
      else map_option (\<lambda>ms. rq\<lparr>ar_Messages := ms\<rparr>) (openai_request_field key raw (ar_Messages rq)))"

definition Unmarshal_openAIRequest :: "string \<Rightarrow> message list option" where
  "Unmarshal_openAIRequest body =
     (if json_Valid body then decode_struct openai_request_field [] body else None)"

definition Unmarshal_anthropicRequest :: "string \<Rightarrow> anthropic_request option" where
  "Unmarshal_anthropicRequest body =
     (if json_Valid body
      then decode_struct anthropic_request_field \<lparr>ar_System = [], ar_Messages = []\<rparr> body else None)"

section \<open>OpenAI\<close>

definition openAIContentText :: "string \<Rightarrow> string list" where
  "openAIContentText raw =
     (case Unmarshal_string raw of
        Some t \<Rightarrow> [t]
      | None \<Rightarrow>
          (case Unmarshal_parts openai_part_field raw of
             None \<Rightarrow> []
           | Some parts \<Rightarrow> filter (\<lambda>t. t \<noteq> []) (map pt_Text parts)))"

definition content_path :: "nat \<Rightarrow> string" where
  "content_path i = ''$.messages['' @ Itoa (int i) @ ''].content''"

definition part_path :: "nat \<Rightarrow> nat \<Rightarrow> string \<Rightarrow> string" where
  "part_path i j fld = content_path i @ ''['' @ Itoa (int j) @ ''].'' @ fld"

definition openai_blocks :: "unicode_tables \<Rightarrow> nat \<Rightarrow> message \<Rightarrow> block list" where
  "openai_blocks T i m =
     (let texts = openAIContentText (ms_Content m)
      in map (\<lambda>jt. newBlock T ProviderOpenAI
                (if 1 < length texts then part_path i (fst jt) ''text'' else content_path i)
                (ms_Role m) (snd jt))
           (filter (\<lambda>jt. snd jt \<noteq> []) (enumerate 0 texts)))"

definition detectOpenAI :: "unicode_tables \<Rightarrow> string \<Rightarrow> detect_error + block list" where
  "detectOpenAI T body =
     (case Unmarshal_openAIRequest body of
        None \<Rightarrow> Inl JSONError
      | Some msgs \<Rightarrow>
          Inr (assignBlockIDs (concat (map (\<lambda>im. openai_blocks T (fst im) (snd im)) (enumerate 0 msgs)))))"

section \<open>Anthropic\<close>

definition anthropicSystemTexts :: "string \<Rightarrow> string list" where
  "anthropicSystemTexts raw =
     (if raw = [] then []
      else case Unmarshal_string raw of
        Some t \<Rightarrow> [t]
      | None \<Rightarrow>
          (case Unmarshal_parts anthropic_part_field raw of
             None \<Rightarrow> []
           | Some parts \<Rightarrow> filter (\<lambda>t. t \<noteq> []) (map pt_Text parts)))"

definition anthropicContentParts :: "string \<Rightarrow> part list option" where
  "anthropicContentParts raw =
     (case Unmarshal_string raw of
        Some t \<Rightarrow> Some [zero_part\<lparr>pt_Type := ''text'', pt_Text := t\<rparr>]
      | None \<Rightarrow> Unmarshal_parts anthropic_part_field raw)"

definition anthropicPartText :: "part \<Rightarrow> string" where
  "anthropicPartText p =
     (if pt_Text p \<noteq> [] then pt_Text p
      else if pt_Content p = [] then []
      else case Unmarshal_string (pt_Content p) of
        Some t \<Rightarrow> t
      | None \<Rightarrow>
          (case Unmarshal_parts anthropic_part_field (pt_Content p) of
             Some items \<Rightarrow> Join (filter (\<lambda>t. t \<noteq> []) (map pt_Text items)) [NL]
           | None \<Rightarrow> pt_Content p))"

definition system_block :: "string \<Rightarrow> block" where
  "system_block t = \<lparr>bl_ID = ''block_1'', bl_Provider = ProviderAnthropic, bl_Path = ''$.system'',
     bl_Role = ''system'', bl_Source = SourceSystem, bl_Stability = StabilityStable,
     bl_ContentType = ContentText, bl_Text = t, bl_Selected = False\<rparr>"

definition anthropic_part_block :: "unicode_tables \<Rightarrow> string \<Rightarrow> nat \<Rightarrow> nat \<Rightarrow> part \<Rightarrow> block" where
  "anthropic_part_block T role i j p =
     (let t = anthropicPartText p;
          tool = (pt_Type p = ''tool_result'');
          b = newBlock T ProviderAnthropic (part_path i j (if tool then ''content'' else ''text'')) role t
      in if tool
         then b\<lparr>bl_Source := SourceToolResult, bl_Stability := StabilityLive, bl_Selected := True,
                bl_ContentType := ClassifyContent T t\<rparr>
         else b)"

definition anthropic_part_blocks :: "unicode_tables \<Rightarrow> string \<Rightarrow> nat \<Rightarrow> part list \<Rightarrow> block list" where
  "anthropic_part_blocks T role i parts =
     map (\<lambda>jp. anthropic_part_block T role i (fst jp) (snd jp))
       (filter (\<lambda>jp. anthropicPartText (snd jp) \<noteq> []) (enumerate 0 parts))"

fun anthropic_messages :: "unicode_tables \<Rightarrow> nat \<Rightarrow> message list \<Rightarrow> block list option" where
  "anthropic_messages T i [] = Some []"
| "anthropic_messages T i (m # ms) =
     (case anthropicContentParts (ms_Content m) of
        None \<Rightarrow> None
      | Some parts \<Rightarrow>
          map_option ((@) (anthropic_part_blocks T (ms_Role m) i parts)) (anthropic_messages T (Suc i) ms))"

definition detectAnthropic :: "unicode_tables \<Rightarrow> string \<Rightarrow> detect_error + block list" where
  "detectAnthropic T body =
     (case Unmarshal_anthropicRequest body of
        None \<Rightarrow> Inl JSONError
      | Some rq \<Rightarrow>
          let sys = map system_block (filter (\<lambda>t. t \<noteq> []) (anthropicSystemTexts (ar_System rq)))
          in (case anthropic_messages T 0 (ar_Messages rq) of
                None \<Rightarrow> Inl JSONError
              | Some bs \<Rightarrow> Inr (assignBlockIDs (sys @ bs))))"

definition DetectLiveZones :: "unicode_tables \<Rightarrow> request \<Rightarrow> detect_error + block list" where
  "DetectLiveZones T rq =
     (if rq_Provider rq = ProviderOpenAI then detectOpenAI T (rq_Body rq)
      else if rq_Provider rq = ProviderAnthropic then detectAnthropic T (rq_Body rq)
      else Inl (UnsupportedProvider (rq_Provider rq)))"

section \<open>Well-formed blocks\<close>

text \<open>
  What every listed block satisfies: it is selected exactly when it is live, and exactly when it
  comes from a tool; it has some text and one of the content types.
\<close>

definition wf_block :: "string \<Rightarrow> block \<Rightarrow> bool" where
  "wf_block provider b \<longleftrightarrow>
     bl_Provider b = provider \<and> bl_Text b \<noteq> [] \<and> bl_ContentType b \<in> content_types \<and>
     (bl_Selected b \<longleftrightarrow> bl_Stability b = StabilityLive) \<and>
     (bl_Selected b \<longleftrightarrow> bl_Source b = SourceToolResult) \<and>
     bl_Stability b \<in> {StabilityLive, StabilityStable}"

lemma wf_newBlock [wf_intros]: "t \<noteq> [] \<Longrightarrow> wf_block p (newBlock T p path role t)"
  by (simp add: wf_block_def newBlock_def classifySource_def ClassifyContent_range
      del: ContentText_def ContentLog_def ContentCode_def ContentDiff_def ContentJSON_def)

lemma wf_system_block [wf_intros]: "t \<noteq> [] \<Longrightarrow> wf_block ProviderAnthropic (system_block t)"
  by (simp add: wf_block_def system_block_def content_types_def)

lemma wf_tool_block [wf_intros]:
  "wf_block p b \<Longrightarrow> wf_block p (b\<lparr>bl_Source := SourceToolResult, bl_Stability := StabilityLive,
     bl_Selected := True, bl_ContentType := ClassifyContent T t\<rparr>)"
  by (simp add: wf_block_def ClassifyContent_range
      del: ContentText_def ContentLog_def ContentCode_def ContentDiff_def ContentJSON_def)

lemma wf_assignBlockID [simp]: "wf_block p (assignBlockID b i) = wf_block p b"
  by (simp add: wf_block_def assignBlockID_def)

lemma wf_assignBlockIDs [wf_intros]:
  "\<forall>b \<in> set bs. wf_block p b \<Longrightarrow> \<forall>b \<in> set (assignBlockIDs bs). wf_block p b"
  by (simp add: all_set_conv_all_nth assignBlockIDs_nth)

lemma wf_openai_blocks [wf_intros]: "\<forall>b \<in> set (openai_blocks T i m). wf_block ProviderOpenAI b"
  by (auto simp: openai_blocks_def Let_def simp del: ProviderOpenAI_def intro!: wf_newBlock)

lemma wf_anthropic_part_blocks [wf_intros]:
  "\<forall>b \<in> set (anthropic_part_blocks T role i parts). wf_block ProviderAnthropic b"
  by (auto simp: anthropic_part_blocks_def anthropic_part_block_def Let_def
      simp del: ProviderAnthropic_def SourceToolResult_def StabilityLive_def
      intro!: wf_newBlock wf_tool_block)

lemma wf_anthropic_messages:
  "anthropic_messages T i ms = Some bs \<Longrightarrow> \<forall>b \<in> set bs. wf_block ProviderAnthropic b"
proof (induction T i ms arbitrary: bs rule: anthropic_messages.induct)
  case (2 T i m ms)
  then obtain parts bs' where "bs = anthropic_part_blocks T (ms_Role m) i parts @ bs'"
    "anthropicContentParts (ms_Content m) = Some parts" "anthropic_messages T (Suc i) ms = Some bs'"
    by (auto split: option.splits)
  then show ?case using 2 (1) wf_anthropic_part_blocks by auto
qed simp

lemma detectOpenAI_wf:
  "detectOpenAI T body = Inr bs \<Longrightarrow> \<forall>b \<in> set bs. wf_block ProviderOpenAI b"
proof -
  assume "detectOpenAI T body = Inr bs"
  then obtain msgs where bs: "bs = assignBlockIDs
      (concat (map (\<lambda>im. openai_blocks T (fst im) (snd im)) (enumerate 0 msgs)))"
    by (auto simp: detectOpenAI_def split: option.splits)
  show ?thesis
    unfolding bs by (intro wf_assignBlockIDs) (use wf_openai_blocks in auto)
qed

lemma detectAnthropic_wf:
  "detectAnthropic T body = Inr bs \<Longrightarrow> \<forall>b \<in> set bs. wf_block ProviderAnthropic b"
proof -
  assume d: "detectAnthropic T body = Inr bs"
  then obtain rq where rq: "Unmarshal_anthropicRequest body = Some rq"
    by (cases "Unmarshal_anthropicRequest body") (auto simp: detectAnthropic_def)
  with d obtain ms where ms: "anthropic_messages T 0 (ar_Messages rq) = Some ms"
    by (cases "anthropic_messages T 0 (ar_Messages rq)") (auto simp: detectAnthropic_def Let_def)
  have bs: "bs = assignBlockIDs
      (map system_block (filter (\<lambda>t. t \<noteq> []) (anthropicSystemTexts (ar_System rq))) @ ms)"
    using d by (simp add: detectAnthropic_def rq ms Let_def)
  show ?thesis
    unfolding bs by (intro wf_assignBlockIDs) (use wf_anthropic_messages [OF ms] wf_system_block in auto)
qed

lemma DetectLiveZones_cases:
  assumes "DetectLiveZones T rq = Inr bs"
  obtains "rq_Provider rq = ProviderOpenAI" "detectOpenAI T (rq_Body rq) = Inr bs"
    | "rq_Provider rq = ProviderAnthropic" "detectAnthropic T (rq_Body rq) = Inr bs"
  using assms by (auto simp: DetectLiveZones_def split: if_splits)

lemma DetectLiveZones_assigned:
  assumes "DetectLiveZones T rq = Inr bs"
  obtains bs0 where "bs = assignBlockIDs bs0"
  using assms by (auto simp: DetectLiveZones_def detectOpenAI_def detectAnthropic_def Let_def
      split: if_splits option.splits)

section \<open>Texts\<close>

lemma decode_struct_pt:
  assumes "\<And>key r q q'. fld key r q = Some q' \<Longrightarrow> P q \<Longrightarrow> P q'"
  shows "decode_struct fld p raw = Some p' \<Longrightarrow> P p \<Longrightarrow> P p'"
proof -
  have "decode_fields fld kvs q = Some q' \<Longrightarrow> P q \<Longrightarrow> P q'" for kvs q q'
    by (induction kvs arbitrary: q) (auto split: option.splits dest: assms)
  then show "decode_struct fld p raw = Some p' \<Longrightarrow> P p \<Longrightarrow> P p'"
    by (auto simp: decode_struct_def split: json_shape.splits)
qed

lemma decode_elems_all:
  assumes "\<And>x raw y. f x raw = Some y \<Longrightarrow> P x \<Longrightarrow> P y" and "P zero"
  shows "decode_elems f zero prev raws = Some ys \<Longrightarrow> list_all P prev \<Longrightarrow> list_all P ys"
proof (induction raws arbitrary: prev ys)
  case (Cons raw raws)
  then show ?case using assms by (cases prev) (auto split: option.splits)
qed simp

lemma Unmarshal_parts_texts:
  assumes "\<And>key r q q'. fld key r q = Some q' \<Longrightarrow> ValidString (pt_Text q) \<Longrightarrow> ValidString (pt_Text q')"
  shows "Unmarshal_parts fld raw = Some ps \<Longrightarrow> list_all ValidString (map pt_Text ps)"
proof -
  assume "Unmarshal_parts fld raw = Some ps"
  then have "decode_slice (decode_struct fld) zero_part [] raw = Some ps"
    by (simp add: Unmarshal_parts_def Unmarshal_slice_def split: if_splits)
  moreover have "decode_struct fld q r = Some q' \<Longrightarrow> ValidString (pt_Text q) \<Longrightarrow> ValidString (pt_Text q')"
    for q r q' using decode_struct_pt [of fld "\<lambda>q. ValidString (pt_Text q)"] assms by blast
  ultimately have "list_all (\<lambda>q. ValidString (pt_Text q)) ps"
    using decode_elems_all [of "decode_struct fld" "\<lambda>q. ValidString (pt_Text q)" zero_part "[]" _ ps]
    by (auto simp: decode_slice_def zero_part_def split: json_shape.splits)
  then show ?thesis by (simp add: list_all_iff)
qed

lemma openai_part_field_text:
  "openai_part_field key raw p = Some p' \<Longrightarrow> ValidString (pt_Text p) \<Longrightarrow> ValidString (pt_Text p')"
  by (auto simp: openai_part_field_def dest: decode_string_valid split: if_splits)

lemma openAIContentText_valid: "list_all ValidString (openAIContentText raw)"
proof (cases "Unmarshal_string raw")
  case None
  have "Unmarshal_parts openai_part_field raw = Some ps \<Longrightarrow> list_all ValidString (map pt_Text ps)" for ps
    by (rule Unmarshal_parts_texts) (rule openai_part_field_text)
  then show ?thesis
    using None by (cases "Unmarshal_parts openai_part_field raw")
      (auto simp: openAIContentText_def list_all_iff)
next
  case (Some t)
  then show ?thesis by (simp add: openAIContentText_def Unmarshal_string_valid)
qed

lemma openai_blocks_texts: "set (map bl_Text (openai_blocks T i m)) \<subseteq> set (openAIContentText (ms_Content m))"
  by (auto simp: openai_blocks_def Let_def in_set_enumerate_eq)

lemma assignBlockIDs_texts [simp]: "map bl_Text (assignBlockIDs bs) = map bl_Text bs"
  by (rule nth_equalityI) (simp_all add: assignBlockIDs_nth assignBlockID_def)

lemma detectOpenAI_valid:
  "detectOpenAI T body = Inr bs \<Longrightarrow> list_all (\<lambda>b. ValidString (bl_Text b)) bs"
proof -
  assume "detectOpenAI T body = Inr bs"
  then obtain msgs where bs: "bs = assignBlockIDs
      (concat (map (\<lambda>im. openai_blocks T (fst im) (snd im)) (enumerate 0 msgs)))"
    by (auto simp: detectOpenAI_def split: option.splits)
  have "list_all ValidString (map bl_Text bs)"
    unfolding bs assignBlockIDs_texts
    using openai_blocks_texts openAIContentText_valid by (fastforce simp: list_all_iff)
  then show ?thesis by (simp add: list_all_iff)
qed

section \<open>Properties\<close>

text \<open>C9. Every block listed has text, a known content type and the request's provider, and is
  selected for compression exactly when it is live and exactly when it is a tool result; the IDs
  number the blocks, so no two are equal.\<close>

theorem DetectLiveZones_selects_tools:
  assumes "DetectLiveZones T rq = Inr bs"
  shows "(\<forall>b \<in> set bs. bl_Provider b = rq_Provider rq \<and> bl_Text b \<noteq> [] \<and> bl_ContentType b \<in> content_types \<and>
      (bl_Selected b \<longleftrightarrow> live_zone b) \<and> (live_zone b \<longleftrightarrow> bl_Source b = SourceToolResult)) \<and>
    map bl_ID bs = map (\<lambda>i. ''block_'' @ Itoa (int i + 1)) [0..<length bs] \<and> distinct (map bl_ID bs)"
proof (intro conjI)
  have "\<forall>b \<in> set bs. wf_block (rq_Provider rq) b"
    using assms by (rule DetectLiveZones_cases) (metis detectOpenAI_wf, metis detectAnthropic_wf)
  then show "\<forall>b \<in> set bs. bl_Provider b = rq_Provider rq \<and> bl_Text b \<noteq> [] \<and> bl_ContentType b \<in> content_types \<and>
      (bl_Selected b \<longleftrightarrow> live_zone b) \<and> (live_zone b \<longleftrightarrow> bl_Source b = SourceToolResult)"
    by (auto simp: wf_block_def live_zone_def)
  obtain bs0 where bs: "bs = assignBlockIDs bs0" using assms by (rule DetectLiveZones_assigned)
  show "map bl_ID bs = map (\<lambda>i. ''block_'' @ Itoa (int i + 1)) [0..<length bs]"
    by (rule nth_equalityI) (simp_all add: bs assignBlockIDs_nth assignBlockID_def)
  show "distinct (map bl_ID bs)" unfolding bs by (rule assignBlockIDs_distinct)
qed

definition quoted :: "string \<Rightarrow> string" where
  "quoted s = QUOTE # s @ [QUOTE]"

definition tool_body :: string where
  "tool_body = ''{'' @ quoted ''messages'' @ '':[{'' @ quoted ''role'' @ '':'' @ quoted ''tool'' @ '','' @
     quoted ''content'' @ '':'' @ quoted ''x y'' @ ''}]}''"

lemmas live_zone_eval = tool_body_def quoted_def Unmarshal_openAIRequest_def openai_request_field_def
  decode_message_def message_field_def zero_message_def openai_part_field_def zero_part_def
  Unmarshal_parts_def

lemma tool_body_decoded:
  "Unmarshal_openAIRequest tool_body = Some [\<lparr>ms_Role = ''tool'', ms_Content = quoted ''x y''\<rparr>]"
  by (simp add: go_eval live_zone_eval)

lemma tool_body_detected:
  "DetectLiveZones T \<lparr>rq_Provider = ''openai'', rq_Body = tool_body\<rparr> =
     Inr [(newBlock T ''openai'' ''$.messages[0].content'' ''tool'' ''x y'')\<lparr>bl_ID := ''block_1''\<rparr>]"
proof -
  have "Unmarshal_string (quoted ''x y'') = Some ''x y''" by (simp add: go_eval quoted_def)
  then have "openAIContentText (quoted ''x y'') = [''x y'']" by (simp add: openAIContentText_def)
  moreover have "content_path 0 = ''$.messages[0].content''" by (simp add: content_path_def go_eval)
  moreover have "''block_'' @ Itoa 1 = ''block_1''" by (simp add: go_eval)
  ultimately show ?thesis
    by (simp add: DetectLiveZones_def detectOpenAI_def tool_body_decoded openai_blocks_def
        assignBlockIDs_def assignBlockID_def)
qed

lemma DetectLiveZones_selects_tools_witness:
  "live_zone ((newBlock ascii_tables ''openai'' ''$.messages[0].content'' ''tool'' ''x y'')\<lparr>bl_ID := ''block_1''\<rparr>)"
  using DetectLiveZones_selects_tools [OF tool_body_detected [of ascii_tables]]
  by (simp add: newBlock_def classifySource_def go_eval)

lemma newBlock_selected: "bl_Selected (newBlock T p path role t) \<longleftrightarrow> role = ''tool''"
  by (simp add: newBlock_def classifySource_def)

lemma openai_blocks_role:
  "b \<in> set (openai_blocks T i m) \<Longrightarrow> bl_Selected b \<longleftrightarrow> bl_Role b = ''tool''"
  by (auto simp: openai_blocks_def Let_def newBlock_selected)

lemma assignBlockIDs_all:
  assumes "\<And>b i. P (assignBlockID b i) = P b"
  shows "(\<forall>b \<in> set (assignBlockIDs bs). P b) \<longleftrightarrow> (\<forall>b \<in> set bs. P b)"
  by (simp add: all_set_conv_all_nth assignBlockIDs_nth assms)

text \<open>In an OpenAI request exactly the blocks of messages with the role \<open>tool\<close> are selected, and
  every block's text is valid UTF-8, whatever bytes and escapes the request spells it with.\<close>

theorem OpenAI_blocks_selected_by_role:
  assumes "DetectLiveZones T rq = Inr bs" and "rq_Provider rq = ProviderOpenAI"
  shows "\<forall>b \<in> set bs. (bl_Selected b \<longleftrightarrow> bl_Role b = ''tool'') \<and> ValidString (bl_Text b)"
proof -
  have d: "detectOpenAI T (rq_Body rq) = Inr bs" using assms by (simp add: DetectLiveZones_def)
  then obtain msgs where bs: "bs = assignBlockIDs
      (concat (map (\<lambda>im. openai_blocks T (fst im) (snd im)) (enumerate 0 msgs)))"
    by (auto simp: detectOpenAI_def split: option.splits)
  have "\<forall>b \<in> set bs. bl_Selected b \<longleftrightarrow> bl_Role b = ''tool''"
    unfolding bs by (subst assignBlockIDs_all) (auto simp: assignBlockID_def dest: openai_blocks_role)
  then show ?thesis using detectOpenAI_valid [OF d] by (auto simp: list_all_iff)
qed

lemma OpenAI_blocks_selected_by_role_witness:
  "bl_Selected ((newBlock ascii_tables ''openai'' ''$.messages[0].content'' ''tool'' ''x y'')\<lparr>bl_ID := ''block_1''\<rparr>)"
  using OpenAI_blocks_selected_by_role [OF tool_body_detected [of ascii_tables]] by simp

text \<open>
  The path of a part counts the parts with text only: here the texts are the second and third
  elements of the content, and their paths name the first and the second.
\<close>

definition shifted_content :: string where
  "shifted_content = ''[{},{'' @ quoted ''text'' @ '':'' @ quoted ''b'' @ ''},{'' @ quoted ''text'' @ '':''
     @ quoted ''c'' @ ''}]''"

lemma shifted_parts:
  "Unmarshal_string shifted_content = None"
  "map_option (map pt_Text) (Unmarshal_parts openai_part_field shifted_content) = Some [[], ''b'', ''c'']"
  by (simp_all add: go_eval live_zone_eval shifted_content_def)

lemma openai_part_paths_shift:
  "map (\<lambda>b. (bl_Path b, bl_Text b)) (openai_blocks T 0 \<lparr>ms_Role = ''tool'', ms_Content = shifted_content\<rparr>) =
     [(''$.messages[0].content[0].text'', ''b''), (''$.messages[0].content[1].text'', ''c'')]"
proof -
  obtain ps where ps: "Unmarshal_parts openai_part_field shifted_content = Some ps"
    "map pt_Text ps = [[], ''b'', ''c'']" using shifted_parts(2) by auto
  then have "openAIContentText shifted_content = [''b'', ''c'']"
    by (simp add: openAIContentText_def shifted_parts(1))
  moreover have "part_path 0 0 ''text'' = ''$.messages[0].content[0].text''"
    "part_path 0 1 ''text'' = ''$.messages[0].content[1].text''"
    by (simp_all add: part_path_def content_path_def go_eval)
  ultimately show ?thesis by (simp add: openai_blocks_def)
qed

end
