(* ===== verification/Request_Compression.thy ===== *)
theory Request_Compression
  imports Pipeline Live_Zone
begin

text \<open>
  The parts of \<open>internal/compress\<close> put together: a request is decoded and split into classified blocks
  (\<open>livezone.go\<close>), the pipeline (\<open>pipeline.go\<close>) offers the live ones to the native compressors
  (\<open>native_text_log.go\<close>, \<open>native_structured.go\<close>), and the token estimates (\<open>internal/tokens\<close>) decide.
\<close>

section \<open>What a rewrite keeps\<close>

text \<open>
  What the new text of a block has in common with the old one, by the type of the block's content, told without
  the code. The pieces of a text, its lines or paragraphs, are encoded by runs: each run is printed as its
  first piece, which is one of the text, and a note with the number of the others; written out again, the runs
  have the keys of all pieces, in order.
\<close>

definition run_lines :: "string \<Rightarrow> string \<times> nat \<Rightarrow> string list" where
  "run_lines label r =
     fst r # (if snd r = 0 then [] else [''[repeated '' @ Itoa (int (snd r)) @ '' '' @ label @ '' omitted]''])"

definition run_encoded :: "(string \<Rightarrow> string) \<Rightarrow> string \<Rightarrow> string list \<Rightarrow> string list \<Rightarrow> bool" where
  "run_encoded key label old new \<longleftrightarrow>
     (\<exists>rs. new = concat (map (run_lines label) rs) \<and> set (map fst rs) \<subseteq> set old \<and>
        concat (map (\<lambda>(x, n). replicate (Suc n) (key x)) rs) = map key old)"

text \<open>The key of a line is the line without white space around it, that of a paragraph its words.\<close>

definition keeps_content :: "string \<Rightarrow> string \<Rightarrow> string \<Rightarrow> bool" where
  "keeps_content kind old new \<longleftrightarrow> new = old \<or>
     (if kind = ContentJSON then json_Valid old \<and> json_Valid new \<and> new = json_strip OutsideString old
      else if kind = ContentDiff then \<exists>ls. shortened_diff (Split old [NL]) ls \<and> new = Join ls [NL]
      else if kind = ContentLog then run_encoded TrimSpace ''identical log lines'' (Split old [NL]) (Split new [NL])
      else if kind = ContentCode
      then \<exists>ls. run_encoded TrimSpace ''identical code lines'' (Split old [NL]) ls \<and>
        filter (\<lambda>l. TrimSpace l \<noteq> []) (Split new [NL]) = filter (\<lambda>l. TrimSpace l \<noteq> []) ls
      else if kind = ContentText
      then \<exists>ps. run_encoded (\<lambda>p. Join (Fields p) '' '') ''identical text blocks'' (Split old [NL, NL]) ps \<and> new = Join ps [NL, NL]
      else False)"

lemma keeps_content_refl: "keeps_content kind t t"
  by (simp add: keeps_content_def)

lemma run_encoded_print:
  "run_encoded key label old new \<longleftrightarrow>
     (\<exists>rs. new = concat (map (print_run label) rs) \<and> set (map fst rs) \<subseteq> set old \<and>
        concat (map (\<lambda>(x, n). replicate (Suc n) (key x)) rs) = map key old)"
proof -
  have "run_lines label = print_run label" by (rule ext) (simp add: run_lines_def print_run_def repeated_marker_def)
  then show ?thesis by (simp only: run_encoded_def)
qed

lemma runs_encode: "run_encoded key label old (concat (map (print_run label) (runs_by key old)))"
  unfolding run_encoded_print by (intro exI [of _ "runs_by key old"] conjI refl runs_by_fst runs_by_expand)

text \<open>What the native compressors propose.\<close>

definition native_text :: "block \<Rightarrow> string" where
  "native_text b = (case NativeCompressor b of Inr pr \<Rightarrow> pr_Text pr | Inl _ \<Rightarrow> bl_Text b)"

lemma NativeCompressor_total: "NativeCompressor b = Inr (text_proposal (native_text b))"
  by (simp add: native_text_def native_defs)

lemma compactJSON_strips:
  "compactJSON t = t \<or> json_Valid t \<and> json_Valid (compactJSON t) \<and> compactJSON t = json_strip OutsideString t"
proof (cases "json_Compact t")
  case (Some u)
  then have "json_Valid t" by (simp add: json_Valid_def json_Compact_def)
  then show ?thesis
    using compactJSON_keeps [of t] json_Compact_strip [OF Some] Some by (simp add: compactJSON_def)
qed (simp add: compactJSON_def)

lemma native_text_keeps: "keeps_content (bl_ContentType b) (bl_Text b) (native_text b)"
proof -
  let ?t = "bl_Text b"
  have kinds: "ContentJSON \<noteq> ContentDiff" "ContentJSON \<noteq> ContentLog" "ContentJSON \<noteq> ContentCode" "ContentJSON \<noteq> ContentText"
    "ContentDiff \<noteq> ContentLog" "ContentDiff \<noteq> ContentCode" "ContentDiff \<noteq> ContentText" "ContentLog \<noteq> ContentCode"
    "ContentLog \<noteq> ContentText" "ContentCode \<noteq> ContentText"
    by (simp_all add: ContentJSON_def ContentDiff_def ContentLog_def ContentCode_def ContentText_def)
  have "run_encoded (\<lambda>p. Join (Fields p) '' '') ''identical text blocks'' (Split ?t [NL, NL])
      (collapseAdjacent (Split ?t [NL, NL]) paragraph_key ''identical text blocks'')"
    using runs_encode [of paragraph_key] unfolding collapseAdjacent_runs paragraph_key_def .
  then have par: "\<exists>ps. run_encoded (\<lambda>p. Join (Fields p) '' '') ''identical text blocks'' (Split ?t [NL, NL]) ps \<and>
      compressRepeatedParagraphs ?t = Join ps [NL, NL]"
    unfolding compressRepeatedParagraphs_def by blast
  have lg: "run_encoded TrimSpace ''identical log lines'' (Split ?t [NL]) (Split (compressRepeatedLines ?t) [NL])"
    unfolding compressRepeatedLines_runs by (rule runs_encode)
  have cd: "\<exists>ls. run_encoded TrimSpace ''identical code lines'' (Split ?t [NL]) ls \<and>
      filter (\<lambda>l. TrimSpace l \<noteq> []) (Split (compressCode ?t) [NL]) = filter (\<lambda>l. TrimSpace l \<noteq> []) ls"
    using compressCode_lines [of ?t] unfolding run_encoded_print by blast
  have df: "\<exists>ls. shortened_diff (Split ?t [NL]) ls \<and> compressDiff ?t = Join ls [NL]"
    by (rule compressDiff_shortened)
  consider "bl_ContentType b = ContentJSON" | "bl_ContentType b = ContentDiff" | "bl_ContentType b = ContentLog"
    | "bl_ContentType b = ContentCode" | "bl_ContentType b = ContentText"
    | "bl_ContentType b \<notin> {ContentJSON, ContentDiff, ContentLog, ContentCode, ContentText}" by auto
  then show ?thesis
  proof cases
    case 1
    then show ?thesis using compactJSON_strips [of ?t] kinds
      by (auto simp: keeps_content_def native_text_def native_defs)
  next
    case 2
    then have "native_text b = compressDiff ?t" using kinds by (simp add: native_text_def native_defs)
    then show ?thesis using df 2 kinds by (simp add: keeps_content_def)
  next
    case 3
    then have "native_text b = compressRepeatedLines ?t" using kinds by (simp add: native_text_def native_defs)
    then show ?thesis using lg 3 kinds by (simp add: keeps_content_def)
  next
    case 4
    then have "native_text b = compressCode ?t" using kinds by (simp add: native_text_def native_defs)
    then show ?thesis using cd 4 kinds by (simp add: keeps_content_def)
  next
    case 5
    then have "native_text b = compressRepeatedParagraphs ?t" using kinds by (simp add: native_text_def native_defs)
    then show ?thesis using par 5 kinds by (simp add: keeps_content_def)
  next
    case 6
    then have "native_text b = ?t" by (simp add: native_text_def native_defs)
    then show ?thesis by (simp add: keeps_content_def)
  qed
qed

section \<open>One block through the pipeline\<close>

lemma native_apply:
  assumes "pl_compressors p = [NativeCompressor]" and "pl_counters p = NewCounterSet"
  shows "fst (apply_block T p b) = b \<and> dc_Reason (snd (apply_block T p b)) \<in> {DecisionNotSelected, DecisionNoSavings, DecisionInvalidUTF8} \<or>
    live_zone b \<and> fst (apply_block T p b) = b\<lparr>bl_Text := native_text b\<rparr> \<and>
      dc_Reason (snd (apply_block T p b)) = DecisionApplied"
    and "dc_Err (snd (apply_block T p b)) = None"
    and "dc_Reason (snd (apply_block T p b)) = DecisionApplied \<Longrightarrow>
      sv_Improved (dc_Savings (snd (apply_block T p b))) \<and>
      Savings T NewCounterSet (pl_providerModel p) (bl_Text b) (native_text b) = Inr (dc_Savings (snd (apply_block T p b)))"
proof -
  obtain sv where sv: "Savings T NewCounterSet (pl_providerModel p) (bl_Text b) (native_text b) = Inr sv"
    using Savings_estimated by blast
  have e: "evaluateProposal T p b (text_proposal (native_text b)) =
      (if ValidString (native_text b)
       then Inr (native_text b, sv, if sv_Improved sv then DecisionApplied else DecisionNoSavings)
       else Inr ([], zero_savings, DecisionInvalidUTF8))"
    by (simp add: evaluateProposal_def proposalText_def text_proposal_def assms(2) sv)
  show "fst (apply_block T p b) = b \<and> dc_Reason (snd (apply_block T p b)) \<in> {DecisionNotSelected, DecisionNoSavings, DecisionInvalidUTF8} \<or>
    live_zone b \<and> fst (apply_block T p b) = b\<lparr>bl_Text := native_text b\<rparr> \<and>
      dc_Reason (snd (apply_block T p b)) = DecisionApplied"
    by (auto simp: apply_block_def live_zone_def assms(1) NativeCompressor_total e Let_def new_decision_def)
  show "dc_Err (snd (apply_block T p b)) = None"
    by (auto simp: apply_block_def assms(1) NativeCompressor_total e Let_def new_decision_def)
  show "dc_Reason (snd (apply_block T p b)) = DecisionApplied \<Longrightarrow>
      sv_Improved (dc_Savings (snd (apply_block T p b))) \<and>
      Savings T NewCounterSet (pl_providerModel p) (bl_Text b) (native_text b) = Inr (dc_Savings (snd (apply_block T p b)))"
    by (auto simp: apply_block_def assms(1) NativeCompressor_total e Let_def new_decision_def sv split: if_splits)
qed

section \<open>Properties\<close>

text \<open>C1. A request through detection and the pipeline with the native compressors and no exact counter: the
  result lists the blocks of the request in order, with one decision each under the block's ID, and of a block at
  most the text changes. It changes only in tool results, and only where a decision was applied, whose
  savings are positive; then fewer tokens are estimated. The new text keeps the content: valid JSON loses exactly
  the white space outside of its string literals and stays valid; a diff keeps its changed lines, hunk
  headers and the two kinds of file header it knows, with exact notes of what lies between; a log and code are
  run-length encoded by their lines up to white space around them, code up to blank lines, and plain text by
  its paragraphs up to the white space between words, every kept line or paragraph being one of the text. Nothing
  fails, valid text stays valid and is never refused for its encoding, and an OpenAI request has valid text only.\<close>

theorem native_request_compression:
  assumes "DetectLiveZones T rq = Inr bs"
    and "pl_compressors p = [NativeCompressor]" and "pl_counters p = NewCounterSet" and "i < length bs"
    and "b = bs ! i" and "b' = res_Blocks (Apply T p bs) ! i" and "d = res_Decisions (Apply T p bs) ! i"
  shows "length (res_Blocks (Apply T p bs)) = length bs \<and> length (res_Decisions (Apply T p bs)) = length bs \<and>
    b' = b\<lparr>bl_Text := bl_Text b'\<rparr> \<and> dc_BlockID d = ''block_'' @ Itoa (int i + 1) \<and>
    (b' \<noteq> b \<longrightarrow> bl_Source b = SourceToolResult \<and> dc_Reason d = DecisionApplied) \<and>
    (dc_Reason d = DecisionApplied \<longrightarrow> sv_Improved (dc_Savings d) \<and>
       (go_string (bl_Text b) \<and> go_string (bl_Text b') \<longrightarrow>
          ct_Tokens (Estimate T (bl_Text b')) < ct_Tokens (Estimate T (bl_Text b)))) \<and>
    keeps_content (bl_ContentType b) (bl_Text b) (bl_Text b') \<and>
    dc_Err d = None \<and> dc_Reason d \<in> {DecisionApplied, DecisionNotSelected, DecisionNoSavings, DecisionInvalidUTF8} \<and>
    (ValidString (bl_Text b) \<longrightarrow> ValidString (bl_Text b') \<and> dc_Reason d \<noteq> DecisionInvalidUTF8) \<and>
    (rq_Provider rq = ProviderOpenAI \<longrightarrow> ValidString (bl_Text b))"
proof -
  have r: "b' = fst (apply_block T p b)" "d = snd (apply_block T p b)"
    using assms(4-7) by (simp_all add: Apply_Blocks Apply_Decisions)
  have mem: "b \<in> set bs" using assms(4,5) by simp
  have lengths: "length (res_Blocks (Apply T p bs)) = length bs" "length (res_Decisions (Apply T p bs)) = length bs"
    by (simp_all add: Apply_Blocks Apply_Decisions)
  note n = native_apply [OF assms(2,3), of T b, folded r]
  have frame: "b' = b\<lparr>bl_Text := bl_Text b'\<rparr>" using apply_block_frame [of T p b, folded r] by auto
  obtain bs0 where bs0: "bs = assignBlockIDs bs0" using assms(1) by (rule DetectLiveZones_assigned)
  have id: "dc_BlockID d = ''block_'' @ Itoa (int i + 1)"
    using assms(4,5) by (simp add: r apply_block_ID bs0 assignBlockIDs_nth assignBlockID_def)
  have wf: "wf_block (rq_Provider rq) b"
    using assms(1) mem by (auto elim!: DetectLiveZones_cases dest!: detectOpenAI_wf detectAnthropic_wf)
  have changed: "b' \<noteq> b \<longrightarrow> bl_Source b = SourceToolResult \<and> dc_Reason d = DecisionApplied"
    using n(1) wf by (auto simp: wf_block_def live_zone_def)
  have fewer: "ct_Tokens (Estimate T (bl_Text b')) < ct_Tokens (Estimate T (bl_Text b))"
    if applied: "dc_Reason d = DecisionApplied" and g: "go_string (bl_Text b) \<and> go_string (bl_Text b')"
  proof -
    have "bl_Text b' = native_text b" using n(1) applied by auto
    then show ?thesis
      using n(3) [OF applied] Savings_estimates [of "bl_Text b" "native_text b" T "pl_providerModel p"] g by auto
  qed
  have keeps: "keeps_content (bl_ContentType b) (bl_Text b) (bl_Text b')"
    using n(1) native_text_keeps [of b] keeps_content_refl [of "bl_ContentType b" "bl_Text b"] by auto
  have valid: "ValidString (bl_Text b) \<longrightarrow> ValidString (bl_Text b') \<and> dc_Reason d \<noteq> DecisionInvalidUTF8"
    using native_apply_block [OF assms(2), of b T] by (simp add: r)
  have openai: "rq_Provider rq = ProviderOpenAI \<longrightarrow> ValidString (bl_Text b)"
    using assms(1) mem detectOpenAI_valid [of T "rq_Body rq" bs] by (auto simp: DetectLiveZones_def list_all_iff)
  have "dc_Reason d \<in> {DecisionApplied, DecisionNotSelected, DecisionNoSavings, DecisionInvalidUTF8}" using n(1) by auto
  then show ?thesis using lengths frame id changed n(2,3) fewer keeps valid openai by blast
qed

lemma native_request_compression_witness:
  "dc_BlockID (res_Decisions (Apply ascii_tables (demo_pipeline\<lparr>pl_compressors := [NativeCompressor]\<rparr>)
     [(newBlock ascii_tables ''openai'' ''$.messages[0].content'' ''tool'' ''x y'')\<lparr>bl_ID := ''block_1''\<rparr>]) ! 0) = ''block_'' @ Itoa 1"
proof -
  have "pl_compressors (demo_pipeline\<lparr>pl_compressors := [NativeCompressor]\<rparr>) = [NativeCompressor]"
    "pl_counters (demo_pipeline\<lparr>pl_compressors := [NativeCompressor]\<rparr>) = NewCounterSet"
    by (simp_all add: demo_pipeline_def NewPipeline_def NewCounterSet_def)
  from native_request_compression [OF tool_body_detected this _ refl refl refl, of 0 ascii_tables] show ?thesis by simp
qed

end
