(* ===== verification/Go_Crypto.thy ===== *)
theory Go_Crypto
  imports Go_Unicode "HOL-Library.Word"
begin

unbundle bit_operations_syntax

text \<open>
  \<open>crypto/sha256\<close> and \<open>encoding/hex\<close> of Go's library: SHA-256 over 32-bit words as FIPS 180-4
  gives it, and hexadecimal printing and parsing of bytes. The content addresses of the CCR
  store, the admin token comparison and the release checksums are made of these.
\<close>

section \<open>SHA-256\<close>

text \<open>The round constants and the initial state, in decimal.\<close>

definition sha_K :: "32 word list" where
  "sha_K = [
    1116352408, 1899447441, 3049323471, 3921009573, 961987163, 1508970993, 2453635748, 2870763221,
    3624381080, 310598401, 607225278, 1426881987, 1925078388, 2162078206, 2614888103, 3248222580,
    3835390401, 4022224774, 264347078, 604807628, 770255983, 1249150122, 1555081692, 1996064986,
    2554220882, 2821834349, 2952996808, 3210313671, 3336571891, 3584528711, 113926993, 338241895,
    666307205, 773529912, 1294757372, 1396182291, 1695183700, 1986661051, 2177026350, 2456956037,
    2730485921, 2820302411, 3259730800, 3345764771, 3516065817, 3600352804, 4094571909, 275423344,
    430227734, 506948616, 659060556, 883997877, 958139571, 1322822218, 1537002063, 1747873779,
    1955562222, 2024104815, 2227730452, 2361852424, 2428436474, 2756734187, 3204031479, 3329325298]"

definition sha_H0 :: "32 word list" where
  "sha_H0 = [1779033703, 3144134277, 1013904242, 2773480762,
             1359893119, 2600822924, 528734635, 1541459225]"

definition rotr :: "nat \<Rightarrow> 32 word \<Rightarrow> 32 word" where
  "rotr n x = drop_bit n x OR push_bit (32 - n) x"

definition sigma0 :: "32 word \<Rightarrow> 32 word" where
  "sigma0 x = rotr 7 x XOR rotr 18 x XOR drop_bit 3 x"

definition sigma1 :: "32 word \<Rightarrow> 32 word" where
  "sigma1 x = rotr 17 x XOR rotr 19 x XOR drop_bit 10 x"

definition Sigma0 :: "32 word \<Rightarrow> 32 word" where
  "Sigma0 x = rotr 2 x XOR rotr 13 x XOR rotr 22 x"

definition Sigma1 :: "32 word \<Rightarrow> 32 word" where
  "Sigma1 x = rotr 6 x XOR rotr 11 x XOR rotr 25 x"

definition sha_choose :: "32 word \<Rightarrow> 32 word \<Rightarrow> 32 word \<Rightarrow> 32 word" where
  "sha_choose x y z = (x AND y) XOR (NOT x AND z)"

definition sha_majority :: "32 word \<Rightarrow> 32 word \<Rightarrow> 32 word \<Rightarrow> 32 word" where
  "sha_majority x y z = (x AND y) XOR (x AND z) XOR (y AND z)"

text \<open>The message schedule, most recent word first.\<close>

fun sha_extend :: "nat \<Rightarrow> 32 word list \<Rightarrow> 32 word list" where
  "sha_extend 0 ws = ws"
| "sha_extend (Suc n) ws =
     sha_extend n ((sigma1 (ws ! 1) + ws ! 6 + sigma0 (ws ! 14) + ws ! 15) # ws)"

fun sha_round :: "32 word list \<Rightarrow> 32 word \<times> 32 word \<Rightarrow> 32 word list" where
  "sha_round [a, b, c, d, e, f, g, h] (k, w) =
     (let t1 = h + Sigma1 e + sha_choose e f g + k + w;
          t2 = Sigma0 a + sha_majority a b c
      in [t1 + t2, a, b, c, d + t1, e, f, g])"
| "sha_round hs _ = hs"

definition sha_block :: "32 word list \<Rightarrow> 32 word list \<Rightarrow> 32 word list" where
  "sha_block hs ws =
     map2 (+) hs (foldl sha_round hs (zip sha_K (rev (sha_extend 48 (rev ws)))))"

definition sha_pad :: "string \<Rightarrow> nat list" where
  "sha_pad s =
     (let n = length s; z = (119 - n mod 64) mod 64
      in map byte s @ [128] @ replicate z 0 @
         map (\<lambda>i. (8 * n) div 256 ^ (7 - i) mod 256) [0..<8])"

fun be_words :: "nat list \<Rightarrow> 32 word list" where
  "be_words (a # b # c # d # rest) =
     of_nat (a * 16777216 + b * 65536 + c * 256 + d) # be_words rest"
| "be_words _ = []"

fun sha_blocks :: "nat \<Rightarrow> 32 word list \<Rightarrow> 32 word list \<Rightarrow> 32 word list" where
  "sha_blocks 0 hs ws = hs"
| "sha_blocks (Suc n) hs ws = sha_blocks n (sha_block hs (take 16 ws)) (drop 16 ws)"

definition word_bytes :: "32 word \<Rightarrow> nat list" where
  "word_bytes w = (let n = unat w in [n div 16777216 mod 256, n div 65536 mod 256, n div 256 mod 256, n mod 256])"

text \<open>\<open>sha256.Sum256\<close>: the 32 bytes of the digest.\<close>

definition sha256 :: "string \<Rightarrow> nat list" where
  "sha256 s =
     (let ws = be_words (sha_pad s)
      in concat (map word_bytes (sha_blocks (length ws div 16) sha_H0 ws)))"

lemma length_sha_round: "length (sha_round hs kw) = length hs"
  by (induction hs kw rule: sha_round.induct) (simp_all add: Let_def)

lemma length_foldl_sha_round: "length (foldl sha_round hs kws) = length hs"
  by (induction kws arbitrary: hs) (simp_all add: length_sha_round)

lemma length_sha_blocks: "length (sha_blocks n hs ws) = length hs"
  by (induction n hs ws rule: sha_blocks.induct)
    (simp_all add: sha_block_def length_foldl_sha_round)

lemma length_sha256: "length (sha256 s) = 32"
proof -
  have "length (concat (map word_bytes hs)) = 4 * length hs" for hs
    by (induction hs) (simp_all add: word_bytes_def Let_def)
  then show ?thesis
    by (simp add: sha256_def Let_def length_sha_blocks sha_H0_def)
qed

lemma sha256_bytes: "b \<in> set (sha256 s) \<Longrightarrow> b < 256"
  by (auto simp: sha256_def word_bytes_def Let_def)

section \<open>Hexadecimal\<close>

definition hex_digit :: "nat \<Rightarrow> char" where
  "hex_digit n = ''0123456789abcdef'' ! n"

definition is_hex_digit :: "char \<Rightarrow> bool" where
  "is_hex_digit c \<longleftrightarrow> is_digit c \<or> (97 \<le> byte c \<and> byte c \<le> 102) \<or> (65 \<le> byte c \<and> byte c \<le> 70)"

text \<open>\<open>hex.EncodeToString\<close>, and whether \<open>hex.DecodeString\<close> succeeds.\<close>

definition hex_encode :: "nat list \<Rightarrow> string" where
  "hex_encode bs = concat (map (\<lambda>b. [hex_digit (b div 16), hex_digit (b mod 16)]) bs)"

definition hex_decodable :: "string \<Rightarrow> bool" where
  "hex_decodable s \<longleftrightarrow> even (length s) \<and> list_all is_hex_digit s"

lemma hex_digits_are_hex: "list_all (\<lambda>n. is_hex_digit (hex_digit n)) [0..<16]"
  by (simp add: upt_conv_Cons hex_digit_def is_hex_digit_def is_digit_def)

lemma hex_digit_is_hex [simp]: "n < 16 \<Longrightarrow> is_hex_digit (hex_digit n)"
  using hex_digits_are_hex by (simp only: list_all_iff set_upt) simp

lemma length_hex_encode [simp]: "length (hex_encode bs) = 2 * length bs"
  by (induction bs) (simp_all add: hex_encode_def)

lemma hex_encode_decodable: "(\<And>b. b \<in> set bs \<Longrightarrow> b < 256) \<Longrightarrow> hex_decodable (hex_encode bs)"
proof -
  assume b: "\<And>b. b \<in> set bs \<Longrightarrow> b < 256"
  have "list_all is_hex_digit (hex_encode bs)"
    using b by (auto simp: hex_encode_def list_all_iff less_mult_imp_div_less)
  then show ?thesis by (simp add: hex_decodable_def)
qed

lemma is_hex_digit_solid: "is_hex_digit c \<Longrightarrow> byte c < 128 \<and> \<not> IsSpace (byte c) \<and>
    c \<noteq> CHR '':'' \<and> c \<noteq> CHR ''/'' \<and> c \<noteq> CHR ''.''"
  by (auto simp: is_hex_digit_def is_digit_def IsSpace_def)

section \<open>Digests as an interface\<close>

text \<open>
  What content addressing needs of a hash: a fixed number of bytes. The printed digest is
  then hexadecimal text of a fixed even length.
\<close>

locale digest =
  fixes sum :: "string \<Rightarrow> nat list" and size_bytes :: nat
  assumes length_sum: "length (sum s) = size_bytes"
    and sum_bytes: "b \<in> set (sum s) \<Longrightarrow> b < 256"
begin

lemma hex_length: "length (hex_encode (sum s)) = 2 * size_bytes"
  by (simp add: length_sum)

lemma hex_ok: "hex_decodable (hex_encode (sum s))"
  by (rule hex_encode_decodable) (rule sum_bytes)

end

interpretation sha: digest sha256 32
  by unfold_locales (simp_all add: length_sha256 sha256_bytes)

lemmas hex_eval [go_eval] = hex_digit_def is_hex_digit_def hex_encode_def hex_decodable_def

end
