(* ===== verification/Ccr_Marker.thy ===== *)
theory Ccr_Marker
  imports Go_Crypto
begin

text \<open>
  \<open>internal/ccr/marker.go\<close>: content addresses and the textual markers that stand for removed
  content, printed by \<open>RenderMarker\<close> and read back by \<open>ParseMarker\<close>.
\<close>

definition AlgorithmSHA256 :: string where "AlgorithmSHA256 = ''sha256''"
definition MarkerVersion :: string where "MarkerVersion = ''v1''"
definition SHA256HexLength :: nat where "SHA256HexLength = 64"
definition MaxMarkerLength :: nat where "MaxMarkerLength = 128"

datatype ccr_error = ErrInvalidAddress | ErrInvalidMarker

record address =
  ad_Algorithm :: string
  ad_Hex :: string
  ad_Bytes :: int

record marker =
  mk_Version :: string
  mk_Address :: address

record marker_context =
  mc_Provider :: string
  mc_Selected :: bool
  mc_Stable :: bool

definition AddressForContent :: "string \<Rightarrow> address" where
  "AddressForContent content =
     \<lparr>ad_Algorithm = AlgorithmSHA256, ad_Hex = hex_encode (sha256 content),
      ad_Bytes = int (length content)\<rparr>"

definition validateAddress :: "address \<Rightarrow> ccr_error option" where
  "validateAddress a =
     (if ad_Algorithm a \<noteq> AlgorithmSHA256 then Some ErrInvalidAddress
      else if ad_Bytes a < 0 then Some ErrInvalidAddress
      else if length (ad_Hex a) \<noteq> SHA256HexLength then Some ErrInvalidAddress
      else if \<not> hex_decodable (ad_Hex a) then Some ErrInvalidAddress
      else None)"

definition marker_prefix :: string where "marker_prefix = ''[[cachy-ccr:''"

definition RenderMarker :: "address \<Rightarrow> ccr_error + string" where
  "RenderMarker a =
     (case validateAddress a of
        Some err \<Rightarrow> Inl err
      | None \<Rightarrow>
          let m = marker_prefix @ MarkerVersion @ '' '' @ ad_Algorithm a @ '':'' @ ad_Hex a
                  @ '' bytes:'' @ Itoa (ad_Bytes a) @ '']]''
          in if MaxMarkerLength < length m then Inl ErrInvalidMarker else Inr m)"

definition ParseMarker :: "string \<Rightarrow> ccr_error + marker" where
  "ParseMarker text =
     (if length text = 0 \<or> MaxMarkerLength < length text then Inl ErrInvalidMarker
      else if \<not> HasPrefix text marker_prefix \<or> \<not> HasSuffix text '']]'' then Inl ErrInvalidMarker
      else
        let inner = TrimSuffix (TrimPrefix text marker_prefix) '']]'';
            parts = Fields inner
        in if length parts \<noteq> 3 then Inl ErrInvalidMarker
           else if parts ! 0 \<noteq> MarkerVersion then Inl ErrInvalidMarker
           else case Cut (parts ! 1) '':'' of
             None \<Rightarrow> Inl ErrInvalidMarker
           | Some (algorithm, hash) \<Rightarrow>
               (case Cut (parts ! 2) '':'' of
                  None \<Rightarrow> Inl ErrInvalidMarker
                | Some (sizeLabel, sizeText) \<Rightarrow>
                    if sizeLabel \<noteq> ''bytes'' then Inl ErrInvalidMarker
                    else case Atoi sizeText of
                      None \<Rightarrow> Inl ErrInvalidMarker
                    | Some n \<Rightarrow>
                        let a = \<lparr>ad_Algorithm = algorithm, ad_Hex = hash, ad_Bytes = n\<rparr>
                        in case validateAddress a of
                             Some err \<Rightarrow> Inl err
                           | None \<Rightarrow> Inr \<lparr>mk_Version = MarkerVersion, mk_Address = a\<rparr>))"

definition CanEmitMarker :: "marker_context \<Rightarrow> bool" where
  "CanEmitMarker ctx =
     (if \<not> mc_Selected ctx \<or> mc_Stable ctx then False
      else mc_Provider ctx = ''openai'' \<or> mc_Provider ctx = ''anthropic'')"

lemmas marker_consts = AlgorithmSHA256_def MarkerVersion_def SHA256HexLength_def
  MaxMarkerLength_def marker_prefix_def

section \<open>Addresses\<close>

lemma AddressForContent_valid: "validateAddress (AddressForContent c) = None"
  using sha.hex_length [of c] sha.hex_ok [of c]
  by (simp add: validateAddress_def AddressForContent_def marker_consts)

lemma validateAddress_None:
  "validateAddress a = None \<longleftrightarrow>
     ad_Algorithm a = AlgorithmSHA256 \<and> 0 \<le> ad_Bytes a \<and> length (ad_Hex a) = SHA256HexLength \<and>
     list_all is_hex_digit (ad_Hex a)"
  by (auto simp: validateAddress_def hex_decodable_def SHA256HexLength_def)

lemma hex_text_solid: "list_all is_hex_digit s \<Longrightarrow> solid s"
  by (auto simp: solid_def list_all_iff is_hex_digit_solid)

lemma hex_text_no_colon: "list_all is_hex_digit s \<Longrightarrow> CHR '':'' \<notin> set s"
  by (auto simp: list_all_iff dest!: is_hex_digit_solid)

lemma decimal_hex: "list_all is_hex_digit (decimal n)"
  by (rule list.pred_mono_strong [OF decimal_digits]) (simp add: is_hex_digit_def)

section \<open>Rendering\<close>

text \<open>A valid address of a Go \<open>int\<close> size always fits: the length check cannot fail.\<close>

lemma length_Itoa_int64: "0 \<le> n \<Longrightarrow> in_int64 n \<Longrightarrow> length (Itoa n) \<le> 19"
  using length_decimal [of "nat n" 18] by (simp add: Itoa_def in_int64_def nat_less_iff)

lemma RenderMarker_valid:
  assumes "validateAddress a = None" and "in_int64 (ad_Bytes a)"
  shows "RenderMarker a =
    Inr (marker_prefix @ MarkerVersion @ '' '' @ AlgorithmSHA256 @ '':'' @ ad_Hex a @ '' bytes:''
         @ Itoa (ad_Bytes a) @ '']]'')"
proof -
  note v = assms(1) [unfolded validateAddress_None]
  have "length (marker_prefix @ MarkerVersion @ '' '' @ AlgorithmSHA256 @ '':'' @ ad_Hex a
      @ '' bytes:'' @ Itoa (ad_Bytes a) @ '']]'') \<le> MaxMarkerLength"
    using v length_Itoa_int64 [OF _ assms(2)] by (simp add: marker_consts)
  then show ?thesis
    unfolding RenderMarker_def assms(1) Let_def using v by simp
qed

lemma RenderMarker_length:
  "RenderMarker a = Inr m \<Longrightarrow> in_int64 (ad_Bytes a) \<Longrightarrow> length m \<le> 114"
  using length_Itoa_int64 [of "ad_Bytes a"]
  by (auto simp: RenderMarker_def Let_def validateAddress_None marker_consts
      split: option.splits if_splits)

section \<open>Round trip\<close>

lemma Fields_marker:
  assumes "solid h" and "solid d" and "d \<noteq> []"
  shows "Fields (''v1 sha256:'' @ h @ '' bytes:'' @ d) = [''v1'', ''sha256:'' @ h, ''bytes:'' @ d]"
proof -
  have "Fields (''v1'' @ CHR '' '' # (''sha256:'' @ h @ '' bytes:'' @ d)) =
      ''v1'' # Fields (''sha256:'' @ h @ '' bytes:'' @ d)"
    by (rule Fields_solid_space) (simp_all add: IsSpace_def)
  moreover have "Fields ((''sha256:'' @ h) @ CHR '' '' # (''bytes:'' @ d)) =
      (''sha256:'' @ h) # Fields (''bytes:'' @ d)"
    by (rule Fields_solid_space) (use assms in \<open>simp_all add: IsSpace_def\<close>)
  moreover have "Fields (''bytes:'' @ d) = [''bytes:'' @ d]"
    by (rule Fields_solid) (use assms in \<open>simp_all add: IsSpace_def\<close>)
  ultimately show ?thesis by simp
qed

lemma ParseMarker_RenderMarker:
  assumes valid: "validateAddress a = None" and range: "in_int64 (ad_Bytes a)"
    and m: "RenderMarker a = Inr m"
  shows "ParseMarker m = Inr \<lparr>mk_Version = MarkerVersion, mk_Address = a\<rparr>"
proof -
  note v = valid [unfolded validateAddress_None]
  have pos: "0 \<le> ad_Bytes a" using v by simp
  let ?d = "Itoa (ad_Bytes a)"
  have d: "?d = decimal (nat (ad_Bytes a))" using pos by (simp add: Itoa_def)
  define inner where "inner = ''v1 sha256:'' @ ad_Hex a @ '' bytes:'' @ ?d"
  have m': "m = marker_prefix @ inner @ '']]''"
    using m RenderMarker_valid [OF valid range] by (simp add: inner_def marker_consts)
  have "length m \<le> 114" by (rule RenderMarker_length [OF m range])
  moreover have "HasSuffix m '']]''" unfolding m' append_assoc [symmetric] by (rule HasSuffix_append)
  moreover have "TrimSuffix (TrimPrefix m marker_prefix) '']]'' = inner"
    by (simp only: m' TrimPrefix_append TrimSuffix_append)
  moreover have "Fields inner = [''v1'', ''sha256:'' @ ad_Hex a, ''bytes:'' @ ?d]"
    unfolding inner_def
    by (rule Fields_marker) (use v in \<open>simp_all add: hex_text_solid decimal_hex d\<close>)
  moreover have "Cut (''sha256:'' @ ad_Hex a) '':'' = Some (''sha256'', ad_Hex a)"
    using Cut_single [of "CHR '':''" "''sha256''" "ad_Hex a"] by simp
  moreover have "Cut (''bytes:'' @ ?d) '':'' = Some (''bytes'', ?d)"
    using Cut_single [of "CHR '':''" "''bytes''" ?d] by simp
  moreover have "HasPrefix m marker_prefix" by (simp add: m')
  moreover have "m \<noteq> []" by (simp add: m' marker_consts)
  moreover have "\<lparr>ad_Algorithm = ''sha256'', ad_Hex = ad_Hex a, ad_Bytes = ad_Bytes a\<rparr> = a"
    using v by (simp add: AlgorithmSHA256_def)
  ultimately show ?thesis
    using v range valid
    by (simp add: ParseMarker_def Let_def Atoi_Itoa) (simp add: marker_consts)
qed

lemma ParseMarker_Inr:
  assumes "ParseMarker t = Inr m"
  shows "mk_Version m = MarkerVersion \<and> validateAddress (mk_Address m) = None \<and>
    in_int64 (ad_Bytes (mk_Address m))"
  using assms
  by (auto simp: ParseMarker_def Let_def dest: Atoi_in_range split: if_splits option.splits prod.splits)

section \<open>Properties\<close>

text \<open>C20. Every valid address whose size is a Go \<open>int\<close> has a marker, of at most 114 of the 128
  bytes allowed, and parsing the marker gives the version and the address back.\<close>

theorem marker_round_trip:
  assumes "validateAddress a = None" and "in_int64 (ad_Bytes a)"
  shows "\<exists>m. RenderMarker a = Inr m \<and> length m \<le> 114 \<and>
    ParseMarker m = Inr \<lparr>mk_Version = MarkerVersion, mk_Address = a\<rparr>"
proof -
  obtain m where m: "RenderMarker a = Inr m" using RenderMarker_valid [OF assms] by blast
  then show ?thesis using RenderMarker_length [OF m assms(2)] ParseMarker_RenderMarker [OF assms m] by blast
qed

lemma marker_round_trip_witness:
  "\<exists>m. RenderMarker (AddressForContent ''abc'') = Inr m \<and> length m \<le> 114 \<and>
    ParseMarker m = Inr \<lparr>mk_Version = MarkerVersion, mk_Address = AddressForContent ''abc''\<rparr>"
  by (rule marker_round_trip [OF AddressForContent_valid])
    (simp add: AddressForContent_def in_int64_def)

text \<open>Whatever text \<open>ParseMarker\<close> accepts names a valid address of this version, and the
  marker rendered for it parses to the same value: parsing brings markers to a normal form.\<close>

theorem ParseMarker_normalizes:
  assumes "ParseMarker t = Inr m"
  shows "validateAddress (mk_Address m) = None \<and> length t \<le> MaxMarkerLength \<and>
    (\<exists>s. RenderMarker (mk_Address m) = Inr s \<and> ParseMarker s = Inr m)"
proof -
  have p: "mk_Version m = MarkerVersion" "validateAddress (mk_Address m) = None"
      "in_int64 (ad_Bytes (mk_Address m))"
    using ParseMarker_Inr [OF assms] by simp_all
  have m: "m = \<lparr>mk_Version = MarkerVersion, mk_Address = mk_Address m\<rparr>" using p(1) by simp
  obtain s where s: "RenderMarker (mk_Address m) = Inr s" using RenderMarker_valid [OF p(2,3)] by blast
  have "ParseMarker s = Inr m" using ParseMarker_RenderMarker [OF p(2,3) s] m by simp
  moreover have "length t \<le> MaxMarkerLength" using assms by (auto simp: ParseMarker_def split: if_splits)
  ultimately show ?thesis using p s by blast
qed

lemma ParseMarker_normalizes_witness:
  "\<exists>s. RenderMarker (AddressForContent ''abc'') = Inr s \<and>
     ParseMarker s = Inr \<lparr>mk_Version = MarkerVersion, mk_Address = AddressForContent ''abc''\<rparr>"
proof -
  let ?a = "AddressForContent ''abc''"
  have r: "in_int64 (ad_Bytes ?a)" by (simp add: AddressForContent_def in_int64_def)
  obtain t where t: "RenderMarker ?a = Inr t"
    using RenderMarker_valid [OF AddressForContent_valid r] by blast
  have p: "ParseMarker t = Inr \<lparr>mk_Version = MarkerVersion, mk_Address = ?a\<rparr>"
    by (rule ParseMarker_RenderMarker [OF AddressForContent_valid r t])
  from ParseMarker_normalizes [OF p] show ?thesis by simp
qed

end
