(* ===== verification/Go_Filepath.thy ===== *)
theory Go_Filepath
  imports Go_Strings
begin

text \<open>
  \<open>path/filepath\<close> on Unix: \<open>Clean\<close>, \<open>Join\<close>, \<open>Dir\<close> and \<open>Base\<close>. A path is cleaned by folding its
  slash-separated elements; an element is \<open>plain\<close> when it is none of the empty string, \<open>.\<close>
  and \<open>..\<close> and holds no slash. Joining plain elements to a path appends them.
\<close>

definition clean_step :: "bool \<Rightarrow> string list \<Rightarrow> string \<Rightarrow> string list" where
  "clean_step rooted acc elem =
     (if elem = [] \<or> elem = ''.'' then acc
      else if elem = ''..'' then
        (if acc \<noteq> [] \<and> last acc \<noteq> ''..'' then butlast acc
         else if rooted then acc else acc @ [''..''])
      else acc @ [elem])"

definition clean_elems :: "string \<Rightarrow> string list" where
  "clean_elems p = foldl (clean_step (HasPrefix p ''/'')) [] (Split p ''/'')"

definition Clean :: "string \<Rightarrow> string" where
  "Clean p =
     (if p = [] then ''.''
      else if HasPrefix p ''/'' then ''/'' @ Join (clean_elems p) ''/''
      else if clean_elems p = [] then ''.''
      else Join (clean_elems p) ''/'')"

definition path_Join :: "string list \<Rightarrow> string" where
  "path_Join parts =
     (let parts = dropWhile (\<lambda>e. e = []) parts
      in if parts = [] then [] else Clean (Join parts ''/''))"

text \<open>\<open>filepath.Dir\<close>: what precedes the last slash, cleaned; \<open>filepath.Base\<close>: the last element.\<close>

definition before_slash :: "string \<Rightarrow> string" where
  "before_slash p = rev (dropWhile (\<lambda>c. c \<noteq> CHR ''/'') (rev p))"

definition after_slash :: "string \<Rightarrow> string" where
  "after_slash p = rev (takeWhile (\<lambda>c. c \<noteq> CHR ''/'') (rev p))"

definition Dir :: "string \<Rightarrow> string" where
  "Dir p = Clean (before_slash p)"

definition Base :: "string \<Rightarrow> string" where
  "Base p =
     (if p = [] then ''.''
      else let q = TrimRight p ''/'' in if q = [] then ''/'' else after_slash q)"

section \<open>Plain elements\<close>

definition plain :: "string \<Rightarrow> bool" where
  "plain e \<longleftrightarrow> e \<noteq> [] \<and> e \<noteq> ''.'' \<and> e \<noteq> ''..'' \<and> CHR ''/'' \<notin> set e"

lemma Split_append_single: "Split (x @ c # y) [c] = Split x [c] @ Split y [c]"
proof -
  have "Split (Join (Split x [c] @ Split y [c]) [c]) [c] = Split x [c] @ Split y [c]"
    by (rule Split_Join_single) (use Split_single_pieces in auto)
  then show ?thesis by (simp add: Join_append)
qed

lemma foldl_clean_plain: "list_all plain ps \<Longrightarrow> foldl (clean_step r) acc ps = acc @ ps"
  by (induction ps arbitrary: acc) (auto simp: clean_step_def plain_def)

lemma Split_Join_plain: "list_all plain ps \<Longrightarrow> ps \<noteq> [] \<Longrightarrow> Split (Join ps ''/'') ''/'' = ps"
  by (rule Split_Join_single) (auto simp: plain_def list_all_iff)

lemma HasPrefix_nonempty: "root \<noteq> [] \<Longrightarrow> HasPrefix (root @ t) [c] = HasPrefix root [c]"
  by (simp add: HasPrefix_single)

lemma clean_elems_append:
  assumes "root \<noteq> []" and "list_all plain ps" and "ps \<noteq> []"
  shows "clean_elems (root @ CHR ''/'' # Join ps ''/'') = clean_elems root @ ps"
  unfolding clean_elems_def HasPrefix_nonempty [OF assms(1)] Split_append_single
    Split_Join_plain [OF assms(2,3)]
  by (simp add: foldl_clean_plain [OF assms(2)])

text \<open>Joining plain elements to a non-empty root appends them to the cleaned root.\<close>

lemma path_Join_plain:
  assumes "root \<noteq> []" and "list_all plain ps" and "ps \<noteq> []"
  shows "path_Join (root # ps) =
    (if HasPrefix root ''/'' then ''/'' else []) @ Join (clean_elems root @ ps) ''/''"
proof -
  have j: "Join (root # ps) ''/'' = root @ CHR ''/'' # Join ps ''/''"
    using assms(3) by (simp add: Join_Cons)
  show ?thesis
    unfolding path_Join_def Let_def
    using assms(1,3)
    by (simp add: j Clean_def clean_elems_append [OF assms] HasPrefix_nonempty)
qed

lemma after_slash_append: "CHR ''/'' \<notin> set e \<Longrightarrow> after_slash (p @ CHR ''/'' # e) = e"
  by (simp add: after_slash_def takeWhile_append)

lemma after_slash_single: "CHR ''/'' \<notin> set e \<Longrightarrow> after_slash e = e"
proof -
  assume "CHR ''/'' \<notin> set e"
  then have "takeWhile (\<lambda>c. c \<noteq> CHR ''/'') (rev e) = rev e"
    by (intro takeWhile_eq_all_conv [THEN iffD2]) auto
  then show ?thesis by (simp only: after_slash_def rev_rev_ident)
qed

lemma Base_Join:
  assumes "plain e"
  shows "Base (pre @ Join (es @ [e]) ''/'') = (if es = [] then after_slash (pre @ e) else e)"
proof -
  have e: "e \<noteq> []" "CHR ''/'' \<notin> set e" using assms by (auto simp: plain_def)
  have l: "last (pre @ Join (es @ [e]) ''/'') = last e"
    using e by (cases "es = []") (simp_all add: Join_append)
  have "last e \<noteq> CHR ''/''" using e by (metis last_in_set)
  then have "TrimRight (pre @ Join (es @ [e]) ''/'') ''/'' = pre @ Join (es @ [e]) ''/''"
    using l by (intro TrimRight_id) simp
  moreover have "pre @ Join (es @ [e]) ''/'' \<noteq> []"
    using e by (cases "es = []") (simp_all add: Join_append)
  ultimately have "Base (pre @ Join (es @ [e]) ''/'') = after_slash (pre @ Join (es @ [e]) ''/'')"
    unfolding Base_def Let_def by (simp only: if_False)
  also have "\<dots> = (if es = [] then after_slash (pre @ e) else e)"
    using after_slash_append [OF e(2), of "pre @ Join es ''/''"] by (simp add: Join_append)
  finally show ?thesis .
qed

lemma Base_path_Join:
  assumes "root \<noteq> []" and "list_all plain ps" and "plain e"
  shows "Base (path_Join (root # ps @ [e])) = e"
proof -
  have e: "CHR ''/'' \<notin> set e" using assms(3) by (simp add: plain_def)
  define pre where "pre = (if HasPrefix root ''/'' then ''/'' else [])"
  have "path_Join (root # ps @ [e]) = pre @ Join ((clean_elems root @ ps) @ [e]) ''/''"
    using path_Join_plain [of root "ps @ [e]"] assms by (simp add: pre_def)
  moreover have "after_slash (pre @ e) = e"
    using after_slash_append [OF e, of "[]"] after_slash_single [OF e] by (simp add: pre_def)
  ultimately show ?thesis by (simp only: Base_Join [OF assms(3)] if_cancel)
qed

lemmas filepath_eval [go_eval] = clean_step_def clean_elems_def Clean_def path_Join_def
  before_slash_def after_slash_def Dir_def Base_def

section \<open>Cleaned paths\<close>

text \<open>The elements of a cleaned path: parent steps, in a relative path only, and then plain elements.\<close>

definition clean_form :: "bool \<Rightarrow> string list \<Rightarrow> bool" where
  "clean_form rooted es \<longleftrightarrow>
     (\<exists>n ps. es = replicate n ''..'' @ ps \<and> list_all plain ps \<and> (rooted \<longrightarrow> n = 0))"

lemma clean_formI:
  "es = replicate n ''..'' @ ps \<Longrightarrow> list_all plain ps \<Longrightarrow> (rooted \<Longrightarrow> n = 0) \<Longrightarrow> clean_form rooted es"
  by (auto simp: clean_form_def)

lemma clean_step_form:
  assumes "clean_form r acc" and "CHR ''/'' \<notin> set e"
  shows "clean_form r (clean_step r acc e)"
proof -
  obtain n ps where acc: "acc = replicate n ''..'' @ ps" and ps: "list_all plain ps" and n: "r \<longrightarrow> n = 0"
    using assms(1) by (auto simp: clean_form_def)
  consider "e = [] \<or> e = ''.''" | "e = ''..''" "ps = []" | "e = ''..''" "ps \<noteq> []" | "plain e"
    using assms(2) by (auto simp: plain_def)
  then show ?thesis
  proof cases
    case 1
    then show ?thesis using assms(1) by (auto simp: clean_step_def)
  next
    case 2
    then show ?thesis
      using acc n by (cases "n = 0")
        (auto simp: clean_step_def replicate_append_same intro: clean_formI [of _ "Suc n" "[]"]
          clean_formI [of _ 0 "[]"])
  next
    case 3
    have "last ps \<noteq> ''..''" using 3 ps by (auto simp: list_all_iff plain_def)
    then have "clean_step r acc e = replicate n ''..'' @ butlast ps"
      using 3 by (simp add: clean_step_def acc butlast_append)
    moreover have "list_all plain (butlast ps)" using ps by (auto simp: list_all_iff dest: in_set_butlastD)
    ultimately show ?thesis using n by (auto intro: clean_formI)
  next
    case 4
    then have "clean_step r acc e = replicate n ''..'' @ ps @ [e]"
      by (simp add: clean_step_def plain_def acc)
    then show ?thesis using ps 4 n by (intro clean_formI [of _ n "ps @ [e]"]) auto
  qed
qed

lemma clean_elems_form: "clean_form (HasPrefix p ''/'') (clean_elems p)"
proof -
  have "list_all (\<lambda>e. CHR ''/'' \<notin> set e) es \<Longrightarrow> clean_form r acc \<Longrightarrow>
      clean_form r (foldl (clean_step r) acc es)" for r acc es
    by (induction es arbitrary: acc) (simp_all add: clean_step_form)
  moreover have "list_all (\<lambda>e. CHR ''/'' \<notin> set e) (Split p ''/'')"
    using Split_single_pieces by (auto simp: list_all_iff)
  moreover have "clean_form r []" for r by (rule clean_formI [of _ 0 "[]"]) auto
  ultimately show ?thesis by (simp add: clean_elems_def)
qed

lemma foldl_clean_form:
  assumes "clean_form r es"
  shows "foldl (clean_step r) [] es = es"
proof -
  obtain n ps where es: "es = replicate n ''..'' @ ps" and ps: "list_all plain ps" and n: "r \<longrightarrow> n = 0"
    using assms by (auto simp: clean_form_def)
  have "foldl (clean_step r) (replicate m ''..'') (replicate n ''..'') = replicate (m + n) ''..''" for m
  proof (cases r)
    case True
    then show ?thesis using n by simp
  next
    case False
    then show ?thesis
    proof (induction n arbitrary: m)
      case (Suc n)
      have "clean_step r (replicate m ''..'') ''..'' = replicate (Suc m) ''..''"
        using Suc.prems by (auto simp: clean_step_def replicate_append_same last_replicate)
      then show ?case using Suc.IH [OF Suc.prems, of "Suc m"] by simp
    qed simp
  qed
  from this [of 0] show ?thesis by (simp add: es foldl_clean_plain [OF ps])
qed

lemma clean_form_elems:
  assumes "clean_form r es"
  shows "\<forall>e \<in> set es. e \<noteq> [] \<and> CHR ''/'' \<notin> set e"
proof -
  obtain n ps where es: "es = replicate n ''..'' @ ps" and ps: "list_all plain ps"
    using assms by (auto simp: clean_form_def)
  show ?thesis
  proof
    fix e
    assume "e \<in> set es"
    then have "e = ''..'' \<or> e \<in> set ps" unfolding es by (cases "n = 0") simp_all
    then show "e \<noteq> [] \<and> CHR ''/'' \<notin> set e"
    proof
      assume "e \<in> set ps"
      then show ?thesis using ps by (simp add: list_all_iff plain_def)
    qed simp
  qed
qed

lemma Split_Join_form: "clean_form r es \<Longrightarrow> es \<noteq> [] \<Longrightarrow> Split (Join es ''/'') ''/'' = es"
  using clean_form_elems by (intro Split_Join_single) auto

lemma Join_form_head:
  assumes "clean_form r es"
  shows "HasPrefix (Join es ''/'') ''/'' = False"
proof (cases es)
  case (Cons e es')
  obtain c e' where e: "e = c # e'" "c \<noteq> CHR ''/''"
    using clean_form_elems [OF assms] Cons by (cases e) auto
  then show ?thesis
    by (cases es') (simp_all add: Cons HasPrefix_single Join_Cons)
qed (simp add: HasPrefix_single)

lemma clean_elems_Join_form:
  assumes "clean_form r es"
  shows "clean_elems ((if r then ''/'' else []) @ Join es ''/'') = es"
proof (cases "es = []")
  case True
  then show ?thesis by (simp add: clean_elems_def clean_step_def HasPrefix_def go_eval)
next
  case False
  show ?thesis
  proof (cases r)
    case True
    have "Split (''/'' @ Join es ''/'') ''/'' = [] # es"
      using Split_append_single [of "[]" "CHR ''/''" "Join es ''/''"] Split_Join_form [OF assms False]
      by (simp add: go_eval)
    then show ?thesis
      using True foldl_clean_form [OF assms]
      by (simp add: clean_elems_def HasPrefix_single) (simp add: clean_step_def [of True "[]" "[]"])
  next
    case False
    then show ?thesis
      using assms Join_form_head [OF assms] Split_Join_form [OF assms \<open>es \<noteq> []\<close>] foldl_clean_form [OF assms]
      by (simp add: clean_elems_def)
  qed
qed

lemma Clean_shape:
  "Clean p = (if p = [] \<or> (clean_elems p = [] \<and> \<not> HasPrefix p ''/'') then ''.''
     else (if HasPrefix p ''/'' then ''/'' else []) @ Join (clean_elems p) ''/'')"
  by (simp add: Clean_def)

lemma HasPrefix_Join_form:
  "clean_form r es \<Longrightarrow> HasPrefix ((if r then ''/'' else []) @ Join es ''/'') ''/'' = r"
  using Join_form_head [of r es] by (simp add: HasPrefix_single)

text \<open>A joined clean form is clean, and cleaning is idempotent.\<close>

lemma Clean_Join_form:
  assumes "clean_form r es" and "r \<or> es \<noteq> []"
  shows "Clean ((if r then ''/'' else []) @ Join es ''/'') = (if r then ''/'' else []) @ Join es ''/''"
proof -
  let ?p = "(if r then ''/'' else []) @ Join es ''/''"
  have "?p \<noteq> []"
    using assms clean_form_elems [OF assms(1)] by (cases r; cases es; cases "tl es") (auto simp: Join_Cons)
  then show ?thesis
    unfolding Clean_shape clean_elems_Join_form [OF assms(1)] HasPrefix_Join_form [OF assms(1)]
    using assms(2) by auto
qed

lemma Clean_idem [simp]: "Clean (Clean p) = Clean p"
proof (cases "p = [] \<or> (clean_elems p = [] \<and> \<not> HasPrefix p ''/'')")
  case True
  have "Clean ''.'' = ''.''" by (simp add: Clean_def clean_elems_def clean_step_def HasPrefix_def go_eval)
  then show ?thesis using True by (simp add: Clean_shape [of p])
next
  case False
  then show ?thesis
    using Clean_Join_form [OF clean_elems_form [of p]] by (simp only: Clean_shape [of p] if_False) blast
qed

lemma Clean_path_Join: "Clean (path_Join (e # es)) = path_Join (e # es) \<or> path_Join (e # es) = []"
  by (simp add: path_Join_def Let_def)

text \<open>Joining one plain element to a clean directory.\<close>

definition directory :: "string \<Rightarrow> bool" where
  "directory d \<longleftrightarrow> d \<notin> {[], ''.'', ''/''} \<and> Clean d = d"

lemma path_Join_directory:
  assumes "directory d" and "plain e"
  shows "path_Join [d, e] = d @ CHR ''/'' # e"
proof -
  have d: "d \<noteq> []" "Clean d = d" "d \<noteq> ''.''" "d \<noteq> ''/''" using assms(1) by (auto simp: directory_def)
  have j: "path_Join [d, e] = (if HasPrefix d ''/'' then ''/'' else []) @ Join (clean_elems d @ [e]) ''/''"
    using path_Join_plain [of d "[e]"] d(1) assms(2) by simp
  have "clean_elems d \<noteq> []"
    using d Clean_shape [of d] by (auto split: if_splits)
  then have "d = (if HasPrefix d ''/'' then ''/'' else []) @ Join (clean_elems d) ''/''"
    using d Clean_shape [of d] by simp
  then show ?thesis
    using \<open>clean_elems d \<noteq> []\<close> unfolding j by (simp add: Join_append split: if_splits)
qed

lemma path_Join_nil: "plain e \<Longrightarrow> path_Join [[], e] = e"
proof -
  assume e: "plain e"
  then have "clean_form False [e]" by (intro clean_formI [of _ 0 "[e]"]) auto
  then have "Clean e = e" using Clean_Join_form [of False "[e]"] by simp
  then show ?thesis using e by (simp add: path_Join_def plain_def)
qed

lemma Base_plain: "plain e \<Longrightarrow> Base e = e"
  using Base_Join [of e "[]" "[]"] by (simp add: after_slash_single plain_def)

lemma directory_path_Join:
  assumes "plain e"
  shows "directory (path_Join [root, e])"
proof -
  obtain es where j: "path_Join [root, e] = (if HasPrefix root ''/'' then ''/'' else []) @ Join (es @ [e]) ''/''"
    and f: "clean_form (HasPrefix root ''/'') (es @ [e])"
  proof (cases "root = []")
    case True
    have f: "clean_form False [e]" using assms by (intro clean_formI [of _ 0 "[e]"]) auto
    have "path_Join [root, e] = e" using True path_Join_nil [OF assms] by simp
    then show ?thesis using that [of "[]"] f True by (simp add: HasPrefix_def)
  next
    case False
    obtain n ps where c: "clean_elems root = replicate n ''..'' @ ps" "list_all plain ps"
      "HasPrefix root ''/'' \<longrightarrow> n = 0"
      using clean_elems_form [of root] by (auto simp: clean_form_def)
    then have "clean_form (HasPrefix root ''/'') (clean_elems root @ [e])"
      using assms by (intro clean_formI [of _ n "ps @ [e]"]) auto
    then show ?thesis using that path_Join_plain [of root "[e]"] False assms by simp
  qed
  have "Clean (path_Join [root, e]) = path_Join [root, e]"
    unfolding j by (rule Clean_Join_form [OF f]) simp
  moreover have "Base (path_Join [root, e]) = e"
  proof (cases "root = []")
    case True
    then show ?thesis using path_Join_nil Base_plain assms by simp
  qed (use Base_path_Join [of root "[]" e] assms in simp)
  moreover have "Base ''.'' = ''.''" "Base ''/'' = ''/''" by (simp_all add: go_eval)
  ultimately show ?thesis using assms by (auto simp: directory_def plain_def Base_def)
qed

text \<open>What joining one plain element puts before it.\<close>

definition dir_prefix :: "string \<Rightarrow> string" where
  "dir_prefix dir =
     (let c = Clean dir in if c = ''.'' then [] else if c = ''/'' then c else c @ ''/'')"

lemma path_Join_dir_prefix:
  assumes "plain e"
  shows "path_Join [root, e] = dir_prefix root @ e"
proof (cases "root = []")
  case True
  then show ?thesis by (simp add: path_Join_nil [OF assms] dir_prefix_def Clean_def)
next
  case False
  have f: "clean_form (HasPrefix root ''/'') (clean_elems root)" by (rule clean_elems_form)
  have j: "path_Join [root, e] = (if HasPrefix root ''/'' then ''/'' else []) @ Join (clean_elems root @ [e]) ''/''"
    using path_Join_plain [of root "[e]"] False assms by simp
  show ?thesis
  proof (cases "clean_elems root = []")
    case True
    then show ?thesis using False by (auto simp: j dir_prefix_def Clean_shape Let_def)
  next
    case ne: False
    have c: "Clean root = (if HasPrefix root ''/'' then ''/'' else []) @ Join (clean_elems root) ''/''"
      using False ne by (simp add: Clean_shape)
    have "clean_elems (Clean root) = clean_elems root"
      unfolding c by (rule clean_elems_Join_form [OF f])
    moreover have "clean_elems ''.'' = []" "clean_elems ''/'' = []"
      by (simp_all add: clean_elems_def clean_step_def HasPrefix_def go_eval)
    ultimately have "Clean root \<noteq> ''.''" "Clean root \<noteq> ''/''" using ne by metis+
    then show ?thesis using ne by (simp add: j dir_prefix_def c [symmetric]) (simp add: c Join_append)
  qed
qed

lemma takeWhile_slash: "CHR ''/'' \<notin> set n \<Longrightarrow> takeWhile (\<lambda>c. c \<noteq> CHR ''/'') (n @ CHR ''/'' # t) = n"
  by (simp add: takeWhile_append)

end
