(* ===== verification/Go_Sort.thy ===== *)
theory Go_Sort
  imports Go_Prelude "HOL-Library.Multiset" "HOL-Library.List_Lexorder" "HOL-Library.Char_ord"
begin

text \<open>
  \<open>sort.Slice\<close> with an order on keys, by its contract: a permutation with ascending keys. What has
  the same key may come in any order. Strings are ordered byte by byte, as in Go.
\<close>

locale slice_sort =
  fixes key :: "'a \<Rightarrow> 'k::linorder" and sort_slice :: "'a list \<Rightarrow> 'a list"
  assumes permutes: "mset (sort_slice xs) = mset xs"
    and ascending: "sorted (map key (sort_slice xs))"
begin

lemma set_sort: "set (sort_slice xs) = set xs"
  using permutes by (metis set_mset_mset)

lemma length_sort: "length (sort_slice xs) = length xs"
  using permutes by (metis size_mset)

text \<open>Where keys are distinct the result is determined.\<close>

lemma sort_unique:
  assumes "inj_on key (set xs)"
  shows "sort_slice xs = sort_key key xs"
proof (rule properties_for_sort_key [symmetric])
  fix k
  assume "k \<in> set (sort_slice xs)"
  then have k: "k \<in> set xs" by (simp add: set_sort)
  have f: "filter (\<lambda>x. key k = key x) ys = replicate (count (mset xs) k) k" if "mset ys = mset xs" for ys
  proof -
    have "set ys = set xs" using that by (metis set_mset_mset)
    then have "filter (\<lambda>x. key k = key x) ys = filter (HOL.eq k) ys"
      using assms k by (intro filter_cong) (auto dest: inj_onD)
    also have "\<dots> = replicate (count (mset ys) k) k" by (simp only: replicate_count_mset_eq_filter_eq)
    finally show ?thesis using that by simp
  qed
  show "filter (\<lambda>x. key k = key x) (sort_slice xs) = filter (\<lambda>x. key k = key x) xs"
    by (simp add: f permutes)
qed (simp_all add: permutes ascending)

end

end
