(* ===== verification/Go_Os.thy ===== *)
theory Go_Os
  imports Go_Filepath Go_Sort
begin

text \<open>
  Package \<open>os\<close>: the regular files as a list of paths and contents; directories are implied by the
  paths of the files below them, permissions are not modelled. A call fails for a reason of the
  environment's when the function of its path given to it says so. A write to an open file may fail
  after some of the bytes: \<open>short_write\<close> says of which paths, with how many and with what error.
\<close>

datatype os_error = OsNotExist | OsExist | OsOther string

record stored_file =
  f_Content :: string
  f_ModTime :: int

type_synonym fs = "(string \<times> stored_file) list"

type_synonym fault = "string \<Rightarrow> os_error option"
type_synonym short_write = "string \<Rightarrow> (nat \<times> os_error) option"
type_synonym remove_fun = "string \<Rightarrow> fs \<Rightarrow> os_error option \<times> fs"

section \<open>File operations\<close>

definition fs_lookup :: "fs \<Rightarrow> string \<Rightarrow> stored_file option" where
  "fs_lookup fs p = map_of fs p"

text \<open>Writing keeps the place of an existing file and adds a new one.\<close>

fun fs_write :: "string \<Rightarrow> stored_file \<Rightarrow> fs \<Rightarrow> fs" where
  "fs_write p f [] = [(p, f)]"
| "fs_write p f ((q, g) # rest) = (if q = p then (p, f) # rest else (q, g) # fs_write p f rest)"

definition fs_delete :: "string \<Rightarrow> fs \<Rightarrow> fs" where
  "fs_delete p fs = filter (\<lambda>pf. fst pf \<noteq> p) fs"

text \<open>\<open>os.Rename\<close> of an existing file: atomic, replacing the target.\<close>

definition fs_rename :: "string \<Rightarrow> string \<Rightarrow> fs \<Rightarrow> fs" where
  "fs_rename p q fs =
     (case fs_lookup fs p of None \<Rightarrow> fs | Some f \<Rightarrow> fs_write q f (fs_delete p fs))"

lemma fs_lookup_write [simp]:
  "fs_lookup (fs_write p f fs) q = (if q = p then Some f else fs_lookup fs q)"
  by (induction p f fs rule: fs_write.induct) (auto simp: fs_lookup_def)

lemma fs_lookup_delete [simp]:
  "fs_lookup (fs_delete p fs) q = (if q = p then None else fs_lookup fs q)"
  by (induction fs) (auto simp: fs_lookup_def fs_delete_def)

text \<open>What stands below a directory.\<close>

definition below :: "string \<Rightarrow> string \<Rightarrow> bool" where
  "below dir p = HasPrefix p (dir @ ''/'')"

definition path_exists :: "fs \<Rightarrow> string \<Rightarrow> bool" where
  "path_exists fs p \<longleftrightarrow> fs_lookup fs p \<noteq> None \<or> list_ex (\<lambda>pf. below p (fst pf)) fs"

definition os_Stat :: "fault \<Rightarrow> string \<Rightarrow> fs \<Rightarrow> os_error option" where
  "os_Stat faults p fs =
     (case faults p of
        Some e \<Rightarrow> Some e
      | None \<Rightarrow> if path_exists fs p then None else Some OsNotExist)"

definition os_ReadFile :: "fault \<Rightarrow> string \<Rightarrow> fs \<Rightarrow> os_error + string" where
  "os_ReadFile faults p fs =
     (case faults p of
        Some e \<Rightarrow> Inl e
      | None \<Rightarrow>
          (case fs_lookup fs p of
             Some f \<Rightarrow> Inr (f_Content f)
           | None \<Rightarrow> Inl (if path_exists fs p then OsOther ''is a directory'' else OsNotExist)))"

text \<open>
  \<open>os.Create\<close>: a file is emptied or made; a directory cannot be opened for writing, nor removed while there is
  something in it. \<open>os.WriteFile\<close> opens a file in the same way and then writes to it, in place: when it cannot
  be opened nothing changes, but when the write fails, or the \<open>Close\<close> after it, the file is left with what has
  been written by then.
\<close>

definition os_Create :: "fault \<Rightarrow> time \<Rightarrow> string \<Rightarrow> fs \<Rightarrow> os_error option \<times> fs" where
  "os_Create faults now p fs =
     (case faults p of
        Some e \<Rightarrow> (Some e, fs)
      | None \<Rightarrow>
          if fs_lookup fs p = None \<and> path_exists fs p then (Some (OsOther ''is a directory''), fs)
          else (None, fs_write p \<lparr>f_Content = [], f_ModTime = now\<rparr> fs))"

definition os_WriteFile ::
  "fault \<Rightarrow> short_write \<Rightarrow> time \<Rightarrow> string \<Rightarrow> string \<Rightarrow> fs \<Rightarrow> os_error option \<times> fs" where
  "os_WriteFile faults cuts now p content fs =
     (case os_Create faults now p fs of
        (Some e, fs1) \<Rightarrow> (Some e, fs1)
      | (None, fs1) \<Rightarrow>
          (case cuts p of
             Some (n, e) \<Rightarrow> (Some e, fs_write p \<lparr>f_Content = take n content, f_ModTime = now\<rparr> fs1)
           | None \<Rightarrow> (None, fs_write p \<lparr>f_Content = content, f_ModTime = now\<rparr> fs1)))"

lemma fs_write_twice [simp]: "fs_write p f (fs_write p g fs) = fs_write p f fs"
  by (induction p g fs rule: fs_write.induct) auto

lemma os_Create_cases:
  "os_Create faults now p fs = (None, fs1) \<Longrightarrow> fs1 = fs_write p \<lparr>f_Content = [], f_ModTime = now\<rparr> fs \<and> faults p = None"
  "os_Create faults now p fs = (Some err, fs1) \<Longrightarrow> fs1 = fs"
  by (auto simp: os_Create_def split: option.splits if_splits)

text \<open>A write that succeeds leaves the whole content, one that fails a beginning of it or nothing new.\<close>

lemma os_WriteFile_cases:
  "os_WriteFile faults cuts now p content fs = (None, fs') \<Longrightarrow>
     fs' = fs_write p \<lparr>f_Content = content, f_ModTime = now\<rparr> fs \<and> faults p = None \<and> cuts p = None"
  "os_WriteFile faults cuts now p content fs = (Some err, fs') \<Longrightarrow>
     fs' = fs \<or> (\<exists>n. cuts p = Some (n, err) \<and> faults p = None \<and>
       fs' = fs_write p \<lparr>f_Content = take n content, f_ModTime = now\<rparr> fs)"
  by (auto simp: os_WriteFile_def os_Create_def split: option.splits if_splits prod.splits)

lemma os_WriteFile_uncut:
  "os_WriteFile faults cuts now p content fs = (Some err, fs') \<Longrightarrow> fs' \<noteq> fs \<Longrightarrow>
     os_WriteFile faults Map.empty now p content fs = (None, fs_write p \<lparr>f_Content = content, f_ModTime = now\<rparr> fs)"
  by (auto simp: os_WriteFile_def os_Create_def split: option.splits if_splits prod.splits)

lemma os_WriteFile_frame:
  "os_WriteFile faults cuts now p content fs = (r, fs') \<Longrightarrow> q \<noteq> p \<Longrightarrow> fs_lookup fs' q = fs_lookup fs q"
  using os_WriteFile_cases [of faults cuts now p content fs] by (cases r) fastforce+

text \<open>\<open>os.MkdirAll\<close>: there is nothing to do but to see that no file is in the way.\<close>

definition os_MkdirAll :: "fault \<Rightarrow> string \<Rightarrow> fs \<Rightarrow> os_error option" where
  "os_MkdirAll faults dir fs =
     (case faults dir of
        Some e \<Rightarrow> Some e
      | None \<Rightarrow>
          if list_ex (\<lambda>pf. fst pf = Clean dir \<or> below (fst pf) (Clean dir)) fs
          then Some (OsOther ''not a directory'') else None)"

text \<open>\<open>os.Remove\<close>, which fails for reasons of its own where \<open>faults\<close> says so.\<close>

definition os_Remove :: "(string \<Rightarrow> os_error option) \<Rightarrow> remove_fun" where
  "os_Remove faults p fs =
     (case faults p of
        Some e \<Rightarrow> (Some e, fs)
      | None \<Rightarrow>
          if fs_lookup fs p \<noteq> None then (None, fs_delete p fs)
          else (Some (if path_exists fs p then OsOther ''directory not empty'' else OsNotExist), fs))"

text \<open>
  \<open>os.ReadDir\<close>: the names below a directory in ascending order, each with whether it is a directory.
  \<open>rel_path\<close> is a path of the file system as seen from a directory, when it is below. An empty directory
  is not told from one that is not there.
\<close>

definition rel_path :: "string \<Rightarrow> string \<Rightarrow> string option" where
  "rel_path dir p =
     (let d = dir_prefix dir; r = drop (length d) p
      in if \<not> HasPrefix p d \<or> HasPrefix r ''/'' \<or> r = ''..'' \<or> HasPrefix r ''../'' then None else Some r)"

definition dir_entry :: "string \<Rightarrow> string \<times> bool" where
  "dir_entry r = (takeWhile (\<lambda>c. c \<noteq> CHR ''/'') r, CHR ''/'' \<in> set r)"

definition dir_entries :: "string \<Rightarrow> fs \<Rightarrow> (string \<times> bool) list" where
  "dir_entries dir fs =
     sort_key fst (remdups (map dir_entry (List.map_filter (\<lambda>pf. rel_path dir (fst pf)) fs)))"

definition os_ReadDir :: "fault \<Rightarrow> string \<Rightarrow> fs \<Rightarrow> os_error + (string \<times> bool) list" where
  "os_ReadDir faults dir fs =
     (case faults dir of
        Some e \<Rightarrow> Inl e
      | None \<Rightarrow>
          if dir = [] then Inl OsNotExist
          else if fs_lookup fs (Clean dir) \<noteq> None then Inl (OsOther ''not a directory'')
          else if dir_entries dir fs = [] then Inl OsNotExist
          else Inr (dir_entries dir fs))"

lemma below_append: "below d (d @ CHR ''/'' # e)"
  by (simp add: below_def HasPrefix_iff)

lemma below_trans: "below d p \<Longrightarrow> below p q \<Longrightarrow> below d q"
  by (auto simp: below_def HasPrefix_iff)

text \<open>What is below one directory is not below its sibling.\<close>

lemma below_sibling:
  assumes "plain n" and "plain m" and "below (path_Join [root, n]) (path_Join [root, m] @ CHR ''/'' # e)"
  shows "n = m"
proof -
  obtain t where "path_Join [root, m] @ CHR ''/'' # e = path_Join [root, n] @ CHR ''/'' # t"
    using assms(3) by (auto simp: below_def HasPrefix_iff)
  then have "m @ CHR ''/'' # e = n @ CHR ''/'' # t"
    by (simp add: path_Join_dir_prefix assms)
  then have "takeWhile (\<lambda>c. c \<noteq> CHR ''/'') (m @ CHR ''/'' # e) =
      takeWhile (\<lambda>c. c \<noteq> CHR ''/'') (n @ CHR ''/'' # t)"
    by simp
  then show ?thesis using assms by (simp only: takeWhile_slash plain_def not_False_eq_True)
qed

text \<open>No file has another below it.\<close>

definition files_only :: "fs \<Rightarrow> bool" where
  "files_only fs \<longleftrightarrow> list_all (\<lambda>pf. \<not> list_ex (\<lambda>qg. below (fst pf) (fst qg)) fs) fs"

lemma dir_entries_subdirectory:
  assumes "plain name" and "fs_lookup fs (path_Join [dir, name] @ CHR ''/'' # e) = Some f"
  shows "(name, True) \<in> set (dir_entries dir fs)"
proof -
  let ?p = "path_Join [dir, name] @ CHR ''/'' # e"
  have "(?p, f) \<in> set fs" using assms(2) by (simp add: fs_lookup_def map_of_SomeD)
  have nm: "name \<noteq> []" "name \<noteq> ''..''" "CHR ''/'' \<notin> set name" using assms(1) by (auto simp: plain_def)
  have "\<not> HasPrefix (name @ CHR ''/'' # e) ''../''"
  proof
    assume "HasPrefix (name @ CHR ''/'' # e) ''../''"
    then obtain t where "name @ CHR ''/'' # e = ''..'' @ CHR ''/'' # t"
      by (auto simp: HasPrefix_iff)
    then have "takeWhile (\<lambda>c. c \<noteq> CHR ''/'') (name @ CHR ''/'' # e) =
        takeWhile (\<lambda>c. c \<noteq> CHR ''/'') (''..'' @ CHR ''/'' # t)" by simp
    then show False using nm takeWhile_slash [OF nm(3), of e] by simp
  qed
  moreover have "\<not> HasPrefix (name @ CHR ''/'' # e) ''/''"
    using nm by (cases name) (auto simp: HasPrefix_single)
  moreover have "name @ CHR ''/'' # e \<noteq> ''..''"
  proof
    assume "name @ CHR ''/'' # e = ''..''"
    then have "CHR ''/'' \<in> set ''..''" by (metis in_set_conv_decomp)
    then show False by simp
  qed
  ultimately have "rel_path dir ?p = Some (name @ CHR ''/'' # e)"
    by (simp add: rel_path_def path_Join_dir_prefix [OF assms(1)] HasPrefix_iff)
  then have "(name @ CHR ''/'' # e) \<in> set (List.map_filter (\<lambda>pf. rel_path dir (fst pf)) fs)"
    using \<open>(?p, f) \<in> set fs\<close> by (force simp: List.map_filter_def)
  then show ?thesis
    by (force simp: dir_entries_def dir_entry_def takeWhile_slash [OF nm(3)])
qed

end
