(* ===== verification/Ccr_Store.thy ===== *)
theory Ccr_Store
  imports Ccr_Marker Go_Os
begin

text \<open>
  \<open>internal/ccr/store.go\<close>: the content-addressed store. Every call of package \<open>os\<close> can fail for
  reasons outside the program: the record \<open>put_env\<close> holds, for one run of \<open>Put\<close>, the error the environment makes each call return (if any), the
  name \<open>CreateTemp\<close> picks, how much of a failing write reaches the file, and the clock. At the path of an object
  there is a file or nothing: a directory there, which the store never makes, is not modelled.
\<close>

datatype store_error = ErrNotFound | ErrCorrupt | AddressError ccr_error | OsFailure os_error
  | StoreRootRequired

record put_env =
  pe_Stat :: "os_error option"
  pe_MkdirAll :: "os_error option"
  pe_CreateTemp :: "os_error option"
  pe_TempName :: string
  pe_Write :: "(nat \<times> os_error) option"
  pe_Chmod :: "os_error option"
  pe_Close :: "os_error option"
  pe_Rename :: "os_error option"
  pe_Remove :: "os_error option"
  pe_Now :: int

section \<open>The store\<close>

definition NewStore :: "string \<Rightarrow> store_error + string" where
  "NewStore root = (if root = [] then Inl StoreRootRequired else Inr root)"

definition StoreRoot :: "string \<Rightarrow> string" where
  "StoreRoot stateDir = path_Join [stateDir, ''ccr'']"

definition ObjectPath :: "string \<Rightarrow> address \<Rightarrow> string" where
  "ObjectPath root a =
     (if validateAddress a \<noteq> None then []
      else path_Join [root, ''objects'', ad_Algorithm a, take 2 (ad_Hex a), ad_Hex a])"

text \<open>\<open>os.CreateTemp(dir, ".tmp-*")\<close> puts the name it picks for the star below \<open>dir\<close>.\<close>

definition temp_file :: "string \<Rightarrow> string \<Rightarrow> string" where
  "temp_file dir t = (if HasSuffix dir ''/'' then dir else dir @ ''/'') @ ''.tmp-'' @ t"

text \<open>The deferred removal of the temporary file, whose own error is ignored.\<close>

definition cleanup_temp :: "put_env \<Rightarrow> string \<Rightarrow> fs \<Rightarrow> fs" where
  "cleanup_temp env temp fs = (if pe_Remove env = None then fs_delete temp fs else fs)"

definition Put :: "put_env \<Rightarrow> string \<Rightarrow> string \<Rightarrow> fs \<Rightarrow> (store_error + address) \<times> fs" where
  "Put env root content fs =
     (let a = AddressForContent content;
          path = ObjectPath root a;
          stat = (case pe_Stat env of
                    Some e \<Rightarrow> Some e
                  | None \<Rightarrow> if fs_lookup fs path = None then Some OsNotExist else None)
      in case stat of
        None \<Rightarrow> (Inr a, fs)
      | Some e \<Rightarrow>
        if e \<noteq> OsNotExist then (Inl (OsFailure e), fs)
        else case pe_MkdirAll env of
          Some e \<Rightarrow> (Inl (OsFailure e), fs)
        | None \<Rightarrow>
          let temp = temp_file (Dir path) (pe_TempName env)
          in case pe_CreateTemp env of
            Some e \<Rightarrow> (Inl (OsFailure e), fs)
          | None \<Rightarrow>
            if fs_lookup fs temp \<noteq> None then (Inl (OsFailure OsExist), fs)
            else case pe_Write env of
              Some (n, e) \<Rightarrow>
                (Inl (OsFailure e), cleanup_temp env temp
                  (fs_write temp \<lparr>f_Content = take n content, f_ModTime = pe_Now env\<rparr> fs))
            | None \<Rightarrow>
              let fs1 = fs_write temp \<lparr>f_Content = content, f_ModTime = pe_Now env\<rparr> fs
              in case pe_Chmod env of
                Some e \<Rightarrow> (Inl (OsFailure e), cleanup_temp env temp fs1)
              | None \<Rightarrow>
                (case pe_Close env of
                  Some e \<Rightarrow> (Inl (OsFailure e), cleanup_temp env temp fs1)
                | None \<Rightarrow>
                  (case pe_Rename env of
                    Some e \<Rightarrow>
                      (if e = OsExist then Inr a else Inl (OsFailure e), cleanup_temp env temp fs1)
                  | None \<Rightarrow> (Inr a, cleanup_temp env temp (fs_rename temp path fs1)))))"

text \<open>\<open>Get\<close>; the environment's only say is an error of the read.\<close>

definition Get :: "os_error option \<Rightarrow> string \<Rightarrow> address \<Rightarrow> fs \<Rightarrow> store_error + string" where
  "Get read_err root a fs =
     (case validateAddress a of
        Some err \<Rightarrow> Inl (AddressError err)
      | None \<Rightarrow>
          let read = (case read_err of
                Some e \<Rightarrow> Inl e
              | None \<Rightarrow> (case fs_lookup fs (ObjectPath root a) of
                    None \<Rightarrow> Inl OsNotExist | Some f \<Rightarrow> Inr (f_Content f)))
          in case read of
            Inl e \<Rightarrow> if e = OsNotExist then Inl ErrNotFound else Inl (OsFailure e)
          | Inr content \<Rightarrow>
              if AddressForContent content \<noteq> a then Inl ErrCorrupt else Inr content)"

section \<open>Object paths\<close>

lemma hex_plain: "list_all is_hex_digit s \<Longrightarrow> s \<noteq> [] \<Longrightarrow> plain s"
  by (cases s) (auto simp: plain_def list_all_iff dest!: is_hex_digit_solid)

lemma address_hex_plain:
  assumes "validateAddress a = None"
  shows "plain (ad_Hex a)" "plain (take 2 (ad_Hex a))"
proof -
  have "list_all is_hex_digit (ad_Hex a)" "length (ad_Hex a) = 64"
    using assms by (auto simp: validateAddress_None SHA256HexLength_def)
  moreover from this have "list_all is_hex_digit (take 2 (ad_Hex a))"
    by (auto simp: list_all_iff dest: in_set_takeD)
  ultimately show "plain (ad_Hex a)" "plain (take 2 (ad_Hex a))"
    by (auto intro!: hex_plain)
qed

lemma Base_ObjectPath:
  assumes "root \<noteq> []" and "validateAddress a = None"
  shows "Base (ObjectPath root a) = ad_Hex a"
proof -
  have alg: "ad_Algorithm a = ''sha256''"
    using assms(2) by (simp add: validateAddress_None AlgorithmSHA256_def)
  have "Base (path_Join (root # [''objects'', ''sha256'', take 2 (ad_Hex a)] @ [ad_Hex a])) = ad_Hex a"
    by (rule Base_path_Join [OF assms(1)])
      (simp_all add: address_hex_plain [OF assms(2)], simp add: plain_def)
  then show ?thesis by (simp add: ObjectPath_def assms(2) alg)
qed

lemma Base_temp: "CHR ''/'' \<notin> set t \<Longrightarrow> Base (temp_file d t) = ''.tmp-'' @ t"
proof -
  assume t: "CHR ''/'' \<notin> set t"
  then have p: "plain (''.tmp-'' @ t)" by (simp add: plain_def)
  obtain x where x: "temp_file d t = x @ CHR ''/'' # ''.tmp-'' @ t"
  proof (cases "HasSuffix d ''/''")
    case True
    then obtain d' where "d = d' @ ''/''" by (auto simp: HasSuffix_iff)
    then show thesis using that [of d'] True by (simp add: temp_file_def)
  next
    case False
    then show thesis using that [of d] by (simp add: temp_file_def)
  qed
  have "Base (temp_file d t) = after_slash (x @ CHR ''/'' # ''.tmp-'' @ t)"
    using Base_Join [OF p, of "x @ ''/''" "[]"] unfolding x by (simp add: Join.simps)
  also have "\<dots> = ''.tmp-'' @ t"
    by (rule after_slash_append) (use p in \<open>simp add: plain_def\<close>)
  finally show ?thesis .
qed

text \<open>No object path is that of a temporary file: an object's name is hexadecimal.\<close>

lemma temp_not_object:
  assumes "root \<noteq> []" and "validateAddress a = None" and "CHR ''/'' \<notin> set t"
  shows "temp_file d t \<noteq> ObjectPath root a"
proof
  assume "temp_file d t = ObjectPath root a"
  then have "ad_Hex a = ''.tmp-'' @ t"
    using Base_ObjectPath [OF assms(1,2)] Base_temp [OF assms(3)] by metis
  moreover have "list_all is_hex_digit (ad_Hex a)"
    using assms(2) by (simp add: validateAddress_None)
  ultimately show False by (simp add: is_hex_digit_def is_digit_def)
qed

section \<open>Integrity\<close>

text \<open>
  The invariant of the store: the file at an object's path has the content the path names.
  \<open>good_env\<close> says that the name the environment picks is a file name, as \<open>CreateTemp\<close>
  guarantees.
\<close>

definition store_ok :: "string \<Rightarrow> fs \<Rightarrow> bool" where
  "store_ok root fs \<longleftrightarrow>
     (\<forall>a f. validateAddress a = None \<longrightarrow> fs_lookup fs (ObjectPath root a) = Some f \<longrightarrow>
        ad_Hex (AddressForContent (f_Content f)) = ad_Hex a)"

definition good_env :: "put_env \<Rightarrow> bool" where
  "good_env env \<longleftrightarrow> CHR ''/'' \<notin> set (pe_TempName env)"

lemma store_okD:
  "store_ok root fs \<Longrightarrow> validateAddress a = None \<Longrightarrow> fs_lookup fs (ObjectPath root a) = Some f \<Longrightarrow>
     ad_Hex (AddressForContent (f_Content f)) = ad_Hex a"
  by (simp add: store_ok_def)

lemma store_ok_cong:
  assumes "store_ok root fs"
    and "\<And>a. validateAddress a = None \<Longrightarrow> fs_lookup fs' (ObjectPath root a) = fs_lookup fs (ObjectPath root a)"
  shows "store_ok root fs'"
  using assms by (simp add: store_ok_def)

lemma store_ok_delete: "store_ok root fs \<Longrightarrow> store_ok root (fs_delete p fs)"
  by (auto simp: store_ok_def split: if_splits)

lemma store_ok_write_temp:
  assumes "store_ok root fs" and "root \<noteq> []" and "CHR ''/'' \<notin> set t"
  shows "store_ok root (fs_write (temp_file d t) f fs)"
proof (rule store_ok_cong [OF assms(1)])
  fix a assume "validateAddress a = None"
  from temp_not_object [OF assms(2) this assms(3), of d]
  show "fs_lookup (fs_write (temp_file d t) f fs) (ObjectPath root a) = fs_lookup fs (ObjectPath root a)"
    by simp
qed

lemma store_ok_cleanup: "store_ok root fs \<Longrightarrow> store_ok root (cleanup_temp env temp fs)"
  by (simp add: cleanup_temp_def store_ok_delete)

lemma store_ok_publish:
  assumes "store_ok root fs" and "root \<noteq> []"
  shows "store_ok root (fs_write (ObjectPath root (AddressForContent c)) \<lparr>f_Content = c, f_ModTime = t\<rparr> fs)"
  unfolding store_ok_def
proof (intro allI impI)
  fix a f
  assume a: "validateAddress a = None"
    and f: "fs_lookup (fs_write (ObjectPath root (AddressForContent c)) \<lparr>f_Content = c, f_ModTime = t\<rparr> fs)
      (ObjectPath root a) = Some f"
  show "ad_Hex (AddressForContent (f_Content f)) = ad_Hex a"
  proof (cases "ObjectPath root a = ObjectPath root (AddressForContent c)")
    case True
    then have "ad_Hex a = ad_Hex (AddressForContent c)"
      using Base_ObjectPath [OF assms(2) a]
        Base_ObjectPath [OF assms(2) AddressForContent_valid, of c] by simp
    then show ?thesis using f True by auto
  next
    case False
    then show ?thesis using f a assms(1) by (auto intro: store_okD)
  qed
qed

lemma store_ok_rename:
  assumes ok: "store_ok root fs" and root: "root \<noteq> []"
    and temp: "fs_lookup fs temp = Some \<lparr>f_Content = c, f_ModTime = t\<rparr>"
  shows "store_ok root (fs_rename temp (ObjectPath root (AddressForContent c)) fs)"
  using store_ok_publish [OF store_ok_delete [OF ok] root] by (simp add: fs_rename_def temp)

lemma Put_store_ok:
  assumes "store_ok root fs" and "root \<noteq> []" and "good_env env"
  shows "store_ok root (snd (Put env root c fs))"
proof -
  note w = store_ok_write_temp [OF assms(1,2) assms(3) [unfolded good_env_def]]
  show ?thesis
    using assms
    by (auto simp: Put_def Let_def w
        intro!: store_ok_cleanup store_ok_rename split: option.split prod.split)
qed

text \<open>\<open>Get\<close> hands out content only under its own address.\<close>

lemma Get_Inr: "Get e root a fs = Inr c \<Longrightarrow> AddressForContent c = a"
  by (auto simp: Get_def Let_def split: option.splits if_splits sum.splits)

lemma Put_address: "fst (Put env root c fs) = Inr a \<Longrightarrow> a = AddressForContent c"
  by (auto simp: Put_def Let_def split: option.splits if_splits prod.splits)

definition no_faults :: "put_env \<Rightarrow> bool" where
  "no_faults env \<longleftrightarrow> pe_Stat env = None \<and> pe_MkdirAll env = None \<and> pe_CreateTemp env = None \<and>
     pe_Write env = None \<and> pe_Chmod env = None \<and> pe_Close env = None \<and> pe_Rename env = None"

text \<open>The temporary name \<open>CreateTemp\<close> picked, next to the object.\<close>

definition temp_path :: "put_env \<Rightarrow> string \<Rightarrow> string \<Rightarrow> string" where
  "temp_path env root content =
     temp_file (Dir (ObjectPath root (AddressForContent content))) (pe_TempName env)"

lemma Put_fresh:
  assumes "no_faults env" and "fs_lookup fs (ObjectPath root (AddressForContent c)) = None"
    and "fs_lookup fs (temp_path env root c) = None"
  shows "Put env root c fs = (Inr (AddressForContent c),
    cleanup_temp env (temp_path env root c)
      (fs_rename (temp_path env root c) (ObjectPath root (AddressForContent c))
        (fs_write (temp_path env root c) \<lparr>f_Content = c, f_ModTime = pe_Now env\<rparr> fs)))"
  using assms by (simp add: Put_def Let_def no_faults_def temp_path_def)

lemma temp_path_not_object:
  "root \<noteq> [] \<Longrightarrow> good_env env \<Longrightarrow> validateAddress a = None \<Longrightarrow> temp_path env root c \<noteq> ObjectPath root a"
  unfolding temp_path_def good_env_def by (rule temp_not_object)

lemma Put_fresh_lookup:
  assumes "no_faults env" and "root \<noteq> []" and "good_env env"
    and "fs_lookup fs (ObjectPath root (AddressForContent c)) = None"
    and "fs_lookup fs (temp_path env root c) = None"
  shows "fs_lookup (snd (Put env root c fs)) q =
    (if q = ObjectPath root (AddressForContent c) then Some \<lparr>f_Content = c, f_ModTime = pe_Now env\<rparr>
     else fs_lookup fs q)"
proof -
  have "temp_path env root c \<noteq> ObjectPath root (AddressForContent c)"
    by (rule temp_path_not_object [OF assms(2,3) AddressForContent_valid])
  then show ?thesis
    using assms(5) by (auto simp: Put_fresh [OF assms(1,4,5)] cleanup_temp_def fs_rename_def)
qed

lemma Get_present:
  "fs_lookup fs (ObjectPath root (AddressForContent c)) = Some f \<Longrightarrow> f_Content f = c \<Longrightarrow>
     Get None root (AddressForContent c) fs = Inr c"
  by (simp add: Get_def AddressForContent_valid)

section \<open>Properties\<close>

lemma Put_ok_without_faults:
  assumes "no_faults env" and "fs_lookup fs (temp_path env root c) = None"
  shows "fst (Put env root c fs) = Inr (AddressForContent c)"
  using assms Put_fresh [OF assms(1)]
  by (cases "fs_lookup fs (ObjectPath root (AddressForContent c))")
    (simp_all add: Put_def Let_def no_faults_def)

text \<open>Round trip: when no call fails, \<open>Put\<close> returns the content's address and \<open>Get\<close> of that
  address returns the content, provided a file already stored under the address, if there is one,
  holds this content. The content of every other path is as before.\<close>

theorem Put_Get_round_trip:
  assumes "no_faults env" and "good_env env" and "root \<noteq> []"
    and "fs_lookup fs (temp_path env root c) = None"
    and "map_option f_Content (fs_lookup fs (ObjectPath root (AddressForContent c))) \<in> {None, Some c}"
  shows "fst (Put env root c fs) = Inr (AddressForContent c) \<and>
    Get None root (AddressForContent c) (snd (Put env root c fs)) = Inr c \<and>
    (\<forall>q. q = ObjectPath root (AddressForContent c) \<or>
       fs_lookup (snd (Put env root c fs)) q = fs_lookup fs q)"
proof (cases "fs_lookup fs (ObjectPath root (AddressForContent c))")
  case None
  then show ?thesis
    using Put_fresh_lookup [OF assms(1,3,2) None assms(4)] Put_ok_without_faults [OF assms(1,4)]
    by (auto intro: Get_present)
next
  case (Some f)
  then have "Put env root c fs = (Inr (AddressForContent c), fs)"
    using assms(1) by (simp add: Put_def Let_def no_faults_def)
  then show ?thesis using Some assms(5) by (auto intro: Get_present)
qed

definition calm :: put_env where
  "calm = \<lparr>pe_Stat = None, pe_MkdirAll = None, pe_CreateTemp = None, pe_TempName = ''1'',
     pe_Write = None, pe_Chmod = None, pe_Close = None, pe_Rename = None, pe_Remove = None, pe_Now = 5\<rparr>"

lemma Put_Get_round_trip_witness:
  "Get None ''s'' (AddressForContent ''abc'') (snd (Put calm ''s'' ''abc'' [])) = Inr ''abc''"
  using Put_Get_round_trip [of calm "''s''" "[]" "''abc''"]
  by (simp add: no_faults_def good_env_def calm_def fs_lookup_def)

text \<open>C10. The store keeps its integrity through every \<open>Put\<close>, whichever of its file operations
  fail and however much of a failed write reaches the disk: the file under an object path still
  hashes to the name of the path. A partial object is never visible.\<close>

theorem Put_keeps_integrity:
  assumes "store_ok root fs" and "root \<noteq> []" and "good_env env"
  shows "store_ok root (snd (Put env root c fs))"
  using assms by (rule Put_store_ok)

lemma Put_keeps_integrity_witness:
  "store_ok ''s'' (snd (Put (calm\<lparr>pe_Write := Some (1, OsOther ''disk full''), pe_Remove := Some OsNotExist\<rparr>)
     ''s'' ''abc'' []))"
  by (rule Put_keeps_integrity) (simp_all add: store_ok_def fs_lookup_def good_env_def calm_def)

text \<open>A \<open>Put\<close> that reports an error has not changed what is stored under any address.\<close>

theorem Put_error_keeps_objects:
  assumes "fst (Put env root c fs) = Inl e" and "root \<noteq> []" and "good_env env"
    and "fs_lookup fs (temp_path env root c) = None" and "validateAddress a = None"
  shows "fs_lookup (snd (Put env root c fs)) (ObjectPath root a) = fs_lookup fs (ObjectPath root a)"
proof -
  have t: "temp_path env root c \<noteq> ObjectPath root a"
    by (rule temp_path_not_object [OF assms(2,3,5)])
  show ?thesis
    using assms(1) t
    by (auto simp: Put_def Let_def cleanup_temp_def temp_path_def split: option.splits if_splits prod.splits)
qed

lemma Put_error_keeps_objects_witness:
  "fs_lookup (snd (Put (calm\<lparr>pe_Close := Some (OsOther ''io'')\<rparr>) ''s'' ''abc'' []))
     (ObjectPath ''s'' (AddressForContent ''abc'')) = None"
proof -
  have "fst (Put (calm\<lparr>pe_Close := Some (OsOther ''io'')\<rparr>) ''s'' ''abc'' []) = Inl (OsFailure (OsOther ''io''))"
    by (simp add: Put_def Let_def calm_def fs_lookup_def)
  then show ?thesis
    using Put_error_keeps_objects [of "calm\<lparr>pe_Close := Some (OsOther ''io'')\<rparr>" "''s''" "''abc''" "[]"
        "OsFailure (OsOther ''io'')" "AddressForContent ''abc''"]
    by (simp add: good_env_def calm_def fs_lookup_def AddressForContent_valid)
qed

text \<open>\<open>Get\<close> hands out content only under its own address, whatever is on the disk; and it
  answers \<open>ErrNotFound\<close> only for a valid address it cannot read, \<open>ErrCorrupt\<close> only for a file
  that hashes or measures differently.\<close>

theorem Get_integrity:
  "(case Get read_err root a fs of
      Inr c \<Rightarrow> AddressForContent c = a \<and> validateAddress a = None
    | Inl ErrCorrupt \<Rightarrow> (\<exists>f. fs_lookup fs (ObjectPath root a) = Some f \<and> AddressForContent (f_Content f) \<noteq> a)
    | Inl ErrNotFound \<Rightarrow> validateAddress a = None \<and>
        (read_err = Some OsNotExist \<or> fs_lookup fs (ObjectPath root a) = None)
    | Inl (AddressError e) \<Rightarrow> validateAddress a = Some e
    | Inl (OsFailure e) \<Rightarrow> read_err = Some e
    | Inl StoreRootRequired \<Rightarrow> False)"
  by (auto simp: Get_def Let_def split: option.splits)

end
