(* ===== verification/Ccr_Retention.thy ===== *)
theory Ccr_Retention
  imports Ccr_Store
begin

text \<open>
  \<open>internal/ccr/retention.go\<close>: diagnostics of the CCR store and its cleanup by age and by size.

  \<open>sort.Slice\<close> does not promise the order of
  objects of the same age, so the sort is a parameter, known by its contract \<open>age_sort\<close> only;
  so is the store's \<open>remove\<close> function, by the contract \<open>remover\<close>.
\<close>

record retention_policy =
  rp_MaxAge :: int
  rp_MaxBytes :: int

record cleanup_options =
  co_Now :: time
  co_Policy :: retention_policy
  co_Confirm :: bool

record cleanup_result =
  cr_DryRun :: bool
  cr_WouldRemove :: int
  cr_Removed :: int
  cr_Failed :: int
  cr_Kept :: int
  cr_BytesWouldRemove :: int
  cr_BytesRemoved :: int
  cr_BytesKept :: int

record diagnostics =
  dg_Root :: string
  dg_Objects :: int
  dg_Bytes :: int

record object_info =
  oi_path :: string
  oi_size :: int
  oi_modTime :: time

section \<open>Listing the objects\<close>

text \<open>
  \<open>filepath.WalkDir\<close> visits the files below \<open>objects\<close> in the lexical order of their path
  elements. Whatever error it meets ends the walk, so of the environment only that error counts.
\<close>

definition objects_root :: "string \<Rightarrow> string" where
  "objects_root root = path_Join [root, ''objects'']"

definition file_info :: "string \<times> stored_file \<Rightarrow> object_info" where
  "file_info pf = \<lparr>oi_path = fst pf, oi_size = int (length (f_Content (snd pf))),
     oi_modTime = f_ModTime (snd pf)\<rparr>"

definition below_objects :: "string \<Rightarrow> string \<times> stored_file \<Rightarrow> bool" where
  "below_objects root pf = HasPrefix (fst pf) (objects_root root @ ''/'')"

definition walked :: "string \<Rightarrow> fs \<Rightarrow> object_info list" where
  "walked root fs =
     map file_info (sort_key (\<lambda>pf. Split (fst pf) ''/'') (filter (below_objects root) fs))"

definition objects :: "os_error option \<Rightarrow> string \<Rightarrow> fs \<Rightarrow> os_error + object_info list" where
  "objects walk_err root fs =
     (case walk_err of
        Some err \<Rightarrow> if err = OsNotExist then Inr [] else Inl err
      | None \<Rightarrow> Inr (walked root fs))"

definition add_size :: "int \<Rightarrow> object_info \<Rightarrow> int" where
  "add_size bytes ob = wrap64 (bytes + oi_size ob)"

definition Diagnostics :: "os_error option \<Rightarrow> string \<Rightarrow> fs \<Rightarrow> os_error + diagnostics" where
  "Diagnostics walk_err root fs =
     (case objects walk_err root fs of
        Inl err \<Rightarrow> Inl err
      | Inr obs \<Rightarrow> Inr \<lparr>dg_Root = root, dg_Objects = int (length obs),
          dg_Bytes = foldl add_size 0 obs\<rparr>)"

section \<open>Choosing what to remove\<close>

definition expired :: "retention_policy \<Rightarrow> time \<Rightarrow> object_info \<Rightarrow> bool" where
  "expired policy now ob \<longleftrightarrow> 0 < rp_MaxAge policy \<and> oi_modTime ob < now - rp_MaxAge policy"

text \<open>The eviction loop: objects in the order given, until the rest fits the budget.\<close>

fun evict :: "int \<Rightarrow> int \<Rightarrow> object_info list \<Rightarrow> object_info list" where
  "evict budget bytes [] = []"
| "evict budget bytes (ob # obs) =
     (if bytes \<le> budget then []
      else ob # evict budget (wrap64 (bytes - oi_size ob)) obs)"

definition cleanupCandidates ::
  "(object_info list \<Rightarrow> object_info list) \<Rightarrow> object_info list \<Rightarrow> retention_policy \<Rightarrow> time \<Rightarrow> string set" where
  "cleanupCandidates sort_by_age obs policy now =
     (let old = filter (expired policy now) obs;
          kept = filter (\<lambda>ob. \<not> expired policy now ob) obs
      in set (map oi_path old) \<union>
         (if 0 < rp_MaxBytes policy
          then let sorted_kept = sort_by_age kept;
                   bytes = foldl add_size 0 sorted_kept
               in set (map oi_path (evict (rp_MaxBytes policy) bytes sorted_kept))
          else {}))"

section \<open>Cleanup\<close>

fun cleanup_loop ::
  "remove_fun \<Rightarrow> bool \<Rightarrow> string set \<Rightarrow> object_info list \<Rightarrow> fs \<Rightarrow> cleanup_result \<Rightarrow> cleanup_result \<times> fs"
where
  "cleanup_loop remove confirm removeSet [] fs r = (r, fs)"
| "cleanup_loop remove confirm removeSet (ob # obs) fs r =
     (if oi_path ob \<in> removeSet then
        let r = r\<lparr>cr_WouldRemove := wrap64 (cr_WouldRemove r + 1),
                  cr_BytesWouldRemove := wrap64 (cr_BytesWouldRemove r + oi_size ob)\<rparr>
        in if confirm then
             let res = remove (oi_path ob) fs
             in if fst res \<noteq> None then
                  cleanup_loop remove confirm removeSet obs (snd res)
                    (r\<lparr>cr_Failed := wrap64 (cr_Failed r + 1), cr_Kept := wrap64 (cr_Kept r + 1),
                       cr_BytesKept := wrap64 (cr_BytesKept r + oi_size ob)\<rparr>)
                else
                  cleanup_loop remove confirm removeSet obs (snd res)
                    (r\<lparr>cr_Removed := wrap64 (cr_Removed r + 1),
                       cr_BytesRemoved := wrap64 (cr_BytesRemoved r + oi_size ob)\<rparr>)
           else cleanup_loop remove confirm removeSet obs fs r
      else
        cleanup_loop remove confirm removeSet obs fs
          (r\<lparr>cr_Kept := wrap64 (cr_Kept r + 1),
             cr_BytesKept := wrap64 (cr_BytesKept r + oi_size ob)\<rparr>))"

definition empty_result :: "bool \<Rightarrow> cleanup_result" where
  "empty_result dry = \<lparr>cr_DryRun = dry, cr_WouldRemove = 0, cr_Removed = 0, cr_Failed = 0,
     cr_Kept = 0, cr_BytesWouldRemove = 0, cr_BytesRemoved = 0, cr_BytesKept = 0\<rparr>"

text \<open>The clock is read when the caller gives the zero time.\<close>

definition effective_now :: "time \<Rightarrow> cleanup_options \<Rightarrow> time" where
  "effective_now clock options = (if co_Now options = 0 then clock else co_Now options)"

definition Cleanup ::
  "(object_info list \<Rightarrow> object_info list) \<Rightarrow> remove_fun \<Rightarrow> os_error option \<Rightarrow> time \<Rightarrow>
   string \<Rightarrow> cleanup_options \<Rightarrow> fs \<Rightarrow> (os_error + cleanup_result) \<times> fs"
where
  "Cleanup sort_by_age remove walk_err clock root options fs =
     (case objects walk_err root fs of
        Inl err \<Rightarrow> (Inl err, fs)
      | Inr obs \<Rightarrow>
          let now = effective_now clock options;
              removeSet = cleanupCandidates sort_by_age obs (co_Policy options) now;
              res = cleanup_loop remove (co_Confirm options) removeSet obs fs
                      (empty_result (\<not> co_Confirm options))
          in (Inr (fst res), snd res))"

section \<open>The contract of the remove function\<close>

text \<open>A removal that fails leaves the files alone; one that succeeds removes that file only.\<close>

locale remover =
  fixes remove :: remove_fun
  assumes failed: "fst (remove p fs) = Some e \<Longrightarrow> snd (remove p fs) = fs"
    and removed: "fst (remove p fs) = None \<Longrightarrow> snd (remove p fs) = fs_delete p fs"
begin

lemma lookup_remove:
  "fs_lookup (snd (remove p fs)) q = (if q = p \<and> fst (remove p fs) = None then None else fs_lookup fs q)"
  by (cases "fst (remove p fs)") (auto simp: failed removed)

lemma remove_filter: "\<exists>P. snd (remove p fs) = filter P fs"
proof (cases "fst (remove p fs)")
  case None
  then show ?thesis by (auto simp: removed fs_delete_def)
next
  case (Some e)
  then show ?thesis by (intro exI [of _ "\<lambda>_. True"]) (simp add: failed)
qed

lemma loop_frame:
  "q \<notin> removeSet \<Longrightarrow>
     fs_lookup (snd (cleanup_loop remove confirm removeSet obs fs r)) q = fs_lookup fs q"
  by (induction obs arbitrary: fs r) (auto simp: Let_def lookup_remove)

lemma loop_shrinks:
  "fs_lookup (snd (cleanup_loop remove confirm removeSet obs fs r)) q \<in> {None, fs_lookup fs q}"
proof (induction obs arbitrary: fs r)
  case (Cons ob obs)
  have "fs_lookup (snd (remove p fs)) q \<in> {None, fs_lookup fs q}" for p
    by (auto simp: lookup_remove)
  then show ?case using Cons by (auto simp: Let_def) (metis (no_types))+
qed simp

lemma loop_store_ok:
  "store_ok root fs \<Longrightarrow> store_ok root (snd (cleanup_loop remove confirm removeSet obs fs r))"
  unfolding store_ok_def using loop_shrinks [of confirm removeSet obs fs r] by (metis insertE singletonD option.distinct(1))

end

interpretation os: remover "os_Remove faults" for faults
  by unfold_locales (auto simp: os_Remove_def split: option.splits if_splits)

section \<open>Accounting\<close>

text \<open>What the counters of a result say after \<open>n\<close> objects of \<open>b\<close> bytes in total.\<close>

definition accounted :: "bool \<Rightarrow> int \<Rightarrow> int \<Rightarrow> cleanup_result \<Rightarrow> bool" where
  "accounted confirm n b r \<longleftrightarrow>
     (if confirm
      then cr_Kept r = wrap64 (n - cr_Removed r) \<and> cr_BytesKept r = wrap64 (b - cr_BytesRemoved r) \<and>
           cr_WouldRemove r = wrap64 (cr_Removed r + cr_Failed r)
      else cr_Kept r = wrap64 (n - cr_WouldRemove r) \<and>
           cr_BytesKept r = wrap64 (b - cr_BytesWouldRemove r) \<and>
           cr_Removed r = 0 \<and> cr_Failed r = 0 \<and> cr_BytesRemoved r = 0)"

lemma accounted_loop:
  "accounted confirm n b r \<Longrightarrow>
     accounted confirm (n + int (length obs)) (b + (\<Sum>ob\<leftarrow>obs. oi_size ob))
       (fst (cleanup_loop remove confirm removeSet obs fs r))"
proof (induction obs arbitrary: n b fs r)
  case (Cons ob obs)
  have step: "accounted c (n + int (length (ob # obs))) (b + (\<Sum>ob\<leftarrow>ob # obs. oi_size ob))
      (fst (cleanup_loop remove c removeSet obs fs' r'))"
    if "c = confirm" and "accounted c (n + 1) (b + oi_size ob) r'" for c fs' r'
    using Cons.IH [OF that(2) [unfolded that(1)], of fs'] that(1) by (simp add: algebra_simps)
  consider (keep) "oi_path ob \<notin> removeSet" | (dry) "oi_path ob \<in> removeSet" "\<not> confirm"
    | (fail) e where "oi_path ob \<in> removeSet" "confirm" "fst (remove (oi_path ob) fs) = Some e"
    | (ok) "oi_path ob \<in> removeSet" "confirm" "fst (remove (oi_path ob) fs) = None"
    by (cases "fst (remove (oi_path ob) fs)") auto
  then show ?case
  proof cases
    case keep
    then show ?thesis
      using Cons.prems by (simp only: cleanup_loop.simps Let_def if_True if_False option.distinct simp_thms)
        (rule step, simp, cases confirm; simp add: accounted_def wrap64_collapse algebra_simps)
  next
    case dry
    then show ?thesis
      using Cons.prems by (simp only: cleanup_loop.simps Let_def if_True if_False option.distinct simp_thms)
        (rule step, simp, simp add: accounted_def wrap64_collapse algebra_simps)
  next
    case fail
    then show ?thesis
      using Cons.prems by (simp only: cleanup_loop.simps Let_def if_True if_False option.distinct simp_thms)
        (rule step, simp, simp add: accounted_def wrap64_collapse algebra_simps)
  next
    case ok
    then show ?thesis
      using Cons.prems by (simp only: cleanup_loop.simps Let_def if_True if_False option.distinct simp_thms)
        (rule step, simp, simp add: accounted_def wrap64_collapse algebra_simps)
  qed
qed simp

lemma cleanup_loop_dry: "snd (cleanup_loop remove False removeSet obs fs r) = fs"
  by (induction obs arbitrary: r) (auto simp: Let_def)

lemma cleanup_loop_DryRun:
  "cr_DryRun (fst (cleanup_loop remove confirm removeSet obs fs r)) = cr_DryRun r"
  by (induction obs arbitrary: fs r) (auto simp: Let_def)

section \<open>Eviction\<close>

definition bytes_of_objects :: "object_info list \<Rightarrow> int" where
  "bytes_of_objects obs = (\<Sum>ob\<leftarrow>obs. oi_size ob)"

lemma bytes_of_objects_simps [simp]:
  "bytes_of_objects [] = 0"
  "bytes_of_objects (ob # obs) = oi_size ob + bytes_of_objects obs"
  "bytes_of_objects (obs @ obs') = bytes_of_objects obs + bytes_of_objects obs'"
  by (simp_all add: bytes_of_objects_def)

lemma bytes_of_objects_mset: "mset xs = mset ys \<Longrightarrow> bytes_of_objects xs = bytes_of_objects ys"
  unfolding bytes_of_objects_def by (metis mset_map sum_mset_sum_list)

definition sane_sizes :: "object_info list \<Rightarrow> bool" where
  "sane_sizes obs \<longleftrightarrow> (\<forall>ob \<in> set obs. 0 \<le> oi_size ob) \<and> in_int64 (bytes_of_objects obs)"

lemma bytes_of_objects_nonneg: "\<forall>ob \<in> set obs. 0 \<le> oi_size ob \<Longrightarrow> 0 \<le> bytes_of_objects obs"
  by (induction obs) auto

lemma sane_sizes_filter: "sane_sizes obs \<Longrightarrow> sane_sizes (filter P obs)"
proof -
  assume s: "sane_sizes obs"
  have "bytes_of_objects obs = bytes_of_objects (filter P obs) + bytes_of_objects (filter (\<lambda>ob. \<not> P ob) obs)"
    by (induction obs) auto
  moreover have "0 \<le> bytes_of_objects (filter P obs)" "0 \<le> bytes_of_objects (filter (\<lambda>ob. \<not> P ob) obs)"
    using s by (auto intro!: bytes_of_objects_nonneg simp: sane_sizes_def)
  ultimately show ?thesis using s by (auto simp: sane_sizes_def in_int64_def)
qed

lemma foldl_add_size: "foldl add_size (wrap64 b) obs = wrap64 (b + bytes_of_objects obs)"
  by (induction obs arbitrary: b) (simp_all add: add_size_def wrap64_collapse add.assoc)

lemma foldl_add_size_sane: "sane_sizes obs \<Longrightarrow> foldl add_size 0 obs = bytes_of_objects obs"
  using foldl_add_size [of 0 obs] by (simp add: sane_sizes_def wrap64_id)

text \<open>
  The eviction loop cuts a prefix off its list: the rest fits the budget, and did not before
  the last eviction.
\<close>

lemma evict_split:
  assumes "\<forall>ob \<in> set obs. 0 \<le> oi_size ob" and "in_int64 (bytes_of_objects obs)" and "0 \<le> budget"
  shows "\<exists>rest. obs = evict budget (bytes_of_objects obs) obs @ rest \<and>
    bytes_of_objects rest \<le> budget \<and>
    (evict budget (bytes_of_objects obs) obs \<noteq> [] \<longrightarrow>
       budget < oi_size (last (evict budget (bytes_of_objects obs) obs)) + bytes_of_objects rest)"
  using assms
proof (induction obs)
  case (Cons ob obs)
  show ?case
  proof (cases "bytes_of_objects (ob # obs) \<le> budget")
    case False
    have nn: "0 \<le> bytes_of_objects obs" using Cons.prems by (intro bytes_of_objects_nonneg) simp
    then have r: "in_int64 (bytes_of_objects obs)" using Cons.prems by (simp add: in_int64_def)
    have w: "wrap64 (bytes_of_objects (ob # obs) - oi_size ob) = bytes_of_objects obs"
      using r by (simp add: wrap64_id)
    have e: "evict budget (bytes_of_objects (ob # obs)) (ob # obs) =
        ob # evict budget (bytes_of_objects obs) obs"
      using False w by simp
    obtain rest where rest: "obs = evict budget (bytes_of_objects obs) obs @ rest"
      "bytes_of_objects rest \<le> budget"
      "evict budget (bytes_of_objects obs) obs \<noteq> [] \<longrightarrow>
         budget < oi_size (last (evict budget (bytes_of_objects obs) obs)) + bytes_of_objects rest"
      using Cons.IH r Cons.prems by auto
    show ?thesis
    proof (intro exI [of _ rest] conjI impI)
      show "ob # obs = evict budget (bytes_of_objects (ob # obs)) (ob # obs) @ rest"
        using rest(1) unfolding e by simp
      show "budget < oi_size (last (evict budget (bytes_of_objects (ob # obs)) (ob # obs))) + bytes_of_objects rest"
        unfolding e using rest False by (cases "evict budget (bytes_of_objects obs) obs") auto
    qed (rule rest(2))
  qed simp
qed simp

section \<open>Sorting by age\<close>

text \<open>
  The contract of \<open>sort.Slice\<close> with the order of \<open>modTime\<close>: a permutation, older first. Objects
  of the same age may come in any order.
\<close>

locale age_sort = slice_sort oi_modTime sort_by_age
  for sort_by_age :: "object_info list \<Rightarrow> object_info list"
begin

lemma sane_sort: "sane_sizes (sort_by_age obs) = sane_sizes obs"
  using bytes_of_objects_mset [OF permutes, of obs] by (simp add: sane_sizes_def set_sort)

definition evicted :: "int \<Rightarrow> object_info list \<Rightarrow> object_info list" where
  "evicted budget obs = evict budget (foldl add_size 0 (sort_by_age obs)) (sort_by_age obs)"

lemma evicted_split:
  assumes "sane_sizes obs" and "0 \<le> budget"
  obtains rest where "sort_by_age obs = evicted budget obs @ rest" "bytes_of_objects rest \<le> budget"
    "\<forall>v \<in> set (evicted budget obs). \<forall>k \<in> set rest. oi_modTime v \<le> oi_modTime k"
    "evicted budget obs \<noteq> [] \<longrightarrow> budget < oi_size (last (evicted budget obs)) + bytes_of_objects rest"
proof -
  have s: "sane_sizes (sort_by_age obs)" using assms(1) by (simp add: sane_sort)
  then obtain rest where r: "sort_by_age obs = evicted budget obs @ rest"
    "bytes_of_objects rest \<le> budget"
    "evicted budget obs \<noteq> [] \<longrightarrow> budget < oi_size (last (evicted budget obs)) + bytes_of_objects rest"
    using evict_split [of "sort_by_age obs" budget] assms(2)
    unfolding evicted_def foldl_add_size_sane [OF s] sane_sizes_def by blast
  moreover have "\<forall>v \<in> set (evicted budget obs). \<forall>k \<in> set rest. oi_modTime v \<le> oi_modTime k"
    using ascending [of obs] unfolding r(1) by (simp add: sorted_append)
  ultimately show thesis using that by blast
qed

text \<open>What is left when the candidates are gone.\<close>

lemma candidates_left:
  fixes policy :: retention_policy and now :: time
  assumes dist: "distinct (map oi_path obs)" and sane: "sane_sizes obs"
  defines "S \<equiv> cleanupCandidates sort_by_age obs policy now"
  defines "left \<equiv> filter (\<lambda>ob. oi_path ob \<notin> S) obs"
  shows "(\<forall>ob \<in> set left. \<not> expired policy now ob) \<and>
    (0 < rp_MaxBytes policy \<longrightarrow> bytes_of_objects left \<le> rp_MaxBytes policy) \<and>
    (\<forall>v \<in> set obs. \<forall>k \<in> set left. oi_path v \<in> S \<longrightarrow> expired policy now v \<or> oi_modTime v \<le> oi_modTime k) \<and>
    ((\<exists>v \<in> set obs. oi_path v \<in> S \<and> \<not> expired policy now v) \<longrightarrow>
       (\<exists>v \<in> set obs. oi_path v \<in> S \<and> \<not> expired policy now v \<and>
          rp_MaxBytes policy < oi_size v + bytes_of_objects left))"
proof -
  define old where "old = filter (expired policy now) obs"
  define young where "young = filter (\<lambda>ob. \<not> expired policy now ob) obs"
  have inj: "inj_on oi_path (set obs)" using dist by (simp add: distinct_map)
  have sy: "sane_sizes young" unfolding young_def by (rule sane_sizes_filter [OF sane])
  show ?thesis
  proof (cases "0 < rp_MaxBytes policy")
    case False
    then have S: "S = oi_path ` set old" by (simp add: S_def cleanupCandidates_def old_def Let_def)
    have "oi_path ob \<in> S \<longleftrightarrow> expired policy now ob" if "ob \<in> set obs" for ob
      using that inj by (auto simp: S old_def dest: inj_onD)
    then show ?thesis using False by (auto simp: left_def)
  next
    case True
    obtain rest where rest: "sort_by_age young = evicted (rp_MaxBytes policy) young @ rest"
      "bytes_of_objects rest \<le> rp_MaxBytes policy"
      "\<forall>v \<in> set (evicted (rp_MaxBytes policy) young). \<forall>k \<in> set rest. oi_modTime v \<le> oi_modTime k"
      "evicted (rp_MaxBytes policy) young \<noteq> [] \<longrightarrow>
         rp_MaxBytes policy < oi_size (last (evicted (rp_MaxBytes policy) young)) + bytes_of_objects rest"
      using evicted_split [OF sy] True by (metis less_imp_le)
    define ev where "ev = evicted (rp_MaxBytes policy) young"
    have S: "S = oi_path ` set old \<union> oi_path ` set ev"
      using True by (simp add: S_def cleanupCandidates_def old_def young_def ev_def evicted_def Let_def)
    have py: "mset young = mset ev + mset rest"
      using permutes [of young] rest(1) by (simp add: ev_def)
    then have sety: "set young = set ev \<union> set rest" by (metis set_mset_mset set_mset_union)
    have "distinct young" using dist by (simp add: young_def distinct_map)
    then have dj: "set ev \<inter> set rest = {}"
      using py by (metis distinct_append mset_append mset_eq_imp_distinct_iff)
    have sub: "set young \<subseteq> set obs" "set old \<subseteq> set obs" "set old \<inter> set young = {}" "set obs = set old \<union> set young"
      by (auto simp: young_def old_def)
    have S_iff: "oi_path ob \<in> S \<longleftrightarrow> ob \<in> set old \<union> set ev" if "ob \<in> set obs" for ob
      using that inj sub sety by (auto simp: S dest: inj_onD)
    have "set left = set rest" using S_iff sub sety dj by (auto simp: left_def)
    moreover have "distinct left" "distinct rest"
      using dist \<open>distinct young\<close> py
      by (auto simp: left_def distinct_map, metis distinct_append mset_append mset_eq_imp_distinct_iff)
    ultimately have "mset left = mset rest" by (simp add: set_eq_iff_mset_eq_distinct)
    then have bl: "bytes_of_objects left = bytes_of_objects rest" by (rule bytes_of_objects_mset)
    have ex: "expired policy now v \<longleftrightarrow> v \<in> set old" if "v \<in> set obs" for v
      using that by (simp add: old_def)
    have evo: "v \<in> set ev \<Longrightarrow> v \<in> set obs \<and> v \<notin> set old" for v using sub sety by auto
    show ?thesis
    proof (intro conjI ballI impI)
      fix ob assume "ob \<in> set left"
      then show "\<not> expired policy now ob" using \<open>set left = set rest\<close> sety by (auto simp: young_def)
    next
      show "bytes_of_objects left \<le> rp_MaxBytes policy" using rest(2) bl by simp
    next
      fix v k assume "v \<in> set obs" "k \<in> set left" "oi_path v \<in> S"
      then show "expired policy now v \<or> oi_modTime v \<le> oi_modTime k"
        using S_iff ex rest(3) \<open>set left = set rest\<close> by (auto simp: ev_def [symmetric])
    next
      assume "\<exists>v \<in> set obs. oi_path v \<in> S \<and> \<not> expired policy now v"
      then have ne: "ev \<noteq> []" using S_iff ex by auto
      then have "last ev \<in> set ev" by simp
      then show "\<exists>v \<in> set obs. oi_path v \<in> S \<and> \<not> expired policy now v \<and>
          rp_MaxBytes policy < oi_size v + bytes_of_objects left"
        using rest(4) ne bl evo S_iff ex unfolding ev_def [symmetric] by (intro bexI [of _ "last ev"]) auto
    qed
  qed
qed

end

interpretation stable: age_sort "sort_key oi_modTime"
  by unfold_locales simp_all

section \<open>The store after a cleanup\<close>

lemma mset_walked: "mset (walked root fs) = image_mset file_info (mset (filter (below_objects root) fs))"
  by (simp add: walked_def)

lemma mset_walked_filter:
  "mset (walked root (filter (\<lambda>pf. fst pf \<notin> S) fs)) =
     mset (filter (\<lambda>ob. oi_path ob \<notin> S) (walked root fs))"
proof -
  have p: "oi_path (file_info pf) = fst pf" for pf by (simp add: file_info_def)
  have "mset (filter (\<lambda>ob. oi_path ob \<notin> S) (walked root fs)) =
      filter_mset (\<lambda>ob. oi_path ob \<notin> S) (image_mset file_info (mset (filter (below_objects root) fs)))"
    by (simp only: mset_filter mset_walked)
  also have "\<dots> = image_mset file_info (mset (filter (\<lambda>pf. fst pf \<notin> S) (filter (below_objects root) fs)))"
    by (simp only: filter_mset_image_mset p mset_filter)
  also have "\<dots> = mset (walked root (filter (\<lambda>pf. fst pf \<notin> S) fs))"
    by (simp only: mset_walked filter_filter conj_commute)
  finally show ?thesis by simp
qed

lemma walked_paths: "distinct (map fst fs) \<Longrightarrow> distinct (map oi_path (walked root fs))"
proof -
  assume d: "distinct (map fst fs)"
  have "mset (map oi_path (walked root fs)) = mset (map fst (filter (below_objects root) fs))"
    by (simp add: mset_walked file_info_def image_mset.compositionality comp_def)
  moreover have "distinct (map fst (filter (below_objects root) fs))"
    using d by (rule distinct_map_filter)
  ultimately show ?thesis by (metis mset_eq_imp_distinct_iff)
qed

lemma set_walked: "set (walked root fs) = file_info ` set (filter (below_objects root) fs)"
  by (simp add: walked_def)

lemma walked_present: "ob \<in> set (walked root fs) \<Longrightarrow> fs_lookup fs (oi_path ob) \<noteq> None"
  proof -
  assume "ob \<in> set (walked root fs)"
  then obtain pf where "pf \<in> set fs" "oi_path ob = fst pf" by (auto simp: set_walked file_info_def)
  then show ?thesis by (auto simp: fs_lookup_def map_of_eq_None_iff)
qed

lemma cleanup_loop_all:
  assumes "distinct (map oi_path obs)" and "\<forall>ob \<in> set obs. fs_lookup fs (oi_path ob) \<noteq> None"
  shows "snd (cleanup_loop (os_Remove (\<lambda>_. None)) True S obs fs r) =
    filter (\<lambda>pf. fst pf \<notin> S \<inter> oi_path ` set obs) fs"
  using assms
proof (induction obs arbitrary: fs r)
  case (Cons ob obs)
  show ?case
  proof (cases "oi_path ob \<in> S")
    case True
    have rm: "os_Remove (\<lambda>_. None) (oi_path ob) fs = (None, fs_delete (oi_path ob) fs)"
      using Cons.prems by (simp add: os_Remove_def)
    have "\<forall>x \<in> set obs. fs_lookup (fs_delete (oi_path ob) fs) (oi_path x) \<noteq> None"
    proof
      fix x assume x: "x \<in> set obs"
      then have "oi_path x \<noteq> oi_path ob" using Cons.prems(1) by (metis distinct.simps(2) image_eqI list.map(2) list.set_map)
      then show "fs_lookup (fs_delete (oi_path ob) fs) (oi_path x) \<noteq> None" using x Cons.prems(2) by simp
    qed
    moreover have "distinct (map oi_path obs)" using Cons.prems by simp
    ultimately show ?thesis
      using Cons.IH True
      by (auto simp: rm Let_def fs_delete_def intro: filter_cong)
  next
    case False
    then show ?thesis using Cons by (auto intro: filter_cong)
  qed
qed simp

lemma candidates_are_walked:
  assumes "\<And>obs. set (sort_by_age obs) = set obs"
  shows "cleanupCandidates sort_by_age obs policy now \<subseteq> oi_path ` set obs"
proof -
  have "set (evict b t xs) \<subseteq> set xs" for b t xs
    by (induction b t xs rule: evict.induct) auto
  then have e: "oi_path ` set (evict b t (sort_by_age xs)) \<subseteq> oi_path ` set xs" for b t xs
    using assms by (metis image_mono)
  have f: "oi_path ` set (filter P obs) \<subseteq> oi_path ` set obs" for P by auto
  show ?thesis
    unfolding cleanupCandidates_def Let_def set_map
    by (intro Un_least f, cases "0 < rp_MaxBytes policy")
      (simp_all only: if_True if_False empty_subsetI subset_trans [OF e f])
qed

section \<open>Properties\<close>

lemma Cleanup_Inr:
  "Cleanup sort_by_age remove None clock root options fs =
     (Inr (fst (cleanup_loop remove (co_Confirm options)
        (cleanupCandidates sort_by_age (walked root fs) (co_Policy options) (effective_now clock options))
        (walked root fs) fs (empty_result (\<not> co_Confirm options)))),
      snd (cleanup_loop remove (co_Confirm options)
        (cleanupCandidates sort_by_age (walked root fs) (co_Policy options) (effective_now clock options))
        (walked root fs) fs (empty_result (\<not> co_Confirm options))))"
  by (simp add: Cleanup_def objects_def Let_def)

text \<open>C15. A confirmed cleanup whose removals succeed enforces the policy, however \<open>sort.Slice\<close>
  orders objects of the same age: afterwards no object is too old, the rest fits the byte budget,
  an object was removed before its age only if no object kept is older, and something of that kind
  was removed only if its size did not fit with what was kept. Files that are not objects are
  untouched.\<close>

theorem Cleanup_enforces_policy:
  fixes clock :: time and options :: cleanup_options
  assumes "\<And>obs. mset (sort_by_age obs) = mset obs"
    and "\<And>obs. sorted (map oi_modTime (sort_by_age obs))"
    and "distinct (map fst fs)" and "sane_sizes (walked root fs)" and "co_Confirm options"
  defines "fs' \<equiv> snd (Cleanup sort_by_age (os_Remove (\<lambda>_. None)) None clock root options fs)"
    and "old \<equiv> expired (co_Policy options) (effective_now clock options)"
    and "gone \<equiv> \<lambda>v after. v \<in> set (walked root fs) - set (walked root after)"
  shows "(\<forall>k \<in> set (walked root fs'). \<not> old k \<and> k \<in> set (walked root fs)) \<and>
    (0 < rp_MaxBytes (co_Policy options) \<longrightarrow>
       bytes_of_objects (walked root fs') \<le> rp_MaxBytes (co_Policy options)) \<and>
    (\<forall>v k. gone v fs' \<and> \<not> old v \<and> k \<in> set (walked root fs') \<longrightarrow> oi_modTime v \<le> oi_modTime k) \<and>
    ((\<exists>v. gone v fs' \<and> \<not> old v) \<longrightarrow> (\<exists>v. gone v fs' \<and> \<not> old v \<and>
       rp_MaxBytes (co_Policy options) < oi_size v + bytes_of_objects (walked root fs'))) \<and>
    (\<forall>q. \<not> HasPrefix q (objects_root root @ ''/'') \<longrightarrow> fs_lookup fs' q = fs_lookup fs q)"
proof -
  have sort: "age_sort sort_by_age" using assms(1,2) by (intro age_sort.intro slice_sort.intro)
  then have st: "\<And>obs. set (sort_by_age obs) = set obs"
    by (rule slice_sort.set_sort [OF age_sort.axioms])
  define S where "S = cleanupCandidates sort_by_age (walked root fs) (co_Policy options) (effective_now clock options)"
  have sub: "S \<subseteq> oi_path ` set (walked root fs)" unfolding S_def by (rule candidates_are_walked [OF st])
  have d: "distinct (map oi_path (walked root fs))" by (rule walked_paths [OF assms(3)])
  have "fs' = filter (\<lambda>pf. fst pf \<notin> S \<inter> oi_path ` set (walked root fs)) fs"
    unfolding fs'_def Cleanup_Inr S_def [symmetric] using assms(5)
    by (simp add: cleanup_loop_all [OF d] walked_present)
  then have fs': "fs' = filter (\<lambda>pf. fst pf \<notin> S) fs" using sub by (simp add: Int_absorb2)
  define left where "left = filter (\<lambda>ob. oi_path ob \<notin> S) (walked root fs)"
  have m: "mset (walked root fs') = mset left" unfolding fs' left_def by (rule mset_walked_filter)
  then have sl: "set (walked root fs') = set left" and bl: "bytes_of_objects (walked root fs') = bytes_of_objects left"
    by (metis set_mset_mset) (rule bytes_of_objects_mset [OF m])
  have g: "gone v fs' \<longleftrightarrow> v \<in> set (walked root fs) \<and> oi_path v \<in> S" for v
    by (auto simp: gone_def sl left_def)
  note left = age_sort.candidates_left [OF sort d assms(4), of "co_Policy options" "effective_now clock options",
      folded S_def, folded left_def old_def]
  have q: "fs_lookup fs' q = fs_lookup fs q" if "\<not> HasPrefix q (objects_root root @ ''/'')" for q
  proof -
    have "q \<notin> S" using that sub by (auto simp: set_walked file_info_def below_objects_def)
    then show ?thesis unfolding fs' fs_lookup_def by (induction fs) auto
  qed
  show ?thesis
    unfolding sl bl using left g q by (auto simp: left_def)
qed

definition two_objects :: fs where
  "two_objects =
     [(''s/objects/sha256/aa/1'', \<lparr>f_Content = ''abc'', f_ModTime = 50\<rparr>),
      (''s/objects/sha256/bb/2'', \<lparr>f_Content = ''defg'', f_ModTime = 40\<rparr>)]"

definition budget_5 :: cleanup_options where
  "budget_5 = \<lparr>co_Now = 60, co_Policy = \<lparr>rp_MaxAge = 100, rp_MaxBytes = 5\<rparr>, co_Confirm = True\<rparr>"

lemma walked_two_objects:
  "mset (walked ''s'' two_objects) = mset (map file_info two_objects)"
  by (simp add: mset_walked below_objects_def two_objects_def objects_root_def go_eval)

lemma Cleanup_enforces_policy_witness:
  "bytes_of_objects (walked ''s''
     (snd (Cleanup (sort_key oi_modTime) (os_Remove (\<lambda>_. None)) None 0 ''s'' budget_5 two_objects))) \<le> 5"
proof -
  have m: "set (walked ''s'' two_objects) = set (map file_info two_objects)"
    "bytes_of_objects (walked ''s'' two_objects) = bytes_of_objects (map file_info two_objects)"
    using walked_two_objects by (metis set_mset_mset) (rule bytes_of_objects_mset [OF walked_two_objects])
  have s: "sane_sizes (walked ''s'' two_objects)"
    unfolding sane_sizes_def m by (simp add: two_objects_def file_info_def in_int64_def)
  have "distinct (map fst two_objects)" "co_Confirm budget_5"
    by (simp_all add: two_objects_def budget_5_def)
  from Cleanup_enforces_policy [of "sort_key oi_modTime", OF _ _ this(1) s this(2), of 0]
  show ?thesis by (simp add: budget_5_def)
qed

text \<open>The counters of a cleanup add up, as 64-bit sums, whatever the removals do: everything
  not removed (or, without confirmation, not chosen) is kept, everything chosen was removed or
  failed; and without confirmation nothing is removed and the files are as before.\<close>

theorem Cleanup_accounting:
  "case Cleanup sort_by_age remove walk_err clock root options fs of
     (Inl e, fs') \<Rightarrow> walk_err = Some e \<and> fs' = fs
   | (Inr r, fs') \<Rightarrow>
       accounted (co_Confirm options)
         (if walk_err = None then int (length (walked root fs)) else 0)
         (if walk_err = None then bytes_of_objects (walked root fs) else 0) r \<and>
       cr_DryRun r = (\<not> co_Confirm options) \<and> (co_Confirm options \<or> fs' = fs)"
proof -
  have init: "accounted c 0 0 (empty_result (\<not> c))" for c
    by (simp add: accounted_def empty_result_def)
  have acc: "accounted c (int (length obs)) (bytes_of_objects obs)
      (fst (cleanup_loop remove c removeSet obs fs (empty_result (\<not> c))))" for c removeSet obs
    using accounted_loop [OF init, of c obs] by (simp add: bytes_of_objects_def)
  have "co_Confirm options \<or> snd (cleanup_loop remove (co_Confirm options) removeSet obs fs r) = fs"
    for removeSet obs r
    using cleanup_loop_dry by (cases "co_Confirm options") simp_all
  moreover have "cr_DryRun (empty_result c) = c" for c by (simp add: empty_result_def)
  ultimately show ?thesis
    using acc init
    by (cases walk_err) (simp_all add: Cleanup_def objects_def Let_def cleanup_loop_DryRun)
qed

text \<open>A cleanup, confirmed or not, with whatever failures of the walk and of the removals, can
  only take files away: it keeps the integrity of the store and no file's content changes.\<close>

theorem Cleanup_only_removes:
  assumes "store_ok root fs"
    and "snd (Cleanup sort_by_age (os_Remove faults) walk_err clock root options fs) = fs'"
  shows "store_ok root fs' \<and> (\<forall>q. fs_lookup fs' q \<in> {None, fs_lookup fs q})"
proof (cases "objects walk_err root fs")
  case (Inl e)
  then show ?thesis using assms by (auto simp: Cleanup_def)
next
  case (Inr obs)
  then show ?thesis
    unfolding assms(2) [symmetric] Cleanup_def
    by (simp only: sum.case Let_def snd_conv os.loop_store_ok [OF assms(1)] os.loop_shrinks simp_thms)
qed

lemma Cleanup_only_removes_witness:
  "store_ok ''s'' (snd (Cleanup (sort_key oi_modTime) (os_Remove (\<lambda>p. Some OsNotExist)) None 0 ''s'' budget_5 []))"
  using Cleanup_only_removes [of "''s''" "[]" "sort_key oi_modTime" "\<lambda>p. Some OsNotExist" None 0 budget_5, OF _ refl]
  by (simp add: store_ok_def fs_lookup_def)

end
