(* ===== verification/Ccr_Session.thy ===== *)
theory Ccr_Session
  imports Ccr_Retention
begin

text \<open>
  The life of a compressed block in \<open>internal/ccr\<close>: its content is put into the store, a marker with its address
  takes its place in the request, and later the marker is parsed and the content fetched, after any history of
  further \<open>Put\<close>s and cleanups of the same store, with whatever failures.
\<close>

section \<open>Histories\<close>

text \<open>What one operation is run with: the environment of a \<open>Put\<close>; the sort, the failing removals, the end of the
  walk, the clock and the options of a \<open>Cleanup\<close>.\<close>

datatype store_op =
  PutOp put_env string
| CleanupOp "object_info list \<Rightarrow> object_info list" "string \<Rightarrow> os_error option" "os_error option" time cleanup_options

primrec run_op :: "string \<Rightarrow> store_op \<Rightarrow> fs \<Rightarrow> fs" where
  "run_op root (PutOp env c) fs = snd (Put env root c fs)"
| "run_op root (CleanupOp by_age faults walk_err clock options) fs =
     snd (Cleanup by_age (os_Remove faults) walk_err clock root options fs)"

definition run_ops :: "string \<Rightarrow> store_op list \<Rightarrow> fs \<Rightarrow> fs" where
  "run_ops root ops fs = fold (run_op root) ops fs"

primrec good_op :: "store_op \<Rightarrow> bool" where
  "good_op (PutOp env c) \<longleftrightarrow> good_env env"
| "good_op (CleanupOp by_age faults walk_err clock options) \<longleftrightarrow> True"

primrec removing :: "store_op \<Rightarrow> bool" where
  "removing (PutOp env c) \<longleftrightarrow> False"
| "removing (CleanupOp by_age faults walk_err clock options) \<longleftrightarrow> co_Confirm options"

primrec put_contents :: "store_op \<Rightarrow> string set" where
  "put_contents (PutOp env c) = {c}"
| "put_contents (CleanupOp by_age faults walk_err clock options) = {}"

definition stored_contents :: "fs \<Rightarrow> string set" where
  "stored_contents fs = f_Content ` snd ` set fs"

section \<open>One object\<close>

text \<open>The file under the path of an object, if there is one, has the given content.\<close>

definition holds_only :: "string \<Rightarrow> string \<Rightarrow> fs \<Rightarrow> bool" where
  "holds_only root c fs \<longleftrightarrow> (case fs_lookup fs (ObjectPath root (AddressForContent c)) of
     None \<Rightarrow> True | Some f \<Rightarrow> f_Content f = c)"

abbreviation present :: "string \<Rightarrow> string \<Rightarrow> fs \<Rightarrow> bool" where
  "present root c fs \<equiv> fs_lookup fs (ObjectPath root (AddressForContent c)) \<noteq> None"

lemma ObjectPath_hex:
  assumes "root \<noteq> []" and "ObjectPath root (AddressForContent c) = ObjectPath root (AddressForContent c')"
  shows "ad_Hex (AddressForContent c) = ad_Hex (AddressForContent c')"
  using assms Base_ObjectPath [OF assms(1) AddressForContent_valid] by metis

lemma lookup_rename:
  "fs_lookup (fs_rename p q fs) x =
     (case fs_lookup fs p of None \<Rightarrow> fs_lookup fs x
      | Some f \<Rightarrow> if x = q then Some f else if x = p then None else fs_lookup fs x)"
  by (auto simp: fs_rename_def split: option.splits)

text \<open>What a \<open>Put\<close> can do to the file under an object's path.\<close>

lemma Put_object:
  assumes "root \<noteq> []" and "good_env env"
  shows "fs_lookup (snd (Put env root c' fs)) (ObjectPath root (AddressForContent c)) =
      fs_lookup fs (ObjectPath root (AddressForContent c)) \<or>
    ObjectPath root (AddressForContent c) = ObjectPath root (AddressForContent c') \<and>
      (\<exists>f. fs_lookup (snd (Put env root c' fs)) (ObjectPath root (AddressForContent c)) = Some f \<and> f_Content f = c')"
proof -
  have "temp_file (Dir (ObjectPath root (AddressForContent c'))) (pe_TempName env) \<noteq> ObjectPath root (AddressForContent c)" for c
    by (rule temp_not_object [OF assms(1) AddressForContent_valid assms(2) [unfolded good_env_def]])
  note t = this this [symmetric]
  show ?thesis
    by (cases "ObjectPath root (AddressForContent c) = ObjectPath root (AddressForContent c')")
      (auto simp: Put_def Let_def cleanup_temp_def lookup_rename t split: option.split prod.split)
qed

lemma Put_present:
  assumes "root \<noteq> []" and "good_env env" and "fst (Put env root c fs) = Inr a" and "pe_Rename env \<noteq> Some OsExist"
    and "pe_Stat env \<noteq> Some OsNotExist"
  shows "present root c (snd (Put env root c fs))"
proof -
  have "temp_file (Dir (ObjectPath root (AddressForContent c))) (pe_TempName env) \<noteq> ObjectPath root (AddressForContent c)"
    by (rule temp_not_object [OF assms(1) AddressForContent_valid assms(2) [unfolded good_env_def]])
  note t = this this [symmetric]
  show ?thesis
    using assms(3-5) by (auto simp: Put_def Let_def cleanup_temp_def lookup_rename t split: option.splits prod.splits if_splits)
qed

lemma Cleanup_object:
  "fs_lookup (run_op root (CleanupOp by_age faults walk_err clock options) fs) q \<in> {None, fs_lookup fs q}"
proof (cases "objects walk_err root fs")
  case (Inl e)
  then show ?thesis by (simp add: Cleanup_def)
next
  case (Inr obs)
  then show ?thesis unfolding run_op.simps Cleanup_def by (simp only: sum.case Let_def snd_conv os.loop_shrinks)
qed

lemma Cleanup_unconfirmed:
  "\<not> co_Confirm options \<Longrightarrow> run_op root (CleanupOp by_age faults walk_err clock options) fs = fs"
  by (cases "objects walk_err root fs") (simp_all add: Cleanup_def Let_def cleanup_loop_dry)

lemma holds_only_run_op:
  assumes "root \<noteq> []" and "good_op x" and "holds_only root c fs"
    and "\<forall>c' \<in> put_contents x. ad_Hex (AddressForContent c') = ad_Hex (AddressForContent c) \<longrightarrow> c' = c"
  shows "holds_only root c (run_op root x fs)"
proof (cases x)
  case (PutOp env c')
  then have "good_env env" using assms(2) by simp
  from Put_object [OF assms(1) this, of c' fs c] show ?thesis
    using assms(3,4) ObjectPath_hex [OF assms(1), of c c'] PutOp by (auto simp: holds_only_def)
next
  case (CleanupOp by_age faults walk_err clock options)
  then show ?thesis
    using Cleanup_object [of root by_age faults walk_err clock options fs "ObjectPath root (AddressForContent c)"] assms(3)
    by (auto simp: holds_only_def)
qed

lemma present_run_op:
  assumes "root \<noteq> []" and "good_op x" and "\<not> removing x" and "present root c fs"
  shows "present root c (run_op root x fs)"
proof (cases x)
  case (PutOp env c')
  then show ?thesis using Put_object [OF assms(1), of env c' fs c] assms(2,4) by auto
next
  case (CleanupOp by_age faults walk_err clock options)
  then show ?thesis using assms(3,4) Cleanup_unconfirmed [of options] by simp
qed

lemma run_ops_object:
  assumes "root \<noteq> []" and "list_all good_op ops" and "holds_only root c fs" and "present root c fs"
    and "\<forall>x \<in> set ops. \<forall>c' \<in> put_contents x. ad_Hex (AddressForContent c') = ad_Hex (AddressForContent c) \<longrightarrow> c' = c"
  shows "holds_only root c (run_ops root ops fs) \<and> (present root c (run_ops root ops fs) \<or> list_ex removing ops)"
  using assms(2-5)
proof (induction ops arbitrary: fs)
  case Nil
  then show ?case by (simp add: run_ops_def)
next
  case (Cons x ops)
  have h: "holds_only root c (run_op root x fs)" by (rule holds_only_run_op) (use assms(1) Cons.prems in auto)
  show ?case
  proof (cases "removing x")
    case True
    have "holds_only root c (run_ops root ops fs)" if "holds_only root c fs" for fs
      using that Cons.prems(1,4)
      by (induction ops arbitrary: fs) (auto simp: run_ops_def intro: holds_only_run_op [OF assms(1)])
    from this [OF h] show ?thesis using True by (simp add: run_ops_def)
  next
    case False
    then have "present root c (run_op root x fs)" using present_run_op [OF assms(1)] Cons.prems by simp
    then show ?thesis using Cons.IH [OF _ h] Cons.prems by (auto simp: run_ops_def)
  qed
qed

lemma store_ok_holds_only:
  assumes "store_ok root fs"
    and "\<forall>c' \<in> stored_contents fs. ad_Hex (AddressForContent c') = ad_Hex (AddressForContent c) \<longrightarrow> c' = c"
  shows "holds_only root c fs"
proof (cases "fs_lookup fs (ObjectPath root (AddressForContent c))")
  case None
  then show ?thesis by (simp add: holds_only_def)
next
  case (Some f)
  then have "f_Content f \<in> stored_contents fs"
    unfolding stored_contents_def fs_lookup_def by (metis image_eqI map_of_SomeD snd_conv)
  moreover have "ad_Hex (AddressForContent (f_Content f)) = ad_Hex (AddressForContent c)"
    by (rule store_okD [OF assms(1) AddressForContent_valid Some])
  ultimately show ?thesis using assms(2) Some by (simp add: holds_only_def)
qed

text \<open>Without the contents of the history colliding, \<open>Get\<close> is decided by whether the object is there.\<close>

lemma Get_holds_only:
  assumes "holds_only root c fs"
  shows "Get None root (AddressForContent c) fs = (if present root c fs then Inr c else Inl ErrNotFound)"
  using assms by (auto simp: holds_only_def Get_def AddressForContent_valid split: option.splits)

section \<open>Properties\<close>

text \<open>C6. A marker leads back to the content it stands for: when a \<open>Put\<close> has returned an address, the marker of
  the address parses, and after any further \<open>Put\<close>s and cleanups of the store, whichever of their file operations
  fail, fetching what it names returns this very content, or reports that the object is gone, and then one
  of the cleanups was confirmed. The contents of the history must not collide under SHA-256, and the \<open>Put\<close>
  must not have been told wrongly that the file exists or does not.\<close>

theorem marker_leads_to_content:
  assumes "NewStore root' = Inr root" and "store_ok root fs" and "good_env env" and "list_all good_op ops"
    and "fst (Put env root c fs) = Inr a" and "pe_Rename env \<noteq> Some OsExist" and "pe_Stat env \<noteq> Some OsNotExist"
    and "in_int64 (int (length c))"
    and "\<forall>c' \<in> stored_contents fs \<union> \<Union> (put_contents ` set ops).
      ad_Hex (AddressForContent c') = ad_Hex (AddressForContent c) \<longrightarrow> c' = c"
  shows "\<exists>rendered m. RenderMarker a = Inr rendered \<and> ParseMarker rendered = Inr m \<and>
    (case Get None root (mk_Address m) (run_ops root ops (snd (Put env root c fs))) of
       Inr content \<Rightarrow> content = c
     | Inl err \<Rightarrow> err = ErrNotFound \<and> list_ex removing ops)"
proof -
  have root: "root \<noteq> []" using assms(1) by (auto simp: NewStore_def split: if_splits)
  have a: "a = AddressForContent c" by (rule Put_address [OF assms(5)])
  have range: "in_int64 (ad_Bytes a)" using assms(8) by (simp add: a AddressForContent_def)
  have valid: "validateAddress a = None" by (simp add: a AddressForContent_valid)
  obtain rendered where rendered: "RenderMarker a = Inr rendered" using RenderMarker_valid [OF valid range] by blast
  note parsed = ParseMarker_RenderMarker [OF valid range rendered]
  have "holds_only root c fs" using store_ok_holds_only [OF assms(2)] assms(9) by blast
  from holds_only_run_op [OF root _ this, of "PutOp env c"]
  have kept: "holds_only root c (snd (Put env root c fs))" by (simp add: assms(3))
  have "present root c (snd (Put env root c fs))"
    by (rule Put_present [OF root assms(3,5,6,7)])
  moreover have "\<forall>x \<in> set ops. \<forall>c' \<in> put_contents x. ad_Hex (AddressForContent c') = ad_Hex (AddressForContent c) \<longrightarrow> c' = c"
    using assms(9) by blast
  ultimately have "holds_only root c (run_ops root ops (snd (Put env root c fs))) \<and>
      (present root c (run_ops root ops (snd (Put env root c fs))) \<or> list_ex removing ops)"
    by (rule run_ops_object [OF root assms(4) kept])
  then show ?thesis
    using rendered parsed by (auto simp: a Get_holds_only)
qed

lemma marker_leads_to_content_witness:
  "\<exists>rendered m. RenderMarker (AddressForContent ''abc'') = Inr rendered \<and> ParseMarker rendered = Inr m \<and>
     Get None ''s'' (mk_Address m) (run_ops ''s''
       [PutOp (calm\<lparr>pe_Stat := Some OsNotExist, pe_Write := Some (1, OsOther ''disk full'')\<rparr>) ''abc'',
        CleanupOp (sort_key oi_modTime) (\<lambda>_. None) None 9 \<lparr>co_Now = 0, co_Policy = \<lparr>rp_MaxAge = 1, rp_MaxBytes = 1\<rparr>, co_Confirm = False\<rparr>] (snd (Put calm ''s'' ''abc'' []))) = Inr ''abc''"
proof -
  let ?ops = "[PutOp (calm\<lparr>pe_Stat := Some OsNotExist, pe_Write := Some (1, OsOther ''disk full'')\<rparr>) ''abc'',
        CleanupOp (sort_key oi_modTime) (\<lambda>_. None) None 9 \<lparr>co_Now = 0, co_Policy = \<lparr>rp_MaxAge = 1, rp_MaxBytes = 1\<rparr>, co_Confirm = False\<rparr>]"
  have n: "NewStore ''s'' = Inr ''s''" by (simp add: NewStore_def)
  have s: "store_ok ''s'' []" by (simp add: store_ok_def fs_lookup_def)
  have g: "good_env calm" "list_all good_op ?ops" by (simp_all add: good_env_def calm_def)
  have p: "fst (Put calm ''s'' ''abc'' []) = Inr (AddressForContent ''abc'')"
    by (rule Put_ok_without_faults) (simp_all add: no_faults_def calm_def fs_lookup_def)
  have e: "pe_Rename calm \<noteq> Some OsExist" "pe_Stat calm \<noteq> Some OsNotExist" by (simp_all add: calm_def)
  have i: "in_int64 (int (length ''abc''))" by (simp add: in_int64_def)
  have c: "\<forall>c' \<in> stored_contents [] \<union> \<Union> (put_contents ` set ?ops).
      ad_Hex (AddressForContent c') = ad_Hex (AddressForContent ''abc'') \<longrightarrow> c' = ''abc''"
    by (simp add: stored_contents_def)
  have dry: "\<not> list_ex removing ?ops" by simp
  let ?G = "\<lambda>m. Get None ''s'' (mk_Address m) (run_ops ''s'' ?ops (snd (Put calm ''s'' ''abc'' [])))"
  obtain rendered m where r: "RenderMarker (AddressForContent ''abc'') = Inr rendered" "ParseMarker rendered = Inr m"
    and g: "case ?G m of Inr content \<Rightarrow> content = ''abc'' | Inl err \<Rightarrow> err = ErrNotFound \<and> list_ex removing ?ops"
    using marker_leads_to_content [OF n s g p e i c] by blast
  have "?G m = Inr ''abc''" using g dry by (cases "?G m") (simp_all only: sum.case HOL.simp_thms)
  then show ?thesis using r by blast
qed

end
