(* ===== verification/Ccr_Concurrent.thy ===== *)
theory Ccr_Concurrent
  imports Ccr_Store
begin

text \<open>
  Several runs of \<open>Put\<close> (\<open>internal/ccr/store.go\<close>) at the same time, in one process or in many: there is no
  lock, so their calls of package \<open>os\<close> interleave in any order, with each other and with the removals of a
  cleanup, and a process may crash between two of them. The files are kept here as a kernel keeps them: a
  name stands for a file, and an open file can be written after its name has gone.

  A run is a program counter and the steps that lead from one to the next; a write may put its bytes into
  the file in pieces. That \<open>CreateTemp\<close> never draws the name that another run still uses is not promised
  by package \<open>os\<close>, only very likely: the name is free again when that run has renamed its file, or a cleanup
  has removed it. The program is the system \<open>store_step False\<close>, in which any name may be drawn that no file
  has; that two runs have drawn the same name is an event of it, a \<open>collision\<close>, and the theorems say what
  holds unless there has been one. \<open>store_step True\<close> is the same system without collisions, which the proofs
  go through.
\<close>

section \<open>The files\<close>

record disk =
  dk_Names :: "string \<Rightarrow> nat option"
  dk_Data :: "nat \<Rightarrow> stored_file"
  dk_Next :: nat

definition disk_lookup :: "disk \<Rightarrow> string \<Rightarrow> stored_file option" where
  "disk_lookup d q = map_option (dk_Data d) (dk_Names d q)"

definition unlink :: "string \<Rightarrow> disk \<Rightarrow> disk" where
  "unlink q d = d\<lparr>dk_Names := (dk_Names d)(q := None)\<rparr>"

definition create_file :: "string \<Rightarrow> time \<Rightarrow> disk \<Rightarrow> disk" where
  "create_file q now d = d\<lparr>dk_Names := (dk_Names d)(q := Some (dk_Next d)),
     dk_Data := (dk_Data d)(dk_Next d := \<lparr>f_Content = [], f_ModTime = now\<rparr>), dk_Next := Suc (dk_Next d)\<rparr>"

definition write_file :: "nat \<Rightarrow> string \<Rightarrow> time \<Rightarrow> disk \<Rightarrow> disk" where
  "write_file i content now d = d\<lparr>dk_Data := (dk_Data d)(i := \<lparr>f_Content = content, f_ModTime = now\<rparr>)\<rparr>"

definition rename_file :: "string \<Rightarrow> string \<Rightarrow> nat \<Rightarrow> disk \<Rightarrow> disk" where
  "rename_file p q i d = d\<lparr>dk_Names := (dk_Names d)(p := None, q := Some i)\<rparr>"

lemmas disk_ops = unlink_def create_file_def write_file_def rename_file_def

section \<open>One run of Put\<close>

text \<open>What the run does next; from \<open>PutWrite\<close> to \<open>PutRename\<close> with the name of its temporary file and the
  file, and \<open>PutWrite\<close> with the number of bytes that are written. \<open>PutRemove\<close> is the deferred removal.\<close>

datatype put_pc =
    PutStat
  | PutMkdir
  | PutCreate
  | PutWrite string nat nat
  | PutChmod string nat
  | PutClose string nat
  | PutRename string nat
  | PutRemove string "store_error + address"
  | PutDone "store_error + address"
  | PutCrashed

definition object_of :: "string \<Rightarrow> string \<Rightarrow> string" where
  "object_of root c = ObjectPath root (AddressForContent c)"

text \<open>\<open>taken\<close> are the names that \<open>CreateTemp\<close> does not draw besides those there are files of.\<close>

inductive put_move :: "(string \<Rightarrow> bool) \<Rightarrow> string \<Rightarrow> string \<Rightarrow> disk \<times> put_pc \<Rightarrow> disk \<times> put_pc \<Rightarrow> bool"
  for taken :: "string \<Rightarrow> bool" and root c :: string where
  stat_present: "dk_Names d (object_of root c) \<noteq> None \<Longrightarrow>
    put_move taken root c (d, PutStat) (d, PutDone (Inr (AddressForContent c)))"
| stat_absent: "put_move taken root c (d, PutStat) (d, PutMkdir)"
| stat_error: "e \<noteq> OsNotExist \<Longrightarrow> put_move taken root c (d, PutStat) (d, PutDone (Inl (OsFailure e)))"
| mkdir: "put_move taken root c (d, PutMkdir) (d, PutCreate)"
| mkdir_error: "put_move taken root c (d, PutMkdir) (d, PutDone (Inl (OsFailure e)))"
| create: "temp = temp_file (Dir (object_of root c)) t \<Longrightarrow> CHR ''/'' \<notin> set t \<Longrightarrow> dk_Names d temp = None \<Longrightarrow> \<not> taken temp \<Longrightarrow>
    put_move taken root c (d, PutCreate) (create_file temp now d, PutWrite temp (dk_Next d) 0)"
| create_error: "put_move taken root c (d, PutCreate) (d, PutDone (Inl (OsFailure e)))"
| write_some: "n < m \<Longrightarrow> m \<le> length c \<Longrightarrow>
    put_move taken root c (d, PutWrite temp i n) (write_file i (take m c) now d, PutWrite temp i m)"
| write_all: "n = length c \<Longrightarrow> put_move taken root c (d, PutWrite temp i n) (d, PutChmod temp i)"
| write_error: "put_move taken root c (d, PutWrite temp i n) (d, PutRemove temp (Inl (OsFailure e)))"
| chmod: "put_move taken root c (d, PutChmod temp i) (d, PutClose temp i)"
| chmod_error: "put_move taken root c (d, PutChmod temp i) (d, PutRemove temp (Inl (OsFailure e)))"
| close: "put_move taken root c (d, PutClose temp i) (d, PutRename temp i)"
| close_error: "put_move taken root c (d, PutClose temp i) (d, PutRemove temp (Inl (OsFailure e)))"
| rename: "dk_Names d temp = Some j \<Longrightarrow>
    put_move taken root c (d, PutRename temp i) (rename_file temp (object_of root c) j d, PutRemove temp (Inr (AddressForContent c)))"
| rename_gone: "dk_Names d temp = None \<Longrightarrow>
    put_move taken root c (d, PutRename temp i) (d, PutRemove temp (Inl (OsFailure OsNotExist)))"
| rename_exists: "dk_Names d (object_of root c) \<noteq> None \<Longrightarrow>
    put_move taken root c (d, PutRename temp i) (d, PutRemove temp (Inr (AddressForContent c)))"
| rename_error: "e \<noteq> OsExist \<Longrightarrow>
    put_move taken root c (d, PutRename temp i) (d, PutRemove temp (Inl (OsFailure e)))"
| remove: "put_move taken root c (d, PutRemove temp r) (unlink temp d, PutDone r)"
| remove_error: "put_move taken root c (d, PutRemove temp r) (d, PutDone r)"

section \<open>Many runs\<close>

fun stopped :: "put_pc \<Rightarrow> bool" where
  "stopped (PutDone r) = True"
| "stopped PutCrashed = True"
| "stopped _ = False"

text \<open>The temporary name a run uses, and the file it has open or closed but not yet renamed.\<close>

fun held :: "put_pc \<Rightarrow> string option" where
  "held (PutWrite temp i n) = Some temp"
| "held (PutChmod temp i) = Some temp"
| "held (PutClose temp i) = Some temp"
| "held (PutRename temp i) = Some temp"
| "held (PutRemove temp r) = Some temp"
| "held _ = None"

record store_state =
  ss_Disk :: disk
  ss_Pc :: "nat \<Rightarrow> put_pc"

datatype store_label = Run nat | Crash nat | Removed string

text \<open>The run \<open>p\<close> puts \<open>input p\<close>. A removal is that of a cleanup, or of a user.\<close>

inductive store_step :: "bool \<Rightarrow> string \<Rightarrow> (nat \<Rightarrow> string) \<Rightarrow> store_state \<Rightarrow> store_label \<Rightarrow> store_state \<Rightarrow> bool"
  for unique :: bool and root :: string and input :: "nat \<Rightarrow> string" where
  run: "put_move (\<lambda>t. unique \<and> (\<exists>q. q \<noteq> p \<and> held (ss_Pc s q) = Some t)) root (input p)
      (ss_Disk s, ss_Pc s p) (d', pc') \<Longrightarrow>
    store_step unique root input s (Run p) (s\<lparr>ss_Disk := d', ss_Pc := (ss_Pc s)(p := pc')\<rparr>)"
| crash: "\<not> stopped (ss_Pc s p) \<Longrightarrow>
    store_step unique root input s (Crash p) (s\<lparr>ss_Pc := (ss_Pc s)(p := PutCrashed)\<rparr>)"
| removed: "store_step unique root input s (Removed q) (s\<lparr>ss_Disk := unlink q (ss_Disk s)\<rparr>)"

text \<open>A run draws the name of a temporary file that another run is not yet done with.\<close>

definition collision :: "store_state \<Rightarrow> store_label \<Rightarrow> store_state \<Rightarrow> bool" where
  "collision s l s' \<longleftrightarrow>
     (\<exists>p q t. l = Run p \<and> ss_Pc s p = PutCreate \<and> held (ss_Pc s' p) = Some t \<and> q \<noteq> p \<and> held (ss_Pc s q) = Some t)"

text \<open>No run has begun, and the store is in order.\<close>

definition objects_ok :: "string \<Rightarrow> disk \<Rightarrow> bool" where
  "objects_ok root d \<longleftrightarrow>
     (\<forall>a f. validateAddress a = None \<longrightarrow> disk_lookup d (ObjectPath root a) = Some f \<longrightarrow>
        ad_Hex (AddressForContent (f_Content f)) = ad_Hex a)"

definition idle_store :: "string \<Rightarrow> store_state \<Rightarrow> bool" where
  "idle_store root s \<longleftrightarrow> ss_Pc s = (\<lambda>p. PutStat) \<and> objects_ok root (ss_Disk s) \<and>
     (\<forall>q i. dk_Names (ss_Disk s) q = Some i \<longrightarrow> i < dk_Next (ss_Disk s))"

inductive store_reach :: "bool \<Rightarrow> string \<Rightarrow> (nat \<Rightarrow> string) \<Rightarrow> store_state \<Rightarrow> bool"
  for unique root input where
  start: "idle_store root s \<Longrightarrow> store_reach unique root input s"
| step: "store_reach unique root input s \<Longrightarrow> store_step unique root input s l s' \<Longrightarrow> store_reach unique root input s'"

text \<open>What the program can come to, and whether two temporary names have collided on the way.\<close>

inductive store_history :: "string \<Rightarrow> (nat \<Rightarrow> string) \<Rightarrow> bool \<Rightarrow> store_state \<Rightarrow> bool"
  for root input where
  start: "idle_store root s \<Longrightarrow> store_history root input False s"
| step: "store_history root input collided s \<Longrightarrow> store_step False root input s l s' \<Longrightarrow>
    store_history root input (collided \<or> collision s l s') s'"

text \<open>The steps without a collision are those of the system that has none.\<close>

lemma put_move_taken:
  assumes "put_move taken root c (d, pc) (d', pc')" and "\<And>t. pc = PutCreate \<Longrightarrow> held pc' = Some t \<Longrightarrow> \<not> taken' t"
  shows "put_move taken' root c (d, pc) (d', pc')"
  using assms(1)
proof (cases rule: put_move.cases)
  case (create temp t now)
  then show ?thesis using assms(2) [of temp] put_move.create [of temp root c t d taken' now] by simp
qed (auto intro: put_move.intros)

lemma put_move_not_taken: "put_move taken root c (d, PutCreate) (d', pc') \<Longrightarrow> held pc' = Some t \<Longrightarrow> \<not> taken t"
  by (erule put_move.cases) auto

lemma store_step_exclusive:
  "store_step True root input s l s' \<longleftrightarrow> store_step False root input s l s' \<and> \<not> collision s l s'"
proof
  assume "store_step True root input s l s'"
  then show "store_step False root input s l s' \<and> \<not> collision s l s'"
  proof cases
    case (run p d' pc')
    have "put_move (\<lambda>t. False \<and> (\<exists>q. q \<noteq> p \<and> held (ss_Pc s q) = Some t)) root (input p) (ss_Disk s, ss_Pc s p) (d', pc')"
      by (rule put_move_taken [OF run(3)]) simp
    from store_step.run [where unique = False and s = s and p = p and input = input, OF this] have "store_step False root input s l s'" by (simp add: run)
    moreover have "\<not> collision s l s'"
      using put_move_not_taken [of _ root "input p" "ss_Disk s" d' pc'] run by (fastforce simp: collision_def)
    ultimately show ?thesis by blast
  qed (auto simp: collision_def intro: store_step.intros)
next
  assume s: "store_step False root input s l s' \<and> \<not> collision s l s'"
  then have "store_step False root input s l s'" by blast
  then show "store_step True root input s l s'"
  proof cases
    case (run p d' pc')
    have "put_move (\<lambda>t. True \<and> (\<exists>q. q \<noteq> p \<and> held (ss_Pc s q) = Some t)) root (input p) (ss_Disk s, ss_Pc s p) (d', pc')"
      by (rule put_move_taken [OF run(3)]) (use s run in \<open>auto simp: collision_def\<close>)
    from store_step.run [where unique = True and s = s and p = p and input = input, OF this] show ?thesis by (simp add: run)
  qed (auto intro: store_step.intros)
qed

lemma store_history_reach: "store_history root input collided s \<Longrightarrow> \<not> collided \<Longrightarrow> store_reach True root input s"
proof (induction rule: store_history.induct)
  case (step collided s l s')
  then show ?case using store_step_exclusive by (meson store_reach.step)
qed (rule store_reach.start)

lemma store_reach_history: "store_reach True root input s \<Longrightarrow> store_history root input False s"
proof (induction rule: store_reach.induct)
  case (step s l s')
  then show ?case
    using store_history.step [of root input False s l s'] store_step_exclusive [of root input s l s'] by simp
qed (rule store_history.start)

section \<open>What holds in every state\<close>

definition temp_name :: "string \<Rightarrow> bool" where
  "temp_name q \<longleftrightarrow> (\<exists>dir t. q = temp_file dir t \<and> CHR ''/'' \<notin> set t)"

fun opened :: "put_pc \<Rightarrow> (string \<times> nat) option" where
  "opened (PutWrite temp i n) = Some (temp, i)"
| "opened (PutChmod temp i) = Some (temp, i)"
| "opened (PutClose temp i) = Some (temp, i)"
| "opened (PutRename temp i) = Some (temp, i)"
| "opened _ = None"

fun bytes_in :: "string \<Rightarrow> put_pc \<Rightarrow> string" where
  "bytes_in c (PutWrite temp i n) = take n c"
| "bytes_in c _ = c"

text \<open>The file a run has open holds the bytes the run has written and has no other name than the run's
  temporary one, if it still has that; no two runs share a name or a file.\<close>

definition only_name :: "disk \<Rightarrow> nat \<Rightarrow> string \<Rightarrow> bool" where
  "only_name d i t \<longleftrightarrow> (\<forall>q. q \<noteq> t \<longrightarrow> dk_Names d q \<noteq> Some i)"

definition owns :: "disk \<Rightarrow> string \<Rightarrow> put_pc \<Rightarrow> bool" where
  "owns d c pc \<longleftrightarrow>
     (\<forall>t i. opened pc = Some (t, i) \<longrightarrow> i < dk_Next d \<and> f_Content (dk_Data d i) = bytes_in c pc \<and>
        only_name d i t \<and> (dk_Names d t = None \<or> dk_Names d t = Some i))"

definition disk_inv :: "string \<Rightarrow> disk \<Rightarrow> bool" where
  "disk_inv root d \<longleftrightarrow> objects_ok root d \<and> (\<forall>q i. dk_Names d q = Some i \<longrightarrow> i < dk_Next d)"

text \<open>Two runs do not meet.\<close>

definition apart :: "put_pc \<Rightarrow> put_pc \<Rightarrow> bool" where
  "apart pc pc' \<longleftrightarrow> (\<forall>t. held pc = Some t \<longrightarrow> held pc' \<noteq> Some t) \<and>
     (\<forall>t i t'. opened pc = Some (t, i) \<longrightarrow> opened pc' \<noteq> Some (t', i))"

definition names_temp :: "put_pc \<Rightarrow> bool" where
  "names_temp pc \<longleftrightarrow> (\<forall>t. held pc = Some t \<longrightarrow> temp_name t)"

definition store_inv :: "string \<Rightarrow> (nat \<Rightarrow> string) \<Rightarrow> store_state \<Rightarrow> bool" where
  "store_inv root input s \<longleftrightarrow> disk_inv root (ss_Disk s) \<and>
     (\<forall>p. owns (ss_Disk s) (input p) (ss_Pc s p) \<and> names_temp (ss_Pc s p)) \<and>
     (\<forall>p q. p \<noteq> q \<longrightarrow> apart (ss_Pc s p) (ss_Pc s q))"

lemma opened_held: "opened pc = Some (t, i) \<Longrightarrow> held pc = Some t"
  by (cases pc) auto

lemma temp_name_not_object:
  "temp_name t \<Longrightarrow> root \<noteq> [] \<Longrightarrow> validateAddress a = None \<Longrightarrow> ObjectPath root a \<noteq> t"
  by (metis temp_name_def temp_not_object)

lemma temp_name_not_object_of: "temp_name t \<Longrightarrow> root \<noteq> [] \<Longrightarrow> object_of root c \<noteq> t"
  unfolding object_of_def by (rule temp_name_not_object) (simp_all add: AddressForContent_valid)

definition named_by :: "stored_file \<Rightarrow> address \<Rightarrow> bool" where
  "named_by f a \<longleftrightarrow> ad_Hex (AddressForContent (f_Content f)) = ad_Hex a"

lemma objects_ok_alt:
  "objects_ok root d \<longleftrightarrow>
     (\<forall>a i. validateAddress a = None \<longrightarrow> dk_Names d (ObjectPath root a) = Some i \<longrightarrow> named_by (dk_Data d i) a)"
  by (auto simp: objects_ok_def disk_lookup_def named_by_def)

lemma same_object:
  assumes "root \<noteq> []" and "validateAddress a = None" and "ObjectPath root a = object_of root c"
  shows "ad_Hex (AddressForContent c) = ad_Hex a"
  using Base_ObjectPath [OF assms(1,2)] Base_ObjectPath [OF assms(1) AddressForContent_valid, of c] assms(3)
  by (simp add: object_of_def)

subsection \<open>Operations on the files\<close>

lemma disk_inv_unlink: "disk_inv root d \<Longrightarrow> disk_inv root (unlink q d)"
  unfolding disk_inv_def objects_ok_alt unlink_def by simp

lemma disk_inv_create:
  assumes "disk_inv root d" and "temp_name t" and "root \<noteq> []"
  shows "disk_inv root (create_file t now d)"
  using assms(1) temp_name_not_object [OF assms(2,3)]
  unfolding disk_inv_def objects_ok_alt create_file_def by (simp add: less_Suc_eq) (metis less_irrefl)

lemma disk_inv_write:
  assumes "disk_inv root d" and "temp_name t" and "root \<noteq> []" and "only_name d i t"
  shows "disk_inv root (write_file i c now d)"
  using assms(1) temp_name_not_object [OF assms(2,3)] assms(4)
  unfolding disk_inv_def objects_ok_alt write_file_def only_name_def by simp

lemma disk_inv_rename:
  assumes "disk_inv root d" and "root \<noteq> []" and "dk_Names d t = Some i" and "f_Content (dk_Data d i) = c"
  shows "disk_inv root (rename_file t (object_of root c) i d)"
proof -
  have "named_by (dk_Data d i) a" if "validateAddress a = None" "ObjectPath root a = object_of root c" for a
    using same_object [OF assms(2) that] assms(4) by (simp add: named_by_def)
  then show ?thesis
    using assms(1,3) unfolding disk_inv_def objects_ok_alt rename_file_def by simp
qed

lemma owns_simps:
  "opened pc = None \<Longrightarrow> owns d c pc"
  "opened pc = Some (t, i) \<Longrightarrow> owns d c pc \<longleftrightarrow> i < dk_Next d \<and> f_Content (dk_Data d i) = bytes_in c pc \<and>
     only_name d i t \<and> (dk_Names d t = None \<or> dk_Names d t = Some i)"
  by (simp_all add: owns_def)

lemma opened_cases:
  obtains "opened pc = None" | t i where "opened pc = Some (t, i)" "held pc = Some t"
  by (cases pc) auto

lemma only_name_ops:
  "only_name d i t \<Longrightarrow> only_name (unlink q d) i t"
  "only_name d i t \<Longrightarrow> i < dk_Next d \<Longrightarrow> only_name (create_file q now d) i t"
  "only_name (write_file j b now d) i t = only_name d i t"
  "only_name d i t \<Longrightarrow> i \<noteq> j \<Longrightarrow> only_name (rename_file q r j d) i t"
  by (simp_all add: only_name_def disk_ops)

lemma owns_unlink: "owns d c pc \<Longrightarrow> owns (unlink q d) c pc"
  by (cases pc rule: opened_cases) (simp_all add: owns_simps only_name_ops, simp_all add: unlink_def)

lemma owns_create:
  "owns d c pc \<Longrightarrow> held pc \<noteq> Some t \<Longrightarrow> owns (create_file t now d) c pc"
  by (cases pc rule: opened_cases) (simp_all add: owns_simps only_name_ops, simp_all add: create_file_def)

lemma owns_write:
  "owns d c pc \<Longrightarrow> (\<And>t. opened pc \<noteq> Some (t, i)) \<Longrightarrow> owns (write_file i b now d) c pc"
  by (cases pc rule: opened_cases) (auto simp: owns_simps only_name_ops, auto simp: write_file_def)

lemma owns_rename:
  assumes "owns d c pc" and "names_temp pc" and "root \<noteq> []" and "dk_Names d t = Some i" and "held pc \<noteq> Some t"
  shows "owns (rename_file t (object_of root c') i d) c pc"
proof (cases pc rule: opened_cases)
  case (2 t' j)
  have "object_of root c' \<noteq> t'"
    using temp_name_not_object_of [OF _ assms(3)] assms(2) 2(2) by (simp add: names_temp_def)
  moreover have "i \<noteq> j" using assms(1,4,5) 2 by (auto simp: owns_simps only_name_def)
  ultimately show ?thesis
    using assms(1,5) 2 by (simp add: owns_simps only_name_ops, simp add: rename_file_def)
qed (simp add: owns_simps)

subsection \<open>A step keeps the invariant\<close>

lemma apart_sym: "apart pc pc' \<Longrightarrow> apart pc' pc"
  by (auto simp: apart_def)

text \<open>A step of one run, as the other runs see it.\<close>

lemma put_move_other:
  assumes "put_move taken root c (d, pc) (d', pc')" and "root \<noteq> []" and "owns d c pc" and "names_temp pc"
    and "apart pc other" and "owns d c' other" and "names_temp other"
    and "\<And>t. held other = Some t \<Longrightarrow> taken t" and "\<And>t i. opened other = Some (t, i) \<Longrightarrow> i < dk_Next d"
  shows "owns d' c' other \<and> apart pc' other"
  using assms(1)
proof (cases rule: put_move.cases)
  case (create temp t now)
  then have "held other \<noteq> Some temp" using assms(8) by blast
  then show ?thesis
    using create assms(9) owns_create [OF assms(6)] by (fastforce simp: apart_def)
next
  case (write_some n m temp i now)
  then have "opened other \<noteq> Some (t, i)" for t using assms(5) by (auto simp: apart_def)
  then show ?thesis
    using write_some assms(5) owns_write [OF assms(6)] by (auto simp: apart_def)
next
  case (rename temp j i)
  have "held other \<noteq> Some temp" using assms(5) rename by (auto simp: apart_def)
  then show ?thesis
    using rename assms(5) owns_rename [OF assms(6,7,2) rename(4)] by (auto simp: apart_def)
qed (use assms(5,6) in \<open>auto simp: apart_def owns_unlink\<close>)

text \<open>And as the run itself sees it.\<close>

lemma put_move_own:
  assumes "put_move taken root c (d, pc) (d', pc')" and "root \<noteq> []" and "disk_inv root d" and "owns d c pc"
    and "names_temp pc"
  shows "disk_inv root d' \<and> owns d' c pc' \<and> names_temp pc'"
  using assms(1)
proof (cases rule: put_move.cases)
  case (create temp t now)
  then have t: "temp_name temp" unfolding temp_name_def by blast
  have "only_name (create_file temp now d) (dk_Next d) temp"
    using assms(3) by (auto simp: disk_inv_def only_name_def create_file_def)
  then have "owns d' c pc'" using create by (simp add: owns_def) (simp add: create_file_def)
  then show ?thesis
    using create disk_inv_create [OF assms(3) t assms(2)] t by (simp add: names_temp_def)
next
  case (write_some n m temp i now)
  then have t: "temp_name temp" using assms(5) by (simp add: names_temp_def)
  have "disk_inv root d'"
    using write_some disk_inv_write [OF assms(3) t assms(2)] assms(4) by (auto simp: owns_def)
  then show ?thesis
    using write_some assms(4,5) by (auto simp: owns_def write_file_def names_temp_def only_name_def)
next
  case (rename temp j i)
  then have "f_Content (dk_Data d j) = c" using assms(4) by (auto simp: owns_def)
  then have "disk_inv root d'" using rename disk_inv_rename [OF assms(3,2)] by simp
  then show ?thesis using rename assms(5) by (simp add: owns_def names_temp_def)
qed (use assms(3,4,5) in \<open>auto simp: owns_def names_temp_def disk_inv_unlink\<close>)

lemma store_inv_step:
  assumes "store_step True root input s l s'" and "store_inv root input s" and "root \<noteq> []"
  shows "store_inv root input s'"
  using assms(1)
proof cases
  case (run p d' pc')
  have own: "disk_inv root d' \<and> owns d' (input p) pc' \<and> names_temp pc'"
    by (rule put_move_own [OF run(3) assms(3)]) (use assms(2) in \<open>auto simp: store_inv_def\<close>)
  have other: "owns d' (input q) (ss_Pc s q) \<and> apart pc' (ss_Pc s q)" if "q \<noteq> p" for q
    by (rule put_move_other [OF run(3) assms(3)])
      (use assms(2) that in \<open>auto simp: store_inv_def owns_def\<close>)
  show ?thesis
    using own other assms(2) unfolding run(2) store_inv_def by (auto intro: apart_sym)
next
  case (crash p)
  then show ?thesis using assms(2) by (auto simp: store_inv_def owns_def names_temp_def apart_def)
next
  case (removed q)
  then show ?thesis using assms(2) by (auto simp: store_inv_def disk_inv_unlink owns_unlink)
qed

lemma store_inv_idle: "idle_store root s \<Longrightarrow> store_inv root input s"
  by (auto simp: idle_store_def store_inv_def disk_inv_def owns_def names_temp_def apart_def)

lemma store_inv_reach: "store_reach True root input s \<Longrightarrow> root \<noteq> [] \<Longrightarrow> store_inv root input s"
  by (induction rule: store_reach.induct) (auto intro: store_inv_idle store_inv_step)

section \<open>A run comes to its end\<close>

text \<open>At most this many steps are left to a run that puts \<open>n\<close> bytes.\<close>

fun put_left :: "nat \<Rightarrow> put_pc \<Rightarrow> nat" where
  "put_left len PutStat = 8 + len"
| "put_left len PutMkdir = 7 + len"
| "put_left len PutCreate = 6 + len"
| "put_left len (PutWrite temp i n) = 5 + (len - n)"
| "put_left len (PutChmod temp i) = 4"
| "put_left len (PutClose temp i) = 3"
| "put_left len (PutRename temp i) = 2"
| "put_left len (PutRemove temp r) = 1"
| "put_left len _ = 0"

lemma put_move_left: "put_move taken root c (d, pc) (d', pc') \<Longrightarrow> put_left (length c) pc' < put_left (length c) pc"
  by (cases rule: put_move.cases) auto

lemma put_move_exists: "\<not> stopped pc \<Longrightarrow> \<exists>d' pc'. put_move taken root c (d, pc) (d', pc')"
proof (cases pc)
  case (PutRename temp i)
  have "OsOther [] \<noteq> OsExist" by simp
  then show ?thesis unfolding PutRename by (blast intro: rename_error)
qed (auto intro: put_move.intros)

lemma put_left_0: "put_left len pc = 0 \<longleftrightarrow> stopped pc"
  by (cases pc) auto

lemma put_move_not_stopped: "put_move taken root c (d, pc) (d', pc') \<Longrightarrow> \<not> stopped pc"
  using put_move_left [of taken root c d pc d' pc'] put_left_0 [of "length c" pc] by auto

lemma store_step_left:
  assumes "store_step unique root input s l s'"
  shows "put_left (length (input p)) (ss_Pc s' p) + (if l = Run p then 1 else 0) \<le> put_left (length (input p)) (ss_Pc s p)"
  using assms
proof cases
  case (run q d' pc')
  then show ?thesis using put_move_left [OF run(3)] by auto
qed auto

lemma store_step_stopped:
  assumes "store_step unique root input s l s'" and "stopped (ss_Pc s p)"
  shows "ss_Pc s' p = ss_Pc s p"
  using assms(1)
proof cases
  case (run q d' pc')
  then show ?thesis using put_move_not_stopped [OF run(3)] assms(2) by auto
qed (use assms(2) in auto)

lemma put_move_not_crashed: "put_move taken root c (d, pc) (d', pc') \<Longrightarrow> pc' \<noteq> PutCrashed"
  by (erule put_move.cases) auto

lemma store_step_crashed:
  "store_step unique root input s l s' \<Longrightarrow> l \<noteq> Crash p \<Longrightarrow> ss_Pc s p \<noteq> PutCrashed \<Longrightarrow> ss_Pc s' p \<noteq> PutCrashed"
  by (cases rule: store_step.cases) (auto dest: put_move_not_crashed split: if_splits)

text \<open>What a run reports has been there.\<close>

fun reported :: "put_pc \<Rightarrow> address option" where
  "reported (PutRemove temp (Inr a)) = Some a"
| "reported (PutDone (Inr a)) = Some a"
| "reported _ = None"

lemma put_move_reported:
  assumes "put_move taken root c (d, pc) (d', pc')" and "reported pc' = Some a"
  shows "reported pc = Some a \<or> a = AddressForContent c \<and> dk_Names d' (object_of root c) \<noteq> None"
proof -
  have "reported (PutRemove temp r) = reported (PutDone r)" for temp r by (cases r) simp_all
  with assms show ?thesis
    by (cases rule: put_move.cases) (auto simp: rename_file_def)
qed

lemma store_step_reported:
  assumes "store_step unique root input s l s'" and "reported (ss_Pc s' p) = Some a"
  shows "reported (ss_Pc s p) = Some a \<or>
    a = AddressForContent (input p) \<and> dk_Names (ss_Disk s') (object_of root (input p)) \<noteq> None"
  using assms(1)
proof cases
  case (run q d' pc')
  then show ?thesis using put_move_reported [OF run(3)] assms(2) by (auto split: if_splits)
qed (use assms(2) in \<open>auto split: if_splits\<close>)

subsection \<open>Fair runs\<close>

text \<open>The run \<open>p\<close> is given turns again and again until it has stopped, and its process does not crash; names may
  collide.\<close>

definition fair_run :: "string \<Rightarrow> (nat \<Rightarrow> string) \<Rightarrow> (nat \<Rightarrow> store_state) \<Rightarrow> (nat \<Rightarrow> store_label) \<Rightarrow> nat \<Rightarrow> bool" where
  "fair_run root input st lab p \<longleftrightarrow> idle_store root (st 0) \<and> (\<forall>i. store_step False root input (st i) (lab i) (st (Suc i))) \<and>
     (\<forall>i. lab i \<noteq> Crash p) \<and> (\<forall>i. \<exists>j \<ge> i. lab j = Run p \<or> stopped (ss_Pc (st j) p))"

text \<open>As long as no names have collided.\<close>

lemma fair_run_reach:
  "fair_run root input st lab p \<Longrightarrow> (\<And>i. i < k \<Longrightarrow> \<not> collision (st i) (lab i) (st (Suc i))) \<Longrightarrow>
     store_reach True root input (st k)"
proof (induction k)
  case 0
  then show ?case by (simp add: fair_run_def store_reach.start)
next
  case (Suc k)
  have "store_step True root input (st k) (lab k) (st (Suc k))"
    using Suc.prems by (simp add: store_step_exclusive fair_run_def)
  then show ?case using Suc by (meson less_SucI store_reach.step)
qed

lemma fair_run_left_mono:
  assumes "fair_run root input st lab p" and "i \<le> j"
  shows "put_left (length (input p)) (ss_Pc (st j) p) \<le> put_left (length (input p)) (ss_Pc (st i) p)"
  using assms(2)
proof (induction rule: dec_induct)
  case (step n)
  have "store_step False root input (st n) (lab n) (st (Suc n))" using assms(1) by (simp add: fair_run_def)
  from store_step_left [OF this, of p] show ?case using step by simp
qed simp

lemma fair_run_stops:
  assumes "fair_run root input st lab p"
  shows "\<exists>j \<ge> i. stopped (ss_Pc (st j) p)"
proof (induction "put_left (length (input p)) (ss_Pc (st i) p)" arbitrary: i rule: less_induct)
  case less
  obtain j where j: "i \<le> j" "lab j = Run p \<or> stopped (ss_Pc (st j) p)"
    using assms unfolding fair_run_def by blast
  show ?case
  proof (cases "stopped (ss_Pc (st j) p)")
    case False
    have s: "store_step False root input (st j) (lab j) (st (Suc j))" using assms by (simp add: fair_run_def)
    have "put_left (length (input p)) (ss_Pc (st (Suc j)) p) < put_left (length (input p)) (ss_Pc (st i) p)"
      using store_step_left [OF s, of p] fair_run_left_mono [OF assms j(1)] False j(2) by simp
    from less [OF this] show ?thesis using j(1) by (meson Suc_leD le_trans)
  qed (use j in blast)
qed

lemma fair_run_stays:
  assumes "fair_run root input st lab p" and "stopped (ss_Pc (st j) p)" and "j \<le> k"
  shows "ss_Pc (st k) p = ss_Pc (st j) p"
  using assms(3)
proof (induction rule: dec_induct)
  case (step n)
  have "store_step False root input (st n) (lab n) (st (Suc n))" using assms(1) by (simp add: fair_run_def)
  from store_step_stopped [OF this, of p] show ?case using step assms(2) by simp
qed simp

lemma fair_run_not_crashed: "fair_run root input st lab p \<Longrightarrow> ss_Pc (st i) p \<noteq> PutCrashed"
proof (induction i)
  case (Suc i)
  then show ?case using store_step_crashed [of False root input "st i" "lab i" "st (Suc i)" p] by (simp add: fair_run_def)
qed (simp add: fair_run_def idle_store_def)

lemma fair_run_reported:
  assumes "fair_run root input st lab p" and "reported (ss_Pc (st i) p) = Some a"
  shows "a = AddressForContent (input p) \<and> (\<exists>k \<le> i. dk_Names (ss_Disk (st k)) (object_of root (input p)) \<noteq> None)"
  using assms(2)
proof (induction i)
  case 0
  then show ?case using assms(1) by (simp add: fair_run_def idle_store_def)
next
  case (Suc i)
  have "store_step False root input (st i) (lab i) (st (Suc i))" using assms(1) by (simp add: fair_run_def)
  from store_step_reported [OF this Suc.prems] show ?case using Suc.IH le_SucI by blast
qed

lemma reach_object:
  assumes "store_reach True root input s" and "root \<noteq> []" and "dk_Names (ss_Disk s) (object_of root c) \<noteq> None"
  shows "\<exists>f. disk_lookup (ss_Disk s) (object_of root c) = Some f \<and>
    ad_Hex (AddressForContent (f_Content f)) = ad_Hex (AddressForContent c)"
proof -
  obtain f where "disk_lookup (ss_Disk s) (object_of root c) = Some f"
    using assms(3) by (auto simp: disk_lookup_def)
  then show ?thesis
    using store_inv_reach [OF assms(1,2)] AddressForContent_valid [of c]
    unfolding store_inv_def disk_inv_def objects_ok_def object_of_def by blast
qed

section \<open>A run that is alone\<close>

text \<open>\<open>Put\<close> as one function of the files is what a run does that no other run and no removal disturbs.\<close>

inductive store_run :: "bool \<Rightarrow> string \<Rightarrow> (nat \<Rightarrow> string) \<Rightarrow> store_state \<Rightarrow> store_label list \<Rightarrow> store_state \<Rightarrow> bool"
  for unique root input where
  here: "store_run unique root input s [] s"
| there: "store_step unique root input s l s' \<Longrightarrow> store_run unique root input s' ls s'' \<Longrightarrow>
    store_run unique root input s (l # ls) s''"

definition shows_files :: "disk \<Rightarrow> fs \<Rightarrow> bool" where
  "shows_files d fs \<longleftrightarrow> (\<forall>q. disk_lookup d q = fs_lookup fs q)"

definition puts ::
  "(string \<Rightarrow> bool) \<Rightarrow> string \<Rightarrow> string \<Rightarrow> disk \<Rightarrow> put_pc \<Rightarrow> (store_error + address) \<times> fs \<Rightarrow> bool" where
  "puts taken root c d pc r \<longleftrightarrow>
     (\<exists>d'. (put_move taken root c)\<^sup>*\<^sup>* (d, pc) (d', PutDone (fst r)) \<and> shows_files d' (snd r))"

lemma puts_done: "shows_files d fs \<Longrightarrow> puts taken root c d (PutDone r) (r, fs)"
  by (auto simp: puts_def)

lemma puts_move: "put_move taken root c (d, pc) (d', pc') \<Longrightarrow> puts taken root c d' pc' r \<Longrightarrow> puts taken root c d pc r"
  unfolding puts_def by (meson converse_rtranclp_into_rtranclp)

lemma shows_unlink: "shows_files d fs \<Longrightarrow> shows_files (unlink q d) (fs_delete q fs)"
  by (simp add: shows_files_def unlink_def disk_lookup_def)

lemma puts_remove:
  "shows_files d fs \<Longrightarrow> puts taken root c d (PutRemove temp r) (r, cleanup_temp env temp fs)"
  unfolding cleanup_temp_def
  by (auto intro: puts_move [OF remove] puts_move [OF remove_error] puts_done shows_unlink)

lemma shows_rename:
  assumes "shows_files d fs" and "dk_Names d temp = Some j"
  shows "shows_files (rename_file temp q j d) (fs_rename temp q fs)"
proof -
  have "fs_lookup fs temp = Some (dk_Data d j)"
    using assms by (metis disk_lookup_def option.map(2) shows_files_def)
  then show ?thesis
    using assms(1) by (auto simp: shows_files_def rename_file_def fs_rename_def disk_lookup_def)
qed

text \<open>The calls after the file is written, then those before.\<close>

lemma puts_rename:
  assumes "shows_files d fs" and "dk_Names d temp = Some j"
    and "pe_Rename env = Some OsExist \<longrightarrow> fs_lookup fs (object_of root c) \<noteq> None"
  shows "puts taken root c d (PutRename temp i)
    (case pe_Rename env of
       Some e \<Rightarrow> (if e = OsExist then Inr (AddressForContent c) else Inl (OsFailure e), cleanup_temp env temp fs)
     | None \<Rightarrow> (Inr (AddressForContent c), cleanup_temp env temp (fs_rename temp (object_of root c) fs)))"
proof (cases "pe_Rename env")
  case None
  show ?thesis
    using puts_move [OF rename [OF assms(2)] puts_remove [OF shows_rename [OF assms(1,2)]]] by (simp add: None)
next
  case (Some e)
  show ?thesis
  proof (cases "e = OsExist")
    case True
    then have "fs_lookup fs (object_of root c) \<noteq> None" using assms(3) Some by simp
    then have "dk_Names d (object_of root c) \<noteq> None"
      using assms(1) by (metis disk_lookup_def option.map_disc_iff shows_files_def)
    from puts_move [OF rename_exists [OF this] puts_remove [OF assms(1)]] show ?thesis by (simp add: Some True)
  next
    case False
    from puts_move [OF rename_error [OF False] puts_remove [OF assms(1)]] show ?thesis by (simp add: Some False)
  qed
qed

definition after_write :: "put_env \<Rightarrow> string \<Rightarrow> string \<Rightarrow> string \<Rightarrow> fs \<Rightarrow> (store_error + address) \<times> fs" where
  "after_write env root c temp fs =
     (case pe_Chmod env of
        Some e \<Rightarrow> (Inl (OsFailure e), cleanup_temp env temp fs)
      | None \<Rightarrow>
        (case pe_Close env of
           Some e \<Rightarrow> (Inl (OsFailure e), cleanup_temp env temp fs)
         | None \<Rightarrow>
           (case pe_Rename env of
              Some e \<Rightarrow> (if e = OsExist then Inr (AddressForContent c) else Inl (OsFailure e), cleanup_temp env temp fs)
            | None \<Rightarrow> (Inr (AddressForContent c), cleanup_temp env temp (fs_rename temp (object_of root c) fs)))))"

lemma puts_close:
  assumes "shows_files d fs" and "dk_Names d temp = Some j"
    and "pe_Rename env = Some OsExist \<longrightarrow> fs_lookup fs (object_of root c) \<noteq> None"
  shows "puts taken root c d (PutChmod temp i) (after_write env root c temp fs)"
proof (cases "pe_Chmod env")
  case None
  show ?thesis
  proof (cases "pe_Close env")
    case c: None
    show ?thesis
      using puts_move [OF chmod puts_move [OF close puts_rename [OF assms]]] by (simp only: after_write_def None c option.case)
  next
    case (Some e)
    show ?thesis
      using puts_move [OF chmod puts_move [OF close_error puts_remove [OF assms(1)]]] by (simp only: after_write_def None Some option.case)
  qed
next
  case (Some e)
  show ?thesis
    using puts_move [OF chmod_error puts_remove [OF assms(1)]] by (simp only: after_write_def Some option.case)
qed

lemma shows_create_write:
  assumes "shows_files d fs" and "dk_Names d temp = None" and "\<forall>q i. dk_Names d q = Some i \<longrightarrow> i < dk_Next d"
  shows "shows_files (write_file (dk_Next d) b now (create_file temp now d)) (fs_write temp \<lparr>f_Content = b, f_ModTime = now\<rparr> fs)"
    and "shows_files (create_file temp now d) (fs_write temp \<lparr>f_Content = [], f_ModTime = now\<rparr> fs)"
proof -
  have n: "dk_Names d q \<noteq> Some (dk_Next d)" for q using assms(3) by blast
  have l: "disk_lookup (write_file (dk_Next d) b now (create_file temp now d)) q =
      (if q = temp then Some \<lparr>f_Content = b, f_ModTime = now\<rparr> else disk_lookup d q)" for q
    using n [of q] by (cases "dk_Names d q") (simp_all add: disk_lookup_def write_file_def create_file_def)
  have m: "disk_lookup (create_file temp now d) q = (if q = temp then Some \<lparr>f_Content = [], f_ModTime = now\<rparr> else disk_lookup d q)" for q
    using n [of q] by (cases "dk_Names d q") (simp_all add: disk_lookup_def create_file_def)
  show "shows_files (write_file (dk_Next d) b now (create_file temp now d)) (fs_write temp \<lparr>f_Content = b, f_ModTime = now\<rparr> fs)"
    "shows_files (create_file temp now d) (fs_write temp \<lparr>f_Content = [], f_ModTime = now\<rparr> fs)"
    using assms(1) by (simp_all add: shows_files_def l m)
qed

text \<open>\<open>n\<close> bytes are written to the file just created.\<close>

lemma puts_written:
  assumes "shows_files d fs" and "dk_Names d temp = None" and "\<forall>q i. dk_Names d q = Some i \<longrightarrow> i < dk_Next d"
    and "n \<le> length c"
    and "\<And>d'. shows_files d' (fs_write temp \<lparr>f_Content = take n c, f_ModTime = now\<rparr> fs) \<Longrightarrow>
      dk_Names d' temp = Some (dk_Next d) \<Longrightarrow> puts taken root c d' (PutWrite temp (dk_Next d) n) r"
  shows "puts taken root c (create_file temp now d) (PutWrite temp (dk_Next d) 0) r"
proof (cases "n = 0")
  case True
  show ?thesis
    using assms(5) [of "create_file temp now d"] shows_create_write(2) [OF assms(1-3)] True
    by (simp add: create_file_def)
next
  case False
  show ?thesis
    by (rule puts_move [OF write_some [of 0 n _ _ _ _ _ _ now]])
      (use False assms(4) assms(5) [OF shows_create_write(1) [OF assms(1-3)]] in
        \<open>simp_all add: create_file_def write_file_def\<close>)
qed

lemma puts_create:
  assumes d: "shows_files d fs" "\<forall>q i. dk_Names d q = Some i \<longrightarrow> i < dk_Next d" and "root \<noteq> []" and "good_env env"
    and "\<not> taken (temp_path env root c)"
    and exists: "pe_Rename env = Some OsExist \<longrightarrow> fs_lookup fs (object_of root c) \<noteq> None"
    and none: "fs_lookup fs (temp_path env root c) = None"
  shows "puts taken root c d PutCreate
    (case pe_Write env of
       Some (n, e) \<Rightarrow> (Inl (OsFailure e), cleanup_temp env (temp_path env root c)
         (fs_write (temp_path env root c) \<lparr>f_Content = take n c, f_ModTime = pe_Now env\<rparr> fs))
     | None \<Rightarrow> after_write env root c (temp_path env root c)
         (fs_write (temp_path env root c) \<lparr>f_Content = c, f_ModTime = pe_Now env\<rparr> fs))"
proof -
  let ?t = "temp_path env root c"
  have nd: "dk_Names d ?t = None"
    using d(1) none by (metis disk_lookup_def option.map_disc_iff shows_files_def)
  have ne: "object_of root c \<noteq> ?t"
    using temp_path_not_object [OF assms(3,4) AddressForContent_valid] unfolding object_of_def by metis
  have t: "?t = temp_file (Dir (object_of root c)) (pe_TempName env)" by (simp add: temp_path_def object_of_def)
  have g: "CHR ''/'' \<notin> set (pe_TempName env)" using assms(4) by (simp add: good_env_def)
  have move: "put_move taken root c (d, PutCreate) (create_file ?t (pe_Now env) d, PutWrite ?t (dk_Next d) 0)"
    by (rule create [where taken = taken, OF t g nd assms(5)])
  show ?thesis
  proof (cases "pe_Write env")
    case None
    have "puts taken root c (create_file ?t (pe_Now env) d) (PutWrite ?t (dk_Next d) 0)
        (after_write env root c ?t (fs_write ?t \<lparr>f_Content = c, f_ModTime = pe_Now env\<rparr> fs))"
    proof (rule puts_written [OF d(1) nd d(2), of "length c" _ "pe_Now env"])
      fix d'
      assume s: "shows_files d' (fs_write ?t \<lparr>f_Content = take (length c) c, f_ModTime = pe_Now env\<rparr> fs)"
        and n: "dk_Names d' ?t = Some (dk_Next d)"
      show "puts taken root c d' (PutWrite ?t (dk_Next d) (length c))
          (after_write env root c ?t (fs_write ?t \<lparr>f_Content = c, f_ModTime = pe_Now env\<rparr> fs))"
        by (rule puts_move [OF write_all [OF refl] puts_close [OF s [simplified] n]])
          (use exists ne in simp)
    qed simp
    from puts_move [OF move this] show ?thesis by (simp only: None option.case)
  next
    case (Some w)
    obtain n e where w: "w = (n, e)" by (cases w)
    have m: "take (min n (length c)) c = take n c" by (simp add: min_def)
    have "puts taken root c (create_file ?t (pe_Now env) d) (PutWrite ?t (dk_Next d) 0)
        (Inl (OsFailure e), cleanup_temp env ?t (fs_write ?t \<lparr>f_Content = take n c, f_ModTime = pe_Now env\<rparr> fs))"
      by (rule puts_written [OF d(1) nd d(2), of "min n (length c)" _ "pe_Now env"])
        (auto intro: puts_move [OF write_error] puts_remove simp only: m min.cobounded2)
    from puts_move [OF move this] show ?thesis by (simp only: Some w option.case prod.case)
  qed
qed

lemma Put_after_write:
  "Put env root c fs =
     (let stat = (case pe_Stat env of
         Some e \<Rightarrow> Some e | None \<Rightarrow> if fs_lookup fs (object_of root c) = None then Some OsNotExist else None)
      in case stat of
        None \<Rightarrow> (Inr (AddressForContent c), fs)
      | Some e \<Rightarrow>
        if e \<noteq> OsNotExist then (Inl (OsFailure e), fs)
        else case pe_MkdirAll env of
          Some e \<Rightarrow> (Inl (OsFailure e), fs)
        | None \<Rightarrow>
          (case pe_CreateTemp env of
            Some e \<Rightarrow> (Inl (OsFailure e), fs)
          | None \<Rightarrow>
            if fs_lookup fs (temp_path env root c) \<noteq> None then (Inl (OsFailure OsExist), fs)
            else (case pe_Write env of
               Some (n, e) \<Rightarrow> (Inl (OsFailure e), cleanup_temp env (temp_path env root c)
                 (fs_write (temp_path env root c) \<lparr>f_Content = take n c, f_ModTime = pe_Now env\<rparr> fs))
             | None \<Rightarrow> after_write env root c (temp_path env root c)
                 (fs_write (temp_path env root c) \<lparr>f_Content = c, f_ModTime = pe_Now env\<rparr> fs))))"
  unfolding Put_def after_write_def Let_def temp_path_def object_of_def by (rule refl)

lemma puts_Put:
  assumes "shows_files d fs" and "\<forall>q i. dk_Names d q = Some i \<longrightarrow> i < dk_Next d" and "root \<noteq> []" and "good_env env"
    and "\<not> taken (temp_path env root c)"
    and "pe_Rename env = Some OsExist \<longrightarrow> fs_lookup fs (object_of root c) \<noteq> None"
  shows "puts taken root c d PutStat (Put env root c fs)"
proof -
  let ?r = "case pe_MkdirAll env of
          Some e \<Rightarrow> (Inl (OsFailure e), fs)
        | None \<Rightarrow>
          (case pe_CreateTemp env of
            Some e \<Rightarrow> (Inl (OsFailure e), fs)
          | None \<Rightarrow>
            if fs_lookup fs (temp_path env root c) \<noteq> None then (Inl (OsFailure OsExist), fs)
            else (case pe_Write env of
               Some (n, e) \<Rightarrow> (Inl (OsFailure e), cleanup_temp env (temp_path env root c)
                 (fs_write (temp_path env root c) \<lparr>f_Content = take n c, f_ModTime = pe_Now env\<rparr> fs))
             | None \<Rightarrow> after_write env root c (temp_path env root c)
                 (fs_write (temp_path env root c) \<lparr>f_Content = c, f_ModTime = pe_Now env\<rparr> fs)))"
  note fail = puts_done [OF assms(1)]
  have r: "puts taken root c d PutMkdir ?r"
    using puts_move [OF mkdir puts_create [where taken = taken, OF assms]] puts_move [OF mkdir_error fail]
      puts_move [OF mkdir puts_move [OF create_error fail]]
    by (cases "pe_MkdirAll env"; cases "pe_CreateTemp env"; cases "fs_lookup fs (temp_path env root c) = None")
      (simp_all only: option.case if_False if_True not_False_eq_True not_True_eq_False simp_thms)
  show ?thesis
  proof (cases "pe_Stat env")
    case (Some e)
    show ?thesis
      using puts_move [OF stat_absent r] puts_move [OF stat_error fail, of e]
      by (cases "e = OsNotExist") (simp_all only: Put_after_write Let_def Some option.case simp_thms if_True if_False)
  next
    case None
    have "dk_Names d (object_of root c) \<noteq> None" if "fs_lookup fs (object_of root c) \<noteq> None"
      using that assms(1) by (metis disk_lookup_def option.map_disc_iff shows_files_def)
    then show ?thesis
      using puts_move [OF stat_absent r] puts_move [OF stat_present fail]
      by (cases "fs_lookup fs (object_of root c) = None")
        (simp_all only: Put_after_write Let_def None option.case simp_thms if_True if_False)
  qed
qed

lemma store_run_append:
  "store_run unique root input s ls s' \<Longrightarrow> store_run unique root input s' ls' s'' \<Longrightarrow>
     store_run unique root input s (ls @ ls') s''"
  by (induction rule: store_run.induct) (auto intro: store_run.intros)

lemma store_run_reach:
  "store_run unique root input s ls s' \<Longrightarrow> store_reach unique root input s \<Longrightarrow> store_reach unique root input s'"
  by (induction rule: store_run.induct) (auto intro: store_reach.step)

text \<open>Steps of one run while the others rest; \<open>upd\<close> is the state after them.\<close>

definition upd :: "store_state \<Rightarrow> nat \<Rightarrow> disk \<times> put_pc \<Rightarrow> store_state" where
  "upd s p x = s\<lparr>ss_Disk := fst x, ss_Pc := (ss_Pc s)(p := snd x)\<rparr>"

lemma upd_simps [simp]:
  "ss_Disk (upd s p x) = fst x" "ss_Pc (upd s p x) = (ss_Pc s)(p := snd x)" "upd (upd s p x) p y = upd s p y"
  "upd s p (ss_Disk s, ss_Pc s p) = s"
  by (simp_all add: upd_def)

definition taken_by_others :: "bool \<Rightarrow> store_state \<Rightarrow> nat \<Rightarrow> string \<Rightarrow> bool" where
  "taken_by_others unique s p t \<longleftrightarrow> unique \<and> (\<exists>q. q \<noteq> p \<and> held (ss_Pc s q) = Some t)"

lemma upd_step:
  assumes "put_move (taken_by_others unique s p) root (input p) x y"
  shows "store_step unique root input (upd s p x) (Run p) (upd s p y)"
proof -
  have t: "taken_by_others unique s p = (\<lambda>t. unique \<and> (\<exists>q. q \<noteq> p \<and> held (ss_Pc (upd s p x) q) = Some t))"
    by (auto simp: taken_by_others_def fun_eq_iff)
  have "put_move (\<lambda>t. unique \<and> (\<exists>q. q \<noteq> p \<and> held (ss_Pc (upd s p x) q) = Some t)) root (input p)
      (ss_Disk (upd s p x), ss_Pc (upd s p x) p) (fst y, snd y)"
    using assms unfolding t [symmetric] by simp
  from store_step.run [where unique = unique and s = "upd s p x" and p = p and input = input, OF this] show ?thesis by (simp add: upd_def)
qed

lemma moves_run:
  assumes "(put_move (taken_by_others unique s p) root (input p))\<^sup>*\<^sup>* x y"
  shows "\<exists>n. store_run unique root input (upd s p x) (replicate n (Run p)) (upd s p y)"
  using assms
proof (induction rule: converse_rtranclp_induct)
  case base
  show ?case by (rule exI [of _ 0]) (simp add: store_run.here)
next
  case (step x z)
  then obtain n where "store_run unique root input (upd s p z) (replicate n (Run p)) (upd s p y)" by blast
  from store_run.there [of unique root input, OF upd_step [where unique = unique and s = s and p = p and input = input, OF step(1)] this] show ?case
    by (metis replicate_Suc)
qed

section \<open>Properties\<close>

text \<open>C7. The store stays in order however many runs of \<open>Put\<close>, crashes and removals interleave, unless two of
  the runs have drawn the same temporary name before, which package \<open>os\<close> does not rule out: as long as that has
  not happened, the file at an object's path always hashes to its name, so that nobody who reads the store sees
  part of an object, and a reader is told of a corrupt object only when the address itself gives another size.\<close>

theorem concurrent_Puts_keep_integrity:
  assumes "store_history root input collided s" and "root \<noteq> []" and "shows_files (ss_Disk s) fs"
  shows "collided \<or> (store_ok root fs \<and>
    (case Get None root a fs of
       Inr content \<Rightarrow> AddressForContent content = a
     | Inl ErrCorrupt \<Rightarrow> (\<exists>f. fs_lookup fs (ObjectPath root a) = Some f \<and>
         ad_Hex (AddressForContent (f_Content f)) = ad_Hex a \<and> AddressForContent (f_Content f) \<noteq> a)
     | Inl err \<Rightarrow> err = ErrNotFound \<and> fs_lookup fs (ObjectPath root a) = None \<or> validateAddress a \<noteq> None))"
proof (cases collided)
  case False
  have "store_inv root input s" by (rule store_inv_reach [OF store_history_reach [OF assms(1) False] assms(2)])
  then have ok: "store_ok root fs"
    using assms(3) by (simp add: store_inv_def disk_inv_def objects_ok_def shows_files_def store_ok_def)
  then show ?thesis
    using store_okD [OF ok, of a] by (auto simp: Get_def Let_def split: option.splits)
qed simp

text \<open>C17. Every \<open>Put\<close> comes to its end: a run that is given turns again and again and does not crash is done
  at some time, whatever the other runs, crashes and removals do and whatever temporary names are drawn, and
  stays done. When it reports an address, that is the address of its content, and since the beginning there has
  been a moment with a file at the path of this object; its content was the one the address names, unless two
  runs had drawn the same temporary name before that moment.\<close>

theorem Put_comes_to_its_end:
  assumes "fair_run root input st lab p" and "root \<noteq> []"
  shows "\<exists>j r. ss_Pc (st j) p = PutDone r \<and> list_all (\<lambda>n. ss_Pc (st (j + n)) p = PutDone r) ns \<and>
    (case r of
       Inr a \<Rightarrow> a = AddressForContent (input p) \<and>
         (\<exists>k f. k \<le> j \<and> disk_lookup (ss_Disk (st k)) (ObjectPath root a) = Some f \<and>
            (ad_Hex (AddressForContent (f_Content f)) = ad_Hex a \<or>
             (\<exists>i < k. collision (st i) (lab i) (st (Suc i)))))
     | Inl err \<Rightarrow> True)"
proof -
  obtain j where j: "stopped (ss_Pc (st j) p)" using fair_run_stops [OF assms(1), of 0] by blast
  then obtain r where r: "ss_Pc (st j) p = PutDone r"
    using fair_run_not_crashed [OF assms(1), of j] by (cases "ss_Pc (st j) p") auto
  have stays: "list_all (\<lambda>n. ss_Pc (st (j + n)) p = PutDone r) ns"
    using fair_run_stays [OF assms(1) j] r by (simp add: list_all_iff)
  have "a = AddressForContent (input p) \<and>
      (\<exists>k f. k \<le> j \<and> disk_lookup (ss_Disk (st k)) (ObjectPath root a) = Some f \<and>
         (ad_Hex (AddressForContent (f_Content f)) = ad_Hex a \<or> (\<exists>i < k. collision (st i) (lab i) (st (Suc i)))))"
    if "r = Inr a" for a
  proof -
    have a: "a = AddressForContent (input p)"
      and "\<exists>k \<le> j. dk_Names (ss_Disk (st k)) (object_of root (input p)) \<noteq> None"
      using fair_run_reported [OF assms(1), of j a] r that by simp_all
    then obtain k where k: "k \<le> j" "dk_Names (ss_Disk (st k)) (object_of root (input p)) \<noteq> None" by blast
    then obtain f where f: "disk_lookup (ss_Disk (st k)) (object_of root (input p)) = Some f"
      by (auto simp: disk_lookup_def)
    have "ad_Hex (AddressForContent (f_Content f)) = ad_Hex a \<or> (\<exists>i < k. collision (st i) (lab i) (st (Suc i)))"
      using reach_object [OF fair_run_reach [OF assms(1)] assms(2) k(2)] f a by fastforce
    then show ?thesis using k(1) f a unfolding object_of_def by blast
  qed
  then show ?thesis using r stays by (intro exI [of _ j] exI [of _ r]) (simp split: sum.split)
qed

text \<open>C18. \<open>Put\<close> is what one run does: whatever the errors of its calls, there are steps of that run alone
  from the files before to the files after, with the same result. An error that says that the object
  exists is taken to be true, and the temporary name is not that of another run.\<close>

theorem Put_refines_its_steps:
  assumes "shows_files (ss_Disk s) fs" and "ss_Pc s p = PutStat" and "root \<noteq> []" and "good_env env"
    and "\<forall>q i. dk_Names (ss_Disk s) q = Some i \<longrightarrow> i < dk_Next (ss_Disk s)"
    and "\<not> taken_by_others unique s p (temp_path env root (input p))"
    and "pe_Rename env = Some OsExist \<longrightarrow> fs_lookup fs (ObjectPath root (AddressForContent (input p))) \<noteq> None"
  shows "\<exists>n d. store_run unique root input s (replicate n (Run p)) (upd s p (d, PutDone (fst (Put env root (input p) fs)))) \<and>
    shows_files d (snd (Put env root (input p) fs))"
proof -
  obtain d where d: "(put_move (taken_by_others unique s p) root (input p))\<^sup>*\<^sup>* (ss_Disk s, PutStat)
      (d, PutDone (fst (Put env root (input p) fs)))" "shows_files d (snd (Put env root (input p) fs))"
    using puts_Put [where taken = "taken_by_others unique s p", OF assms(1,5,3,4,6) assms(7) [folded object_of_def]]
    by (auto simp: puts_def)
  have "upd s p (ss_Disk s, PutStat) = s" using upd_simps(4) [of s p] assms(2) by simp
  then show ?thesis using moves_run [where unique = unique and s = s and p = p and input = input, OF d(1)] d(2) by metis
qed

subsection \<open>A concrete store\<close>

definition empty_disk :: disk where
  "empty_disk = \<lparr>dk_Names = (\<lambda>q. None), dk_Data = (\<lambda>i. \<lparr>f_Content = [], f_ModTime = 0\<rparr>), dk_Next = 0\<rparr>"

definition empty_store :: store_state where
  "empty_store = \<lparr>ss_Disk = empty_disk, ss_Pc = (\<lambda>p. PutStat)\<rparr>"

lemma empty_store_idle: "idle_store root empty_store"
  by (simp add: idle_store_def empty_store_def empty_disk_def objects_ok_def disk_lookup_def)

lemma empty_store_shows: "shows_files (ss_Disk empty_store) []"
  by (simp add: shows_files_def empty_store_def empty_disk_def disk_lookup_def fs_lookup_def)

lemma calm_Put: "Put calm ''s'' ''abc'' [] = (Inr (AddressForContent ''abc''),
    [(ObjectPath ''s'' (AddressForContent ''abc''), \<lparr>f_Content = ''abc'', f_ModTime = 5\<rparr>)])"
proof -
  have "temp_path calm ''s'' ''abc'' \<noteq> ObjectPath ''s'' (AddressForContent ''abc'')"
    by (rule temp_path_not_object) (simp_all add: good_env_def calm_def AddressForContent_valid)
  then show ?thesis
    using Put_fresh [of calm "[]" "''s''" "''abc''"]
    by (simp add: no_faults_def calm_def fs_lookup_def cleanup_temp_def fs_rename_def fs_delete_def)
qed

lemma calm_run:
  "\<exists>n d. store_run unique ''s'' (\<lambda>p. ''abc'') empty_store (replicate n (Run 0))
     (upd empty_store 0 (d, PutDone (Inr (AddressForContent ''abc'')))) \<and>
     shows_files d [(ObjectPath ''s'' (AddressForContent ''abc''), \<lparr>f_Content = ''abc'', f_ModTime = 5\<rparr>)]"
proof -
  have nt: "\<not> taken_by_others unique empty_store 0 t" for t by (simp add: taken_by_others_def empty_store_def)
  have nn: "\<forall>q i. dk_Names (ss_Disk empty_store) q = Some i \<longrightarrow> i < dk_Next (ss_Disk empty_store)"
    by (simp add: empty_store_def empty_disk_def)
  have "puts (taken_by_others unique empty_store 0) ''s'' ''abc'' (ss_Disk empty_store) PutStat (Put calm ''s'' ''abc'' [])"
    by (rule puts_Put [OF empty_store_shows nn]) (simp_all add: nt good_env_def calm_def)
  then obtain d where d: "(put_move (taken_by_others unique empty_store 0) ''s'' ''abc'')\<^sup>*\<^sup>* (ss_Disk empty_store, PutStat)
      (d, PutDone (Inr (AddressForContent ''abc'')))"
    "shows_files d [(ObjectPath ''s'' (AddressForContent ''abc''), \<lparr>f_Content = ''abc'', f_ModTime = 5\<rparr>)]"
    by (auto simp: puts_def calm_Put)
  have "upd empty_store 0 (ss_Disk empty_store, PutStat) = empty_store"
    using upd_simps(4) [of empty_store 0] by (simp add: empty_store_def)
  then show ?thesis
    using moves_run [where unique = unique and s = empty_store and p = 0 and input = "\<lambda>p. ''abc''", OF d(1)] d(2) by metis
qed

lemma concurrent_Puts_keep_integrity_witness:
  "\<exists>s fs. store_history ''s'' (\<lambda>p. ''abc'') False s \<and> shows_files (ss_Disk s) fs \<and> fs \<noteq> [] \<and> store_ok ''s'' fs"
proof -
  let ?fs = "[(ObjectPath ''s'' (AddressForContent ''abc''), \<lparr>f_Content = ''abc'', f_ModTime = 5\<rparr>)]"
  obtain n d where r: "store_run True ''s'' (\<lambda>p. ''abc'') empty_store (replicate n (Run 0))
     (upd empty_store 0 (d, PutDone (Inr (AddressForContent ''abc''))))" and f: "shows_files d ?fs"
    using calm_run by blast
  have reach: "store_history ''s'' (\<lambda>p. ''abc'') False (upd empty_store 0 (d, PutDone (Inr (AddressForContent ''abc''))))"
    by (rule store_reach_history [OF store_run_reach [OF r]]) (rule store_reach.start [OF empty_store_idle])
  have "store_ok ''s'' ?fs"
    using concurrent_Puts_keep_integrity [OF reach, of ?fs "AddressForContent ''abc''"] f by simp
  then show ?thesis using reach f by (metis fst_conv list.discI upd_simps(1))
qed

text \<open>Every finite run can go on with removals that remove nothing.\<close>

lemma store_run_states:
  "store_run unique root input s ls s' \<Longrightarrow>
     \<exists>st. st 0 = s \<and> st (length ls) = s' \<and> (\<forall>i < length ls. store_step unique root input (st i) (ls ! i) (st (Suc i)))"
proof (induction rule: store_run.induct)
  case (here s)
  show ?case by (rule exI [of _ "\<lambda>i. s"]) simp
next
  case (there s l s' ls s'')
  then obtain st where st: "st 0 = s'" "st (length ls) = s''"
    "\<forall>i < length ls. store_step unique root input (st i) (ls ! i) (st (Suc i))" by blast
  show ?case
    by (rule exI [of _ "case_nat s st"]) (use st there(1) in \<open>auto simp: nth_Cons split: nat.split\<close>)
qed

lemma fair_run_exists:
  assumes "idle_store root s" and "store_run False root input s (replicate n (Run p)) s'"
    and "ss_Pc s' p = PutDone r" and "dk_Names (ss_Disk s') q = None"
  shows "\<exists>st lab. fair_run root input st lab p"
proof -
  obtain st where st: "st 0 = s" "st n = s'" "\<And>i. i < n \<Longrightarrow> store_step False root input (st i) (Run p) (st (Suc i))"
    using store_run_states [OF assms(2)] by auto
  have "(dk_Names (ss_Disk s'))(q := None) = dk_Names (ss_Disk s')" using assms(4) by (simp add: fun_eq_iff)
  then have i: "store_step False root input s' (Removed q) s'"
    using store_step.removed [of False root input s' q] by (simp add: unlink_def)
  have "fair_run root input (\<lambda>i. st (min i n)) (\<lambda>i. if i < n then Run p else Removed q) p"
    unfolding fair_run_def
  proof (intro conjI allI)
    fix k
    show "store_step False root input (st (min k n)) (if k < n then Run p else Removed q) (st (min (Suc k) n))"
      using st(2) st(3) [of k] i by (simp add: min_def Suc_le_eq not_less)
    show "\<exists>j \<ge> k. (if j < n then Run p else Removed q) = Run p \<or> stopped (ss_Pc (st (min j n)) p)"
      by (rule exI [of _ "max k n"]) (simp add: st(2) assms(3) min_def)
  qed (use st(1) assms(1) in auto)
  then show ?thesis by blast
qed

lemma Put_comes_to_its_end_witness:
  "\<exists>st lab j r. fair_run ''s'' (\<lambda>p. ''abc'') st lab 0 \<and> ss_Pc (st j) 0 = PutDone r"
proof -
  obtain n d where r: "store_run False ''s'' (\<lambda>p. ''abc'') empty_store (replicate n (Run 0))
     (upd empty_store 0 (d, PutDone (Inr (AddressForContent ''abc''))))"
    and f: "shows_files d [(ObjectPath ''s'' (AddressForContent ''abc''), \<lparr>f_Content = ''abc'', f_ModTime = 5\<rparr>)]"
    using calm_run by blast
  have "temp_path calm ''s'' ''abc'' \<noteq> ObjectPath ''s'' (AddressForContent ''abc'')"
    by (rule temp_path_not_object) (simp_all add: good_env_def calm_def AddressForContent_valid)
  then have "dk_Names d (temp_path calm ''s'' ''abc'') = None"
    using f [unfolded shows_files_def, rule_format, of "temp_path calm ''s'' ''abc''"]
    by (simp add: disk_lookup_def fs_lookup_def)
  then obtain st lab where g: "fair_run ''s'' (\<lambda>p. ''abc'') st lab 0"
    using fair_run_exists [OF empty_store_idle r, of "Inr (AddressForContent ''abc'')" "temp_path calm ''s'' ''abc''"] by auto
  then show ?thesis using Put_comes_to_its_end [OF g, of "[]"] by blast
qed

lemma Put_refines_its_steps_witness:
  "\<exists>n d. store_run True ''s'' (\<lambda>p. ''abc'') empty_store (replicate n (Run 0))
      (upd empty_store 0 (d, PutDone (fst (Put (calm\<lparr>pe_Close := Some (OsOther ''io'')\<rparr>) ''s'' ''abc'' []))))"
  using Put_refines_its_steps [of empty_store "[]" 0 "''s''" "calm\<lparr>pe_Close := Some (OsOther ''io'')\<rparr>" True "\<lambda>p. ''abc''"]
    empty_store_shows
  by (simp add: empty_store_def empty_disk_def good_env_def calm_def taken_by_others_def) blast

subsection \<open>When two runs draw the same temporary name\<close>

text \<open>
  The deferred removal of a run that has succeeded goes by the name the temporary file had, which is free
  again: another run may have drawn it. Its file then loses its name, a third run may draw the name once
  more, and the second run renames the file that the third has only begun to write to the path of its
  object: without any call that fails a reader finds an object that is not complete.
\<close>

lemma race_moves:
  assumes "store_reach False root input s"
    and "(put_move (taken_by_others False s p) root (input p))\<^sup>*\<^sup>* (ss_Disk s, ss_Pc s p) y"
  shows "store_reach False root input (upd s p y)"
proof -
  obtain n where "store_run False root input (upd s p (ss_Disk s, ss_Pc s p)) (replicate n (Run p)) (upd s p y)"
    using moves_run [where unique = False and s = s and p = p and input = input, OF assms(2)] by blast
  then show ?thesis using store_run_reach [OF _ assms(1)] by simp
qed

lemma begin_moves: "(put_move taken root c)\<^sup>*\<^sup>* (d, PutStat) (d, PutCreate)"
  by (meson converse_rtranclp_into_rtranclp mkdir r_into_rtranclp stat_absent)

lemma one_byte_moves:
  assumes "t = temp_file (Dir (object_of root c)) x" and "CHR ''/'' \<notin> set x" and "dk_Names d t = None"
    and "\<not> taken t" and "length c = 1"
  shows "(put_move taken root c)\<^sup>*\<^sup>* (d, PutCreate) (write_file (dk_Next d) c now (create_file t now d), PutRename t (dk_Next d))"
proof -
  have "put_move taken root c (create_file t now d, PutWrite t (dk_Next d) 0)
      (write_file (dk_Next d) c now (create_file t now d), PutWrite t (dk_Next d) 1)"
    using write_some [of 0 1 c taken root "create_file t now d" t "dk_Next d" now] assms(5) by simp
  moreover have "put_move taken root c (d', PutWrite t i 1) (d', PutChmod t i)" for d' i
    by (rule write_all) (simp add: assms(5))
  ultimately show ?thesis
    using create [where taken = taken, OF assms(1-4), of now] chmod [of taken root c] close [of taken root c]
    by (meson converse_rtranclp_into_rtranclp rtranclp.rtrancl_refl)
qed

theorem temporary_names_can_collide:
  "\<exists>s fs. store_reach False ''s'' (\<lambda>p. ''a'') s \<and> shows_files (ss_Disk s) fs \<and>
     Get None ''s'' (AddressForContent ''a'') fs = Inl ErrCorrupt"
proof -
  let ?o = "object_of ''s'' ''a''" let ?a = "Inr (AddressForContent ''a'') :: store_error + address"
  define t where "t = temp_file (Dir ?o) ''1''"
  have ot: "?o \<noteq> t"
  proof (rule temp_name_not_object_of)
    have "CHR ''/'' \<notin> set ''1''" by simp
    then show "temp_name t" unfolding temp_name_def t_def by blast
  qed simp
  define d1 where "d1 = write_file 0 ''a'' 0 (create_file t 0 empty_disk)"
  define d2 where "d2 = rename_file t ?o 0 d1"
  define d3 where "d3 = write_file 1 ''a'' 0 (create_file t 0 d2)"
  define d5 where "d5 = create_file t 0 (unlink t d3)"
  define d6 where "d6 = rename_file t ?o 2 d5"
  note ds = d1_def d2_def d3_def d5_def d6_def disk_ops empty_disk_def
  define s3 where "s3 = upd (upd (upd empty_store 0 (empty_disk, PutCreate)) 1 (empty_disk, PutCreate)) 2 (empty_disk, PutCreate)"
  have s3: "store_reach False ''s'' (\<lambda>p. ''a'') s3"
    unfolding s3_def
    by (intro race_moves store_reach.start [OF empty_store_idle]) (simp_all add: empty_store_def begin_moves)
  define s4 where "s4 = upd s3 0 (d1, PutRename t 0)"
  have s4: "store_reach False ''s'' (\<lambda>p. ''a'') s4"
    unfolding s4_def
  proof (rule race_moves [OF s3])
    show "(put_move (taken_by_others False s3 0) ''s'' ''a'')\<^sup>*\<^sup>* (ss_Disk s3, ss_Pc s3 0) (d1, PutRename t 0)"
      using one_byte_moves [of t "''s''" "''a''" "''1''" empty_disk "taken_by_others False s3 0" 0]
      by (simp add: s3_def taken_by_others_def ds t_def)
  qed
  define s5 where "s5 = upd s4 0 (d2, PutRemove t ?a)"
  have s5: "store_reach False ''s'' (\<lambda>p. ''a'') s5"
    unfolding s5_def
  proof (rule race_moves [OF s4])
    have "dk_Names d1 t = Some 0" by (simp add: ds)
    from rename [OF this, of "taken_by_others False s4 0" "''s''" "''a''" 0]
    show "(put_move (taken_by_others False s4 0) ''s'' ''a'')\<^sup>*\<^sup>* (ss_Disk s4, ss_Pc s4 0) (d2, PutRemove t ?a)"
      by (simp add: s4_def d2_def r_into_rtranclp)
  qed
  define s6 where "s6 = upd s5 1 (d3, PutRename t 1)"
  have s6: "store_reach False ''s'' (\<lambda>p. ''a'') s6"
    unfolding s6_def
  proof (rule race_moves [OF s5])
    have "dk_Names d2 t = None" "dk_Next d2 = 1" using ot by (simp_all add: ds)
    then show "(put_move (taken_by_others False s5 1) ''s'' ''a'')\<^sup>*\<^sup>* (ss_Disk s5, ss_Pc s5 1) (d3, PutRename t 1)"
      using one_byte_moves [of t "''s''" "''a''" "''1''" d2 "taken_by_others False s5 1" 0]
      by (simp add: s5_def s4_def s3_def taken_by_others_def d3_def t_def)
  qed
  define s7 where "s7 = upd s6 0 (unlink t d3, PutDone ?a)"
  have s7: "store_reach False ''s'' (\<lambda>p. ''a'') s7"
    unfolding s7_def
    by (rule race_moves [OF s6]) (simp add: s6_def s5_def r_into_rtranclp remove)
  define s8 where "s8 = upd s7 2 (d5, PutWrite t 2 0)"
  have s8: "store_reach False ''s'' (\<lambda>p. ''a'') s8"
    unfolding s8_def
  proof (rule race_moves [OF s7])
    have n: "dk_Names (unlink t d3) t = None" and x: "dk_Next (unlink t d3) = 2" by (simp_all add: ds)
    have "put_move (taken_by_others False s7 2) ''s'' ''a'' (unlink t d3, PutCreate) (d5, PutWrite t 2 0)"
      using create [OF t_def _ n, of "taken_by_others False s7 2" 0] x by (simp add: taken_by_others_def d5_def)
    then show "(put_move (taken_by_others False s7 2) ''s'' ''a'')\<^sup>*\<^sup>* (ss_Disk s7, ss_Pc s7 2) (d5, PutWrite t 2 0)"
      by (simp add: s7_def s6_def s5_def s4_def s3_def r_into_rtranclp)
  qed
  define s9 where "s9 = upd s8 1 (d6, PutRemove t ?a)"
  have s9: "store_reach False ''s'' (\<lambda>p. ''a'') s9"
    unfolding s9_def
  proof (rule race_moves [OF s8])
    have "dk_Names d5 t = Some 2" by (simp add: ds)
    from rename [OF this, of "taken_by_others False s8 1" "''s''" "''a''" 1]
    show "(put_move (taken_by_others False s8 1) ''s'' ''a'')\<^sup>*\<^sup>* (ss_Disk s8, ss_Pc s8 1) (d6, PutRemove t ?a)"
      by (simp add: s8_def s7_def s6_def d6_def r_into_rtranclp)
  qed
  have l: "shows_files d6 [(?o, \<lparr>f_Content = [], f_ModTime = 0\<rparr>)]"
    using ot by (simp add: shows_files_def disk_lookup_def fs_lookup_def ds)
  have "AddressForContent [] \<noteq> AddressForContent ''a''" by (simp add: AddressForContent_def)
  then have "Get None ''s'' (AddressForContent ''a'') [(?o, \<lparr>f_Content = [], f_ModTime = 0\<rparr>)] = Inl ErrCorrupt"
    by (simp add: Get_def AddressForContent_valid fs_lookup_def object_of_def)
  then show ?thesis using s9 l by (intro exI [of _ s9]) (auto simp: s9_def)
qed

end
