(* ===== verification/Go_Http.thy ===== *)
theory Go_Http
  imports Go_Unicode
begin

text \<open>
  The part of \<open>net/http\<close> and \<open>net/textproto\<close> the program uses: canonical header keys and header
  maps. A header map is the list of its entries in the order a range over the map visits them,
  which Go does not fix; no key occurs twice.
\<close>

type_synonym header = "(string \<times> string list) list"

definition upper_char :: "char \<Rightarrow> char" where
  "upper_char c = (if 97 \<le> byte c \<and> byte c \<le> 122 then char_of (byte c - 32) else c)"

text \<open>The bytes of a token (RFC 7230).\<close>

definition header_byte :: "char \<Rightarrow> bool" where
  "header_byte c \<longleftrightarrow> is_digit c \<or> (65 \<le> byte c \<and> byte c \<le> 90) \<or> (97 \<le> byte c \<and> byte c \<le> 122) \<or>
     byte c \<in> {33, 35, 36, 37, 38, 39, 42, 43, 45, 46, 94, 95, 96, 124, 126}"

fun canon :: "bool \<Rightarrow> string \<Rightarrow> string" where
  "canon upper [] = []"
| "canon upper (c # cs) = (if upper then upper_char c else lower_char c) # canon (c = CHR ''-'') cs"

text \<open>A key with any other byte is left alone.\<close>

definition CanonicalHeaderKey :: "string \<Rightarrow> string" where
  "CanonicalHeaderKey s = (if list_all header_byte s then canon True s else s)"

definition header_values :: "header \<Rightarrow> string \<Rightarrow> string list" where
  "header_values h k = (case map_of h k of None \<Rightarrow> [] | Some vs \<Rightarrow> vs)"

definition header_Get :: "header \<Rightarrow> string \<Rightarrow> string" where
  "header_Get h key = (case header_values h (CanonicalHeaderKey key) of [] \<Rightarrow> [] | v # _ \<Rightarrow> v)"

fun header_append :: "header \<Rightarrow> string \<Rightarrow> string \<Rightarrow> header" where
  "header_append [] k v = [(k, [v])]"
| "header_append ((q, vs) # h) k v = (if q = k then (q, vs @ [v]) # h else (q, vs) # header_append h k v)"

definition header_Add :: "header \<Rightarrow> string \<Rightarrow> string \<Rightarrow> header" where
  "header_Add h key v = header_append h (CanonicalHeaderKey key) v"

section \<open>Facts\<close>

lemma header_values_append [simp]:
  "header_values (header_append h k v) q = header_values h q @ (if q = k then [v] else [])"
  by (induction h k v rule: header_append.induct) (auto simp: header_values_def)

lemma keys_header_append: "set (map fst (header_append h k v)) = insert k (set (map fst h))"
  by (induction h k v rule: header_append.induct) auto

lemma distinct_header_append: "distinct (map fst h) \<Longrightarrow> distinct (map fst (header_append h k v))"
proof (induction h k v rule: header_append.induct)
  case (2 q vs h k v)
  then show ?case using keys_header_append [of h k v] by auto
qed simp

lemma header_byte_ascii: "header_byte c \<Longrightarrow> byte c < 128"
  by (auto simp: header_byte_def is_digit_def)

lemma header_key_ascii: "list_all header_byte s \<Longrightarrow> ascii s"
  unfolding ascii_def list_all_iff using header_byte_ascii by blast

lemma byte_upper_char: "byte (upper_char c) = (if 97 \<le> byte c \<and> byte c \<le> 122 then byte c - 32 else byte c)"
  by (auto simp: upper_char_def)

lemma byte_lower_char: "byte (lower_char c) = (if 65 \<le> byte c \<and> byte c \<le> 90 then byte c + 32 else byte c)"
  by (auto simp: lower_char_def)

lemma char_eq_byte: "c = d \<longleftrightarrow> byte c = (of_char d :: nat)"
  by (simp only: of_char_eq_iff)

lemma upper_char_ascii [simp]: "byte (upper_char c) < 128 \<longleftrightarrow> byte c < 128"
  by (auto simp: byte_upper_char)

lemma lower_char_ascii [simp]: "byte (lower_char c) < 128 \<longleftrightarrow> byte c < 128"
  by (auto simp: byte_lower_char)

lemma lower_upper_char [simp]: "lower_char (upper_char c) = lower_char c"
  by (auto simp: char_eq_byte [of "lower_char (upper_char c)"] byte_lower_char byte_upper_char)

lemma lower_lower_char [simp]: "lower_char (lower_char c) = lower_char c"
  by (auto simp: char_eq_byte [of "lower_char (lower_char c)"] byte_lower_char)

lemma upper_upper_char [simp]: "upper_char (upper_char c) = upper_char c"
  by (auto simp: char_eq_byte [of "upper_char (upper_char c)"] byte_upper_char)

lemma ascii_canon: "ascii s \<Longrightarrow> ascii (canon u s)"
  by (induction u s rule: canon.induct) simp_all

lemma lower_canon: "map lower_char (canon u s) = map lower_char s"
  by (induction u s rule: canon.induct) simp_all

text \<open>Making a key canonical does not change its letters.\<close>

lemma ToLower_CanonicalHeaderKey: "ToLower T (CanonicalHeaderKey k) = ToLower T k"
  by (simp add: CanonicalHeaderKey_def ToLower_ascii header_key_ascii ascii_canon lower_canon)

lemma header_byte_letter:
  "65 \<le> byte c \<Longrightarrow> byte c \<le> 90 \<Longrightarrow> header_byte c" "97 \<le> byte c \<Longrightarrow> byte c \<le> 122 \<Longrightarrow> header_byte c"
  by (simp_all add: header_byte_def)

lemma header_byte_upper: "header_byte c \<Longrightarrow> header_byte (upper_char c)"
  by (cases "97 \<le> byte c \<and> byte c \<le> 122")
    (auto simp: upper_char_def intro!: header_byte_letter(1))

lemma header_byte_lower: "header_byte c \<Longrightarrow> header_byte (lower_char c)"
  by (cases "65 \<le> byte c \<and> byte c \<le> 90")
    (auto simp: lower_char_def intro!: header_byte_letter(2))

lemma canon_bytes: "list_all header_byte s \<Longrightarrow> list_all header_byte (canon u s)"
  by (induction u s rule: canon.induct) (simp_all add: header_byte_upper header_byte_lower)

lemma canon_idem: "canon u (canon u s) = canon u s"
proof (induction u s rule: canon.induct)
  case (2 u c cs)
  have "upper_char c = CHR ''-'' \<longleftrightarrow> c = CHR ''-''" "lower_char c = CHR ''-'' \<longleftrightarrow> c = CHR ''-''"
    by (auto simp: char_eq_byte byte_upper_char byte_lower_char)
  then show ?case using 2 by simp
qed simp

lemma CanonicalHeaderKey_idem: "CanonicalHeaderKey (CanonicalHeaderKey k) = CanonicalHeaderKey k"
  by (simp add: CanonicalHeaderKey_def canon_idem canon_bytes)

lemmas http_eval [go_eval] = upper_char_def header_byte_def CanonicalHeaderKey_def header_values_def
  header_Get_def header_Add_def

end
