(* ===== verification/Go_Net.thy ===== *)
theory Go_Net
  imports Go_Unicode
begin

text \<open>
  The part of package \<open>net\<close> the admin listener uses: \<open>SplitHostPort\<close>, \<open>ParseIP\<close> and
  \<open>IP.IsLoopback\<close>. An address is its 16 bytes; errors carry no information the program looks at.
\<close>

definition last_index :: "string \<Rightarrow> char \<Rightarrow> nat option" where
  "last_index s c = (if c \<in> set s
     then Some (length s - 1 - length (takeWhile (\<lambda>x. x \<noteq> c) (rev s))) else None)"

definition SplitHostPort :: "string \<Rightarrow> (string \<times> string) option" where
  "SplitHostPort hp =
     (case last_index hp (CHR '':'') of
        None \<Rightarrow> None
      | Some i \<Rightarrow>
          if hd hp = CHR ''['' then
            (case Index hp '']'' of
               None \<Rightarrow> None
             | Some e \<Rightarrow>
                 if e + 1 \<noteq> i then None
                 else if CHR ''['' \<in> set (drop 1 hp) \<or> CHR '']'' \<in> set (drop (e + 1) hp) then None
                 else Some (drop 1 (take e hp), drop (i + 1) hp))
          else
            if CHR '':'' \<in> set (take i hp) \<or> CHR ''['' \<in> set hp \<or> CHR '']'' \<in> set hp then None
            else Some (take i hp, drop (i + 1) hp))"

text \<open>Dotted decimal: four octets without leading zeros.\<close>

definition octet :: "string \<Rightarrow> nat option" where
  "octet s = (if s \<noteq> [] \<and> list_all is_digit s \<and> (hd s = CHR ''0'' \<longrightarrow> length s = 1) \<and> dec_val s \<le> 255
     then Some (dec_val s) else None)"

definition parseIPv4 :: "string \<Rightarrow> nat list option" where
  "parseIPv4 s =
     (case Split s ''.'' of
        [a, b, c, d] \<Rightarrow>
          (case (octet a, octet b, octet c, octet d) of
             (Some w, Some x, Some y, Some z) \<Rightarrow> Some [w, x, y, z]
           | _ \<Rightarrow> None)
      | _ \<Rightarrow> None)"

definition hex4_char :: "char \<Rightarrow> bool" where
  "hex4_char c \<longleftrightarrow> is_digit c \<or> (97 \<le> byte c \<and> byte c \<le> 102) \<or> (65 \<le> byte c \<and> byte c \<le> 70)"

definition hex4_digit :: "char \<Rightarrow> nat" where
  "hex4_digit c = (if is_digit c then byte c - 48 else if 97 \<le> byte c then byte c - 87 else byte c - 55)"

definition hex4_val :: "string \<Rightarrow> nat" where
  "hex4_val s = foldl (\<lambda>acc c. acc * 16 + hex4_digit c) 0 s"

text \<open>
  The loop of \<open>parseIPv6\<close> with at most \<open>n\<close> groups to go: the bytes so far and the place of the
  ellipsis, if one has been seen.
\<close>

fun ipv6_loop :: "nat \<Rightarrow> string \<Rightarrow> nat list \<Rightarrow> nat option \<Rightarrow> (nat list \<times> nat option) option" where
  "ipv6_loop 0 s ip ell = (if s = [] then Some (ip, ell) else None)"
| "ipv6_loop (Suc n) s ip ell =
     (let g = takeWhile hex4_char s; rest = dropWhile hex4_char s; acc = hex4_val g;
          ip' = ip @ [acc div 256, acc mod 256]
      in if g = [] \<or> 4 < length g then None
         else if rest \<noteq> [] \<and> hd rest = CHR ''.'' then
           (if ell = None \<and> length ip \<noteq> 12 then None
            else if 16 < length ip + 4 then None
            else case parseIPv4 s of None \<Rightarrow> None | Some v4 \<Rightarrow> Some (ip @ v4, ell))
         else if rest = [] then Some (ip', ell)
         else if hd rest \<noteq> CHR '':'' \<or> tl rest = [] then None
         else if hd (tl rest) = CHR '':'' then
           (if ell \<noteq> None then None
            else if tl (tl rest) = [] then Some (ip', Some (length ip'))
            else ipv6_loop n (tl (tl rest)) ip' (Some (length ip')))
         else ipv6_loop n (tl rest) ip' ell)"

definition expand_ellipsis :: "nat list \<times> nat option \<Rightarrow> nat list option" where
  "expand_ellipsis r =
     (if length (fst r) < 16 then
        (case snd r of
           None \<Rightarrow> None
         | Some e \<Rightarrow> Some (take e (fst r) @ replicate (16 - length (fst r)) 0 @ drop e (fst r)))
      else if snd r \<noteq> None then None
      else Some (fst r))"

text \<open>Any zone makes \<open>ParseIP\<close> fail.\<close>

definition parseIPv6 :: "string \<Rightarrow> nat list option" where
  "parseIPv6 s =
     (if CHR ''%'' \<in> set s then None
      else if HasPrefix s ''::'' then
        (if drop 2 s = [] then Some (replicate 16 0)
         else Option.bind (ipv6_loop 8 (drop 2 s) [] (Some 0)) expand_ellipsis)
      else Option.bind (ipv6_loop 8 s [] None) expand_ellipsis)"

definition v4_in_6 :: "nat list" where
  "v4_in_6 = replicate 10 0 @ [255, 255]"

definition ParseIP :: "string \<Rightarrow> nat list option" where
  "ParseIP s =
     (case dropWhile (\<lambda>c. c \<noteq> CHR ''.'' \<and> c \<noteq> CHR '':'' \<and> c \<noteq> CHR ''%'') s of
        [] \<Rightarrow> None
      | c # _ \<Rightarrow>
          if c = CHR ''.'' then map_option ((@) v4_in_6) (parseIPv4 s)
          else if c = CHR '':'' then parseIPv6 s
          else None)"

definition IsLoopback :: "nat list \<Rightarrow> bool" where
  "IsLoopback ip \<longleftrightarrow>
     (if take 12 ip = v4_in_6 then ip ! 12 = 127 else ip = replicate 15 0 @ [1])"

section \<open>Facts\<close>

lemma dec_val_cons_pos:
  "list_all is_digit (c # s) \<Longrightarrow> c \<noteq> CHR ''0'' \<Longrightarrow> 0 < dec_val (c # s)"
proof (induction s rule: rev_induct)
  case Nil
  have "byte c \<noteq> 48"
  proof
    assume "byte c = 48"
    then have "of_char c = (of_char (CHR ''0'') :: nat)" by simp
    with Nil show False by (simp only: of_char_eq_iff)
  qed
  then show ?case using Nil by (simp add: dec_val_def digit_val_def is_digit_def)
next
  case (snoc x s)
  then show ?case using dec_val_snoc [of "c # s" x] by simp
qed

text \<open>A number is printed back from its digits when they have no leading zero.\<close>

lemma digit_digit_val: "is_digit c \<Longrightarrow> digit (digit_val c) = c"
proof -
  assume c: "is_digit c"
  then have n: "digit_val c < 10" "byte c = 48 + digit_val c" by (auto simp: is_digit_def digit_val_def)
  then have "of_char (digit (digit_val c)) = (of_char c :: nat)" using of_char_digit by simp
  then show ?thesis by (simp only: of_char_eq_iff)
qed

lemma decimal_step: "10 \<le> n \<Longrightarrow> decimal n = decimal (n div 10) @ [digit (n mod 10)]"
  by (subst decimal.simps) simp

lemma decimal_small: "n < 10 \<Longrightarrow> decimal n = [digit n]"
  by (subst decimal.simps) simp

lemma decimal_dec_val:
  "list_all is_digit s \<Longrightarrow> s \<noteq> [] \<Longrightarrow> (hd s = CHR ''0'' \<longrightarrow> length s = 1) \<Longrightarrow> decimal (dec_val s) = s"
proof (induction s rule: rev_induct)
  case (snoc x s)
  have x: "is_digit x" "digit_val x < 10" using snoc.prems by (auto simp: is_digit_def digit_val_def)
  show ?case
  proof (cases s)
    case Nil
    then show ?thesis
      using x decimal_small [of "digit_val x"] by (simp add: dec_val_def digit_digit_val)
  next
    case (Cons c t)
    then have c: "c \<noteq> CHR ''0''" using snoc.prems by auto
    then have pos: "0 < dec_val s" using dec_val_cons_pos [of c t] snoc.prems Cons by simp
    have "decimal (dec_val s) = s" using snoc Cons c by simp
    moreover have "dec_val (s @ [x]) div 10 = dec_val s" "dec_val (s @ [x]) mod 10 = digit_val x"
      using x by (simp_all add: dec_val_snoc)
    ultimately show ?thesis
      using decimal_step [of "dec_val (s @ [x])"] pos x by (simp add: digit_digit_val dec_val_snoc)
  qed
qed simp

lemma octet_decimal: "octet s = Some n \<Longrightarrow> s = decimal n"
  using decimal_dec_val [of s] by (auto simp: octet_def split: if_splits)

lemma parseIPv4_decimal:
  "parseIPv4 s = Some ip \<Longrightarrow>
     length ip = 4 \<and> s = Join (map decimal ip) ''.'' "
proof -
  assume p: "parseIPv4 s = Some ip"
  then obtain a b c d where sp: "Split s ''.'' = [a, b, c, d]"
    by (auto simp: parseIPv4_def split: list.splits)
  with p obtain w x y z where o: "octet a = Some w" "octet b = Some x" "octet c = Some y" "octet d = Some z"
    "ip = [w, x, y, z]"
    by (auto simp: parseIPv4_def split: option.splits)
  have "s = Join [a, b, c, d] ''.''" using Join_Split [of s "''.''"] by (simp add: sp)
  then show ?thesis using o octet_decimal by simp
qed

lemmas net_eval [go_eval] = last_index_def SplitHostPort_def octet_def parseIPv4_def hex4_char_def
  hex4_digit_def hex4_val_def expand_ellipsis_def parseIPv6_def v4_in_6_def ParseIP_def IsLoopback_def

end
