(* ===== verification/Go_Url.thy ===== *)
theory Go_Url
  imports Go_Net
begin

text \<open>
  Package \<open>net/url\<close>: \<open>Parse\<close> and \<open>URL.String\<close> as of Go 1.25, from the functions they are made of.
  \<open>None\<close> is a parse error; its text is not modelled. A query is kept as it is spelled.
\<close>

datatype encoding = EncodePath | EncodeHost | EncodeZone | EncodeUserPassword | EncodeFragment

record url =
  u_Scheme :: string
  u_Opaque :: string
  u_User :: "(string \<times> string option) option"
  u_Host :: string
  u_Path :: string
  u_RawPath :: string
  u_OmitHost :: bool
  u_ForceQuery :: bool
  u_RawQuery :: string
  u_Fragment :: string
  u_RawFragment :: string

definition zero_url :: url where
  "zero_url = \<lparr>u_Scheme = [], u_Opaque = [], u_User = None, u_Host = [], u_Path = [], u_RawPath = [],
     u_OmitHost = False, u_ForceQuery = False, u_RawQuery = [], u_Fragment = [], u_RawFragment = []\<rparr>"

section \<open>Escaping\<close>

definition alnum :: "char \<Rightarrow> bool" where
  "alnum c \<longleftrightarrow> is_digit c \<or> (65 \<le> byte c \<and> byte c \<le> 90) \<or> (97 \<le> byte c \<and> byte c \<le> 122)"

definition shouldEscape :: "char \<Rightarrow> encoding \<Rightarrow> bool" where
  "shouldEscape c mode =
     (if alnum c then False
      else if mode \<in> {EncodeHost, EncodeZone} \<and> c \<in> set (''!$&()*+,;=:[]<>'' @ [CHR 0x27, QUOTE]) then False
      else if c \<in> set ''-_.~'' then False
      else if c \<in> set ''$&+,/:;=?@'' then
        (case mode of
           EncodePath \<Rightarrow> c = CHR ''?''
         | EncodeUserPassword \<Rightarrow> c \<in> set ''@/?:''
         | EncodeFragment \<Rightarrow> False
         | _ \<Rightarrow> True)
      else if mode = EncodeFragment \<and> c \<in> set ''!()*'' then False
      else True)"

fun unescape :: "encoding \<Rightarrow> string \<Rightarrow> string option" where
  "unescape mode [] = Some []"
| "unescape mode (c # cs) =
     (if c = CHR ''%'' then
        (case cs of
           a # b # rest \<Rightarrow>
             (let v = char_of (16 * hex4_digit a + hex4_digit b)
              in if \<not> hex4_char a \<or> \<not> hex4_char b then None
                 else if mode = EncodeHost \<and> hex4_digit a < 8 \<and> \<not> (a = CHR ''2'' \<and> b = CHR ''5'') then None
                 else if mode = EncodeZone \<and> \<not> (a = CHR ''2'' \<and> b = CHR ''5'') \<and> v \<noteq> CHR '' '' \<and>
                         shouldEscape v EncodeHost then None
                 else map_option ((#) v) (unescape mode rest))
         | _ \<Rightarrow> None)
      else if mode \<in> {EncodeHost, EncodeZone} \<and> byte c < 128 \<and> shouldEscape c mode then None
      else map_option ((#) c) (unescape mode cs))"

definition hex_upper :: "nat \<Rightarrow> char" where
  "hex_upper n = ''0123456789ABCDEF'' ! n"

definition escape_char :: "encoding \<Rightarrow> char \<Rightarrow> string" where
  "escape_char mode c =
     (if shouldEscape c mode then [CHR ''%'', hex_upper (byte c div 16), hex_upper (byte c mod 16)] else [c])"

definition escape :: "encoding \<Rightarrow> string \<Rightarrow> string" where
  "escape mode s = concat (map (escape_char mode) s)"

text \<open>Whether an encoding given in a URL may be kept as it is spelled.\<close>

definition validEncoded :: "encoding \<Rightarrow> string \<Rightarrow> bool" where
  "validEncoded mode s \<longleftrightarrow>
     list_all (\<lambda>c. c \<in> set (''!$&()*+,;=:@[]%'' @ [CHR 0x27]) \<or> \<not> shouldEscape c mode) s"

section \<open>Parsing\<close>

definition before :: "char \<Rightarrow> string \<Rightarrow> string" where
  "before c s = takeWhile (\<lambda>x. x \<noteq> c) s"

definition after :: "char \<Rightarrow> string \<Rightarrow> string" where
  "after c s = drop 1 (dropWhile (\<lambda>x. x \<noteq> c) s)"

definition control_byte :: "char \<Rightarrow> bool" where
  "control_byte c \<longleftrightarrow> byte c < 32 \<or> byte c = 127"

definition letter :: "char \<Rightarrow> bool" where
  "letter c \<longleftrightarrow> alnum c \<and> \<not> is_digit c"

definition scheme_char :: "char \<Rightarrow> bool" where
  "scheme_char c \<longleftrightarrow> alnum c \<or> c \<in> set ''+-.''"

text \<open>The scheme and the rest; \<open>None\<close> for a URL that begins with its colon.\<close>

definition getScheme :: "string \<Rightarrow> (string \<times> string) option" where
  "getScheme raw =
     (let s = takeWhile scheme_char raw; rest = dropWhile scheme_char raw
      in if HasPrefix raw '':'' then None
         else if s \<noteq> [] \<and> letter (hd s) \<and> HasPrefix rest '':'' then Some (s, tl rest)
         else Some ([], raw))"

definition validOptionalPort :: "string \<Rightarrow> bool" where
  "validOptionalPort port \<longleftrightarrow> port = [] \<or> (hd port = CHR '':'' \<and> list_all is_digit (tl port))"

definition validUserinfo :: "string \<Rightarrow> bool" where
  "validUserinfo s \<longleftrightarrow> list_all (\<lambda>c. alnum c \<or> c \<in> set (''-._:~!$&()*+,;=%@'' @ [CHR 0x27])) s"

definition parseHost :: "string \<Rightarrow> string option" where
  "parseHost host =
     (if HasPrefix host ''['' then
        (case last_index host (CHR '']'') of
           None \<Rightarrow> None
         | Some i \<Rightarrow>
             if \<not> validOptionalPort (drop (i + 1) host) then None
             else (case Index (take i host) ''%25'' of
                 None \<Rightarrow> unescape EncodeHost host
               | Some zone \<Rightarrow>
                   (case (unescape EncodeHost (take zone host), unescape EncodeZone (drop zone (take i host)),
                          unescape EncodeHost (drop i host)) of
                      (Some h1, Some h2, Some h3) \<Rightarrow> Some (h1 @ h2 @ h3)
                    | _ \<Rightarrow> None)))
      else case last_index host (CHR '':'') of
        None \<Rightarrow> unescape EncodeHost host
      | Some i \<Rightarrow> if validOptionalPort (drop i host) then unescape EncodeHost host else None)"

definition parseUser :: "string \<Rightarrow> (string \<times> string option) option" where
  "parseUser userinfo =
     (if \<not> validUserinfo userinfo then None
      else if CHR '':'' \<notin> set userinfo then map_option (\<lambda>u. (u, None)) (unescape EncodeUserPassword userinfo)
      else case (unescape EncodeUserPassword (before (CHR '':'') userinfo),
                 unescape EncodeUserPassword (after (CHR '':'') userinfo)) of
        (Some u, Some p) \<Rightarrow> Some (u, Some p)
      | _ \<Rightarrow> None)"

definition parseAuthority :: "string \<Rightarrow> ((string \<times> string option) option \<times> string) option" where
  "parseAuthority authority =
     (case last_index authority (CHR ''@'') of
        None \<Rightarrow> map_option (\<lambda>h. (None, h)) (parseHost authority)
      | Some i \<Rightarrow>
          (case (parseHost (drop (i + 1) authority), parseUser (take i authority)) of
             (Some h, Some u) \<Rightarrow> Some (Some u, h)
           | _ \<Rightarrow> None))"

definition setPath :: "string \<Rightarrow> url \<Rightarrow> url option" where
  "setPath p u =
     (case unescape EncodePath p of
        None \<Rightarrow> None
      | Some path \<Rightarrow> Some (u\<lparr>u_Path := path, u_RawPath := (if p = escape EncodePath path then [] else p)\<rparr>))"

definition setFragment :: "string \<Rightarrow> url \<Rightarrow> url option" where
  "setFragment f u =
     (case unescape EncodeFragment f of
        None \<Rightarrow> None
      | Some frag \<Rightarrow>
          Some (u\<lparr>u_Fragment := frag, u_RawFragment := (if f = escape EncodeFragment frag then [] else f)\<rparr>))"

text \<open>The unexported \<open>parse\<close>, outside of requests: first the hierarchical part, then all of it.\<close>

definition parse_rest :: "string \<Rightarrow> url \<Rightarrow> url option" where
  "parse_rest rest u =
     (if \<not> HasPrefix rest ''/'' \<and> u_Scheme u \<noteq> [] then Some (u\<lparr>u_Opaque := rest\<rparr>)
      else if \<not> HasPrefix rest ''/'' \<and> CHR '':'' \<in> set (before (CHR ''/'') rest) then None
      else if (u_Scheme u \<noteq> [] \<or> \<not> HasPrefix rest ''///'') \<and> HasPrefix rest ''//'' then
        (let authority = before (CHR ''/'') (drop 2 rest);
             path = dropWhile (\<lambda>c. c \<noteq> CHR ''/'') (drop 2 rest)
         in case parseAuthority authority of
              None \<Rightarrow> None
            | Some (user, host) \<Rightarrow> setPath path (u\<lparr>u_User := user, u_Host := host\<rparr>))
      else setPath rest (u\<lparr>u_OmitHost := (u_Scheme u \<noteq> [] \<and> HasPrefix rest ''/'')\<rparr>))"

definition parse_url :: "string \<Rightarrow> url option" where
  "parse_url raw =
     (if list_ex control_byte raw then None
      else if raw = ''*'' then Some (zero_url\<lparr>u_Path := ''*''\<rparr>)
      else case getScheme raw of
        None \<Rightarrow> None
      | Some (scheme, rest) \<Rightarrow>
          let u = zero_url\<lparr>u_Scheme := map lower_char scheme\<rparr>
          in if HasSuffix rest ''?'' \<and> CHR ''?'' \<notin> set (butlast rest)
             then parse_rest (butlast rest) (u\<lparr>u_ForceQuery := True\<rparr>)
             else parse_rest (before (CHR ''?'') rest) (u\<lparr>u_RawQuery := after (CHR ''?'') rest\<rparr>))"

definition url_Parse :: "string \<Rightarrow> url option" where
  "url_Parse raw =
     (case parse_url (before (CHR ''#'') raw) of
        None \<Rightarrow> None
      | Some u \<Rightarrow> if after (CHR ''#'') raw = [] then Some u else setFragment (after (CHR ''#'') raw) u)"

section \<open>Printing\<close>

definition EscapedPath :: "url \<Rightarrow> string" where
  "EscapedPath u =
     (if u_RawPath u \<noteq> [] \<and> validEncoded EncodePath (u_RawPath u) \<and>
         unescape EncodePath (u_RawPath u) = Some (u_Path u) then u_RawPath u
      else if u_Path u = ''*'' then ''*''
      else escape EncodePath (u_Path u))"

definition EscapedFragment :: "url \<Rightarrow> string" where
  "EscapedFragment u =
     (if u_RawFragment u \<noteq> [] \<and> validEncoded EncodeFragment (u_RawFragment u) \<and>
         unescape EncodeFragment (u_RawFragment u) = Some (u_Fragment u) then u_RawFragment u
      else escape EncodeFragment (u_Fragment u))"

definition user_String :: "string \<times> string option \<Rightarrow> string" where
  "user_String user =
     escape EncodeUserPassword (fst user) @
     (case snd user of None \<Rightarrow> [] | Some p \<Rightarrow> '':'' @ escape EncodeUserPassword p)"

definition authority_String :: "url \<Rightarrow> string" where
  "authority_String u =
     (if u_Scheme u = [] \<and> u_Host u = [] \<and> u_User u = None then []
      else if u_OmitHost u \<and> u_Host u = [] \<and> u_User u = None then []
      else (if u_Host u \<noteq> [] \<or> u_Path u \<noteq> [] \<or> u_User u \<noteq> None then ''//'' else []) @
           (case u_User u of None \<Rightarrow> [] | Some user \<Rightarrow> user_String user @ ''@'') @
           escape EncodeHost (u_Host u))"

definition path_String :: "url \<Rightarrow> string \<Rightarrow> string" where
  "path_String u buf =
     (let path = EscapedPath u;
          buf = (if path \<noteq> [] \<and> \<not> HasPrefix path ''/'' \<and> u_Host u \<noteq> [] then buf @ ''/'' else buf);
          buf = (if buf = [] \<and> CHR '':'' \<in> set (before (CHR ''/'') path) then ''./'' else buf)
      in buf @ path)"

definition url_String :: "url \<Rightarrow> string" where
  "url_String u =
     (let buf = (if u_Scheme u \<noteq> [] then u_Scheme u @ '':'' else []);
          buf = (if u_Opaque u \<noteq> [] then buf @ u_Opaque u
                 else path_String u (buf @ authority_String u));
          buf = (if u_ForceQuery u \<or> u_RawQuery u \<noteq> [] then buf @ ''?'' @ u_RawQuery u else buf)
      in if u_Fragment u \<noteq> [] then buf @ ''#'' @ EscapedFragment u else buf)"

lemmas url_eval [go_eval] = zero_url_def alnum_def shouldEscape_def hex_upper_def escape_char_def escape_def
  validEncoded_def before_def after_def control_byte_def letter_def scheme_char_def getScheme_def
  validOptionalPort_def validUserinfo_def parseHost_def parseUser_def parseAuthority_def setPath_def
  setFragment_def parse_rest_def parse_url_def url_Parse_def EscapedPath_def EscapedFragment_def
  user_String_def authority_String_def path_String_def url_String_def

section \<open>Escaping and back\<close>

lemma hex_upper_facts:
  "n < 16 \<Longrightarrow> hex4_char (hex_upper n) \<and> hex4_digit (hex_upper n) = n \<and> alnum (hex_upper n)"
proof -
  have "list_all (\<lambda>n. hex4_char (hex_upper n) \<and> hex4_digit (hex_upper n) = n \<and> alnum (hex_upper n)) [0..<16]"
    by (simp add: upt_rec hex_upper_def hex4_char_def hex4_digit_def alnum_def is_digit_def)
  moreover assume "n < 16"
  ultimately show ?thesis by (simp only: list_all_iff set_upt) simp
qed

lemma of_char_split: "char_of (16 * (byte c div 16) + byte c mod 16) = c"
  by (simp only: mult_div_mod_eq char_of_char)

lemma byte_less: "byte c < 256"
  by (rule nat_of_char_less_256)

lemma percent_escaped [simp]: "shouldEscape (CHR ''%'') mode"
  by (simp add: shouldEscape_def alnum_def is_digit_def)

text \<open>Decoding undoes encoding; for hosts where what is escaped is not ASCII or is the percent sign.\<close>

lemma unescape_escape:
  assumes "mode \<in> {EncodePath, EncodeUserPassword, EncodeFragment} \<or>
    (mode = EncodeHost \<and> list_all (\<lambda>c. shouldEscape c EncodeHost \<longrightarrow> 128 \<le> byte c \<or> c = CHR ''%'') s)"
  shows "unescape mode (escape mode s) = Some s"
  using assms
proof (induction s)
  case Nil
  then show ?case by (simp add: escape_def)
next
  case (Cons c s)
  have ih: "unescape mode (escape mode s) = Some s" using Cons by auto
  have e: "escape mode (c # s) = escape_char mode c @ escape mode s" by (simp add: escape_def)
  show ?case
  proof (cases "shouldEscape c mode")
    case True
    have d: "byte c div 16 < 16" "byte c mod 16 < 16" using byte_less [of c] by (simp_all add: less_mult_imp_div_less)
    have "mode = EncodeHost \<Longrightarrow> byte c div 16 < 8 \<Longrightarrow>
        hex_upper (byte c div 16) = CHR ''2'' \<and> hex_upper (byte c mod 16) = CHR ''5''"
      using True Cons.prems by (auto simp: hex_upper_def)
    then show ?thesis
      using hex_upper_facts [OF d(1)] hex_upper_facts [OF d(2)] Cons.prems
      by (simp only: e escape_char_def True if_True append_Cons append_Nil unescape.simps list.case
          Let_def ih of_char_split option.map) auto
  next
    case False
    then show ?thesis using ih by (auto simp: e escape_char_def)
  qed
qed

text \<open>What escaped text is made of.\<close>

lemma set_escape: "x \<in> set (escape mode s) \<Longrightarrow> x = CHR ''%'' \<or> alnum x \<or> \<not> shouldEscape x mode"
proof -
  assume "x \<in> set (escape mode s)"
  then obtain c where c: "x \<in> set (escape_char mode c)" by (auto simp: escape_def)
  have "byte c div 16 < 16" "byte c mod 16 < 16" using byte_less [of c] by (simp_all add: less_mult_imp_div_less)
  then show ?thesis using c hex_upper_facts by (auto simp: escape_char_def split: if_splits)
qed

lemma escape_Nil_iff [simp]: "escape mode s = [] \<longleftrightarrow> s = []"
  by (cases s) (simp_all add: escape_def escape_char_def)

lemma not_escaped:
  "\<not> shouldEscape c mode \<Longrightarrow> alnum c \<or> c \<in> set (''!$&()*+,;=:[]<>-_.~/@'' @ [CHR 0x27, QUOTE]) \<or>
     (mode = EncodeFragment \<and> c = CHR ''?'')"
  by (auto simp: shouldEscape_def split: if_splits encoding.splits)

lemma alnum_safe: "alnum c \<Longrightarrow> \<not> control_byte c \<and> c \<notin> set ''?#/@:%''"
  by (auto simp: alnum_def control_byte_def is_digit_def)

lemma unescaped_safe: "\<not> shouldEscape c mode \<Longrightarrow> \<not> control_byte c \<and> c \<noteq> CHR ''#'' \<and> (mode \<noteq> EncodeFragment \<longrightarrow> c \<noteq> CHR ''?'')"
proof -
  assume "\<not> shouldEscape c mode"
  then consider "alnum c" | "c \<in> set (''!$&()*+,;=:[]<>-_.~/@'' @ [CHR 0x27, QUOTE])" | "mode = EncodeFragment" "c = CHR ''?''"
    using not_escaped by blast
  then show ?thesis
  proof cases
    case 1
    then show ?thesis using alnum_safe by auto
  qed (auto simp: control_byte_def)
qed

lemma escaped_safe:
  "x \<in> set (escape mode s) \<Longrightarrow> \<not> control_byte x \<and> x \<noteq> CHR ''#'' \<and> (mode \<noteq> EncodeFragment \<longrightarrow> x \<noteq> CHR ''?'')"
  using set_escape [of x mode s] alnum_safe [of x] unescaped_safe [of x mode] by (auto simp: control_byte_def)

lemma escaped_authority:
  "x \<in> set (escape EncodeHost s) \<Longrightarrow> x \<notin> set ''/@''"
  "x \<in> set (escape EncodeUserPassword s) \<Longrightarrow> x \<notin> set ''/@:'' \<and> (alnum x \<or> x \<in> set ''-_.~$&+,;=%'')"
  using set_escape [of x EncodeHost s] set_escape [of x EncodeUserPassword s] alnum_safe [of x]
  by (auto simp: shouldEscape_def split: if_splits)

section \<open>Parsing what was printed\<close>

lemma before_after:
  "c \<notin> set a \<Longrightarrow> before c (a @ c # b) = a" "c \<notin> set a \<Longrightarrow> after c (a @ c # b) = b"
  "c \<notin> set a \<Longrightarrow> before c a = a" "c \<notin> set a \<Longrightarrow> after c a = []"
proof -
  show "c \<notin> set a \<Longrightarrow> after c a = []"
    by (induction a) (auto simp: after_def)
qed (auto simp add: before_def after_def takeWhile_append dropWhile_append takeWhile_eq_all_conv)

lemma last_index_append: "c \<notin> set b \<Longrightarrow> last_index (a @ c # b) c = Some (length a)"
  by (simp add: last_index_def takeWhile_append takeWhile_eq_all_conv)

lemma last_index_None: "c \<notin> set s \<Longrightarrow> last_index s c = None"
  by (simp add: last_index_def)

lemma escaped_user_valid: "validUserinfo (escape EncodeUserPassword s)"
  using escaped_authority(2) [of _ s] by (fastforce simp: validUserinfo_def list_all_iff)

lemma validUserinfo_append: "validUserinfo (a @ b) \<longleftrightarrow> validUserinfo a \<and> validUserinfo b"
  by (simp add: validUserinfo_def)

lemma parseUser_String: "parseUser (user_String user) = Some user"
proof (cases user)
  case (Pair u p)
  have c: "CHR '':'' \<notin> set (escape EncodeUserPassword s)" for s
    using escaped_authority(2) [of "CHR '':''" s] by auto
  have d: "unescape EncodeUserPassword (escape EncodeUserPassword s) = Some s" for s
    by (rule unescape_escape) simp
  have v: "validUserinfo '':''" by (simp add: validUserinfo_def)
  show ?thesis
  proof (cases p)
    case None
    then show ?thesis using c d escaped_user_valid by (simp add: Pair parseUser_def user_String_def)
  next
    case (Some w)
    have "user_String user = escape EncodeUserPassword u @ CHR '':'' # escape EncodeUserPassword w"
      by (simp add: Pair Some user_String_def)
    moreover have "validUserinfo (escape EncodeUserPassword u @ CHR '':'' # escape EncodeUserPassword w)"
      using v escaped_user_valid by (simp add: validUserinfo_def)
    ultimately show ?thesis using c d by (simp add: parseUser_def before_after Pair Some)
  qed
qed

text \<open>The hosts that are read as they are printed.\<close>

definition stable_host :: "string \<Rightarrow> bool" where
  "stable_host h \<longleftrightarrow> parseHost (escape EncodeHost h) = Some h"

lemma at_not_in_host: "CHR ''@'' \<notin> set (escape EncodeHost h)"
  using escaped_authority(1) [of "CHR ''@''" h] by auto

lemma parseAuthority_String:
  assumes "stable_host h"
  shows "parseAuthority ((case user of None \<Rightarrow> [] | Some us \<Rightarrow> user_String us @ ''@'') @ escape EncodeHost h) =
    Some (user, h)"
proof (cases user)
  case None
  then show ?thesis
    using assms at_not_in_host by (simp add: parseAuthority_def last_index_None stable_host_def)
next
  case (Some us)
  have "parseAuthority (user_String us @ CHR ''@'' # escape EncodeHost h) = Some (Some us, h)"
    unfolding parseAuthority_def last_index_append [OF at_not_in_host]
    using assms by (simp add: stable_host_def parseUser_String)
  then show ?thesis by (simp add: Some)
qed

lemma slash_not_in_authority:
  "CHR ''/'' \<notin> set ((case user of None \<Rightarrow> [] | Some us \<Rightarrow> user_String us @ ''@'') @ escape EncodeHost h)"
proof -
  have "CHR ''/'' \<notin> set (user_String us)" for us
    using escaped_authority(2) [of "CHR ''/''"] by (auto simp: user_String_def split: option.splits)
  then show ?thesis using escaped_authority(1) [of "CHR ''/''" h] by (auto split: option.splits)
qed

text \<open>A path as it comes out of \<open>String\<close> behind an authority, and what it is read as.\<close>

definition rooted_path :: "string \<Rightarrow> string" where
  "rooted_path p = (if p = [] \<or> HasPrefix p ''/'' then p else CHR ''/'' # p)"

lemma EscapedPath_unescape: "unescape EncodePath (EscapedPath u) = Some (u_Path u)"
proof -
  have "unescape EncodePath (escape EncodePath (u_Path u)) = Some (u_Path u)" by (rule unescape_escape) simp
  then show ?thesis by (auto simp: EscapedPath_def)
qed

lemma EscapedPath_safe:
  "x \<in> set (EscapedPath u) \<Longrightarrow> \<not> control_byte x \<and> x \<noteq> CHR ''#'' \<and> x \<noteq> CHR ''?''"
proof -
  assume x: "x \<in> set (EscapedPath u)"
  have "validEncoded EncodePath s \<Longrightarrow> x \<in> set s \<Longrightarrow> \<not> control_byte x \<and> x \<noteq> CHR ''#'' \<and> x \<noteq> CHR ''?''" for s
  proof -
    assume "validEncoded EncodePath s" and "x \<in> set s"
    then have "x \<in> set (''!$&()*+,;=:@[]%'' @ [CHR 0x27]) \<or> \<not> shouldEscape x EncodePath"
      by (simp only: validEncoded_def list_all_iff)
    then show ?thesis
    proof
      assume "x \<in> set (''!$&()*+,;=:@[]%'' @ [CHR 0x27])"
      then show ?thesis by (auto simp: control_byte_def)
    qed (use unescaped_safe in simp)
  qed
  then show ?thesis
    using x escaped_safe [of x EncodePath "u_Path u"]
    by (auto simp: EscapedPath_def control_byte_def split: if_splits)
qed

lemma escape_slash_head: "HasPrefix (escape EncodePath p) ''/'' = HasPrefix p ''/''"
proof (cases p)
  case (Cons c cs)
  have "\<not> shouldEscape (CHR ''/'') EncodePath" by (simp add: shouldEscape_def alnum_def is_digit_def)
  then have "shouldEscape c EncodePath \<Longrightarrow> c \<noteq> CHR ''/''" by blast
  then show ?thesis by (auto simp: Cons escape_def escape_char_def HasPrefix_single)
qed (simp add: escape_def)

lemma EscapedPath_head:
  assumes "u_RawPath u = [] \<or> HasPrefix (u_RawPath u) ''/''"
  shows "HasPrefix (EscapedPath u) ''/'' = HasPrefix (u_Path u) ''/''" "EscapedPath u = [] \<longleftrightarrow> u_Path u = []"
proof -
  have "HasPrefix (u_Path u) ''/''" if "HasPrefix (u_RawPath u) ''/''" "unescape EncodePath (u_RawPath u) = Some (u_Path u)"
    using that by (cases "u_RawPath u") (auto simp: HasPrefix_single dest: sym)
  then show "HasPrefix (EscapedPath u) ''/'' = HasPrefix (u_Path u) ''/''" "EscapedPath u = [] \<longleftrightarrow> u_Path u = []"
    using assms escape_slash_head [of "u_Path u"]
    by (auto simp: EscapedPath_def HasPrefix_single split: if_splits)
qed

text \<open>Absolute URLs with an authority, and the parts of one that are printed and read back.\<close>

definition valid_scheme :: "string \<Rightarrow> bool" where
  "valid_scheme s \<longleftrightarrow> s \<noteq> [] \<and> letter (hd s) \<and> list_all scheme_char s \<and> map lower_char s = s"

definition absolute_url :: "url \<Rightarrow> bool" where
  "absolute_url u \<longleftrightarrow>
     valid_scheme (u_Scheme u) \<and> u_Opaque u = [] \<and> u_Host u \<noteq> [] \<and> stable_host (u_Host u) \<and>
     (u_RawPath u = [] \<or> HasPrefix (u_RawPath u) ''/'')"

definition hierarchy :: "url \<Rightarrow> string" where
  "hierarchy u = ''//'' @ ((case u_User u of None \<Rightarrow> [] | Some us \<Rightarrow> user_String us @ ''@'') @
     escape EncodeHost (u_Host u)) @ rooted_path (EscapedPath u)"

lemma setPath_rooted:
  assumes "u_RawPath u = [] \<or> HasPrefix (u_RawPath u) ''/''"
  shows "\<exists>v. setPath (rooted_path (EscapedPath u)) w = Some v \<and>
    u_Path v = rooted_path (u_Path u) \<and> (\<exists>p r. v = w\<lparr>u_Path := p, u_RawPath := r\<rparr>)"
proof -
  have "unescape EncodePath (rooted_path (EscapedPath u)) = Some (rooted_path (u_Path u))"
    using EscapedPath_unescape [of u] EscapedPath_head [OF assms] by (auto simp: rooted_path_def)
  then show ?thesis by (auto simp: setPath_def)
qed

lemma rooted_path_split:
  assumes "CHR ''/'' \<notin> set a"
  shows "before (CHR ''/'') (a @ rooted_path p) = a" "dropWhile (\<lambda>c. c \<noteq> CHR ''/'') (a @ rooted_path p) = rooted_path p"
proof -
  have "rooted_path p = [] \<or> (\<exists>t. rooted_path p = CHR ''/'' # t)"
    by (cases p) (auto simp: rooted_path_def HasPrefix_single)
  then consider "rooted_path p = []" | t where "rooted_path p = CHR ''/'' # t" by blast
  then show "before (CHR ''/'') (a @ rooted_path p) = a"
    "dropWhile (\<lambda>c. c \<noteq> CHR ''/'') (a @ rooted_path p) = rooted_path p"
    using assms before_after [OF assms]
    by (cases, simp, simp, cases, auto simp: dropWhile_append)
qed

lemma parse_rest_hierarchy:
  assumes "absolute_url u" and "u_Scheme w \<noteq> []"
  shows "\<exists>v. parse_rest (hierarchy u) w = Some v \<and> u_Path v = rooted_path (u_Path u) \<and>
    (\<exists>p r. v = w\<lparr>u_User := u_User u, u_Host := u_Host u, u_Path := p, u_RawPath := r\<rparr>)"
proof -
  let ?a = "(case u_User u of None \<Rightarrow> [] | Some us \<Rightarrow> user_String us @ ''@'') @ escape EncodeHost (u_Host u)"
  have s: "CHR ''/'' \<notin> set ?a" by (rule slash_not_in_authority)
  have h: "HasPrefix (hierarchy u) ''/''" "HasPrefix (hierarchy u) ''//''" "drop 2 (hierarchy u) = ?a @ rooted_path (EscapedPath u)"
    by (simp_all add: hierarchy_def HasPrefix_def)
  have a: "parseAuthority ?a = Some (u_User u, u_Host u)"
    using assms(1) by (intro parseAuthority_String) (simp add: absolute_url_def)
  have r: "parse_rest (hierarchy u) w = setPath (rooted_path (EscapedPath u)) (w\<lparr>u_User := u_User u, u_Host := u_Host u\<rparr>)"
    unfolding parse_rest_def Let_def h(3) rooted_path_split [OF s] a using h(1,2) assms(2) by simp
  show ?thesis
    unfolding r using assms(1) setPath_rooted [of u "w\<lparr>u_User := u_User u, u_Host := u_Host u\<rparr>"]
    by (auto simp: absolute_url_def)
qed

text \<open>Printing an absolute URL and parsing the text again gives its scheme, user, host, path, query
  and fragment back, whatever bytes they consist of; a path that does not begin with a slash gets one,
  and a query is only read back when it holds no control byte and no \<open>#\<close>.\<close>

lemma url_String_absolute:
  assumes "absolute_url u"
  shows "url_String u = u_Scheme u @ CHR '':'' # hierarchy u @
    (if u_ForceQuery u \<or> u_RawQuery u \<noteq> [] then CHR ''?'' # u_RawQuery u else []) @
    (if u_Fragment u \<noteq> [] then CHR ''#'' # EscapedFragment u else [])"
proof -
  have u: "u_Scheme u \<noteq> []" "u_Opaque u = []" "u_Host u \<noteq> []" "u_RawPath u = [] \<or> HasPrefix (u_RawPath u) ''/''"
    using assms by (auto simp: absolute_url_def valid_scheme_def)
  then have "path_String u ((u_Scheme u @ '':'') @ authority_String u) = u_Scheme u @ CHR '':'' # hierarchy u"
    by (simp add: path_String_def authority_String_def hierarchy_def rooted_path_def Let_def)
  then show ?thesis using u by (simp add: url_String_def Let_def)
qed

lemma getScheme_valid:
  assumes "valid_scheme s"
  shows "getScheme (s @ CHR '':'' # t) = Some (s, t)"
proof -
  have s: "s \<noteq> []" "letter (hd s)" "list_all scheme_char s" using assms by (auto simp: valid_scheme_def)
  have c: "\<not> scheme_char (CHR '':'')" by (simp add: scheme_char_def alnum_def is_digit_def)
  have "takeWhile scheme_char (s @ CHR '':'' # t) = s" "dropWhile scheme_char (s @ CHR '':'' # t) = CHR '':'' # t"
    using s(3) c by (simp_all add: list_all_iff)
  moreover have "\<not> HasPrefix (s @ CHR '':'' # t) '':''"
    using s c by (cases s) (auto simp: HasPrefix_single)
  ultimately show ?thesis using s by (simp add: getScheme_def HasPrefix_single)
qed

lemma hierarchy_safe: "x \<in> set (hierarchy u) \<Longrightarrow> \<not> control_byte x \<and> x \<noteq> CHR ''#'' \<and> x \<noteq> CHR ''?''"
proof -
  have "x \<in> set (user_String us) \<Longrightarrow> \<not> control_byte x \<and> x \<noteq> CHR ''#'' \<and> x \<noteq> CHR ''?''" for us
    using escaped_safe [of x EncodeUserPassword] by (auto simp: user_String_def control_byte_def split: option.splits)
  moreover assume "x \<in> set (hierarchy u)"
  ultimately show ?thesis
    using escaped_safe [of x EncodeHost] EscapedPath_safe [of x u]
    by (auto simp: hierarchy_def rooted_path_def control_byte_def split: option.splits if_splits)
qed

lemma scheme_safe: "scheme_char x \<Longrightarrow> \<not> control_byte x \<and> x \<notin> set ''?#''"
  using alnum_safe [of x] by (auto simp: scheme_char_def control_byte_def)

lemma EscapedFragment_unescape: "unescape EncodeFragment (EscapedFragment u) = Some (u_Fragment u)"
proof -
  have "unescape EncodeFragment (escape EncodeFragment (u_Fragment u)) = Some (u_Fragment u)"
    by (rule unescape_escape) simp
  then show ?thesis by (auto simp: EscapedFragment_def)
qed

lemma EscapedFragment_Nil: "u_Fragment u \<noteq> [] \<Longrightarrow> EscapedFragment u \<noteq> []"
  by (auto simp: EscapedFragment_def)

definition query_safe :: "string \<Rightarrow> bool" where
  "query_safe q \<longleftrightarrow> list_all (\<lambda>c. \<not> control_byte c \<and> c \<noteq> CHR ''#'') q"

lemma parse_url_printed:
  assumes "absolute_url u" and "query_safe (u_RawQuery u)"
  shows "\<exists>v. parse_url (u_Scheme u @ CHR '':'' # hierarchy u @
      (if u_ForceQuery u \<or> u_RawQuery u \<noteq> [] then CHR ''?'' # u_RawQuery u else [])) = Some v \<and>
    u_Scheme v = u_Scheme u \<and> u_User v = u_User u \<and> u_Host v = u_Host u \<and> u_Path v = rooted_path (u_Path u) \<and>
    u_RawQuery v = u_RawQuery u \<and> u_Fragment v = [] \<and> u_Opaque v = []"
proof -
  let ?q = "if u_ForceQuery u \<or> u_RawQuery u \<noteq> [] then CHR ''?'' # u_RawQuery u else []"
  let ?raw = "u_Scheme u @ CHR '':'' # hierarchy u @ ?q"
  have sch: "valid_scheme (u_Scheme u)" using assms(1) by (simp add: absolute_url_def)
  then have s: "u_Scheme u \<noteq> []" "list_all scheme_char (u_Scheme u)" "map lower_char (u_Scheme u) = u_Scheme u"
    by (simp_all add: valid_scheme_def)
  have nc: "\<not> list_ex control_byte ?raw"
  proof -
    have "\<not> list_ex control_byte (u_Scheme u)" using s(2) scheme_safe by (auto simp: list_ex_iff list_all_iff)
    moreover have "\<not> list_ex control_byte (hierarchy u)" using hierarchy_safe by (auto simp: list_ex_iff)
    moreover have "\<not> list_ex control_byte (u_RawQuery u)"
      using assms(2) by (auto simp: list_ex_iff list_all_iff query_safe_def)
    moreover have "\<not> control_byte (CHR '':'')" "\<not> control_byte (CHR ''?'')" by (simp_all add: control_byte_def)
    ultimately show ?thesis by simp
  qed
  have g: "getScheme ?raw = Some (u_Scheme u, hierarchy u @ ?q)" by (rule getScheme_valid [OF sch])
  have nq: "CHR ''?'' \<notin> set (hierarchy u)" using hierarchy_safe [of "CHR ''?''" u] by auto
  have star: "?raw \<noteq> ''*''" using s(1) by (cases "u_Scheme u") auto
  define w where "w = zero_url\<lparr>u_Scheme := u_Scheme u\<rparr>"
  have w: "u_Scheme w \<noteq> []" "u_Fragment w = []" "u_Opaque w = []" "u_RawQuery w = []"
    using s(1) by (simp_all add: w_def zero_url_def)
  have p: "parse_url ?raw = (if HasSuffix (hierarchy u @ ?q) ''?'' \<and> CHR ''?'' \<notin> set (butlast (hierarchy u @ ?q))
      then parse_rest (butlast (hierarchy u @ ?q)) (w\<lparr>u_ForceQuery := True\<rparr>)
      else parse_rest (before (CHR ''?'') (hierarchy u @ ?q)) (w\<lparr>u_RawQuery := after (CHR ''?'') (hierarchy u @ ?q)\<rparr>))"
    using nc star by (simp only: parse_url_def g if_False option.case prod.case Let_def s(3) w_def)
  have "\<exists>w'. parse_url ?raw = parse_rest (hierarchy u) w' \<and> u_Scheme w' = u_Scheme u \<and>
      u_RawQuery w' = u_RawQuery u \<and> u_Fragment w' = [] \<and> u_Opaque w' = []"
  proof -
    consider (none) "?q = []" "u_RawQuery u = []" | (force) "?q = ''?''" "u_RawQuery u = []"
      | (query) "?q = CHR ''?'' # u_RawQuery u" "u_RawQuery u \<noteq> []"
      by (cases "u_RawQuery u = []"; cases "u_ForceQuery u") simp_all
    then show ?thesis
    proof cases
      case none
      have "\<not> HasSuffix (hierarchy u) ''?''" using nq by (auto simp: HasSuffix_iff)
      then show ?thesis
        unfolding p unfolding none(1) append_Nil2 before_after(3,4) [OF nq] using none(2) w by (auto simp: w_def)
    next
      case force
      then show ?thesis unfolding p unfolding force(1) using nq w by (auto simp: w_def)
    next
      case query
      have "CHR ''?'' \<in> set (butlast (hierarchy u @ CHR ''?'' # u_RawQuery u))"
        using query(2) by (simp add: butlast_append)
      then show ?thesis
        unfolding p unfolding query(1) before_after(1,2) [OF nq] using w by (auto simp: w_def)
    qed
  qed
  then obtain w' where w': "parse_url ?raw = parse_rest (hierarchy u) w'" "u_Scheme w' = u_Scheme u"
    "u_RawQuery w' = u_RawQuery u" "u_Fragment w' = []" "u_Opaque w' = []" by blast
  then show ?thesis
    using parse_rest_hierarchy [OF assms(1), of w'] s(1) by auto
qed

lemma url_Parse_String:
  assumes "absolute_url u" and "query_safe (u_RawQuery u)"
  shows "\<exists>v. url_Parse (url_String u) = Some v \<and>
    u_Scheme v = u_Scheme u \<and> u_User v = u_User u \<and> u_Host v = u_Host u \<and> u_Path v = rooted_path (u_Path u) \<and>
    u_RawQuery v = u_RawQuery u \<and> u_Fragment v = u_Fragment u \<and> u_Opaque v = []"
proof -
  let ?raw = "u_Scheme u @ CHR '':'' # hierarchy u @
      (if u_ForceQuery u \<or> u_RawQuery u \<noteq> [] then CHR ''?'' # u_RawQuery u else [])"
  obtain v where v: "parse_url ?raw = Some v" "u_Scheme v = u_Scheme u" "u_User v = u_User u" "u_Host v = u_Host u"
    "u_Path v = rooted_path (u_Path u)" "u_RawQuery v = u_RawQuery u" "u_Fragment v = []" "u_Opaque v = []"
    using parse_url_printed [OF assms] by blast
  have "list_all scheme_char (u_Scheme u)" using assms(1) by (simp add: absolute_url_def valid_scheme_def)
  then have nh: "CHR ''#'' \<notin> set ?raw"
    using scheme_safe [of "CHR ''#''"] hierarchy_safe [of "CHR ''#''" u] assms(2)
    by (auto simp: list_all_iff query_safe_def split: if_splits)
  show ?thesis
  proof (cases "u_Fragment u = []")
    case True
    then have "url_String u = ?raw" by (simp add: url_String_absolute [OF assms(1)])
    then show ?thesis
      using v True nh by (simp add: url_Parse_def before_after(3,4) [OF nh] del: append.simps set_append)
  next
    case False
    then have e: "url_String u = ?raw @ CHR ''#'' # EscapedFragment u"
      by (simp add: url_String_absolute [OF assms(1)])
    have "url_Parse (url_String u) = setFragment (EscapedFragment u) v"
      unfolding e url_Parse_def before_after(1,2) [OF nh] v(1) using EscapedFragment_Nil [OF False] by simp
    then show ?thesis using v by (simp add: setFragment_def EscapedFragment_unescape)
  qed
qed

lemma parse_rest_Some:
  assumes "parse_rest rest w = Some u" and "u_Host w = []" and "u_Host u \<noteq> []"
  shows "u_Scheme u = u_Scheme w \<and> u_Opaque u = u_Opaque w \<and> (u_RawPath u = [] \<or> HasPrefix (u_RawPath u) ''/'')"
proof -
  have p: "setPath p v = Some u \<Longrightarrow> u_Scheme u = u_Scheme v \<and> u_Opaque u = u_Opaque v \<and> u_Host u = u_Host v \<and>
      (u_RawPath u = [] \<or> u_RawPath u = p)" for p v
    by (auto simp: setPath_def split: option.splits)
  have s: "dropWhile (\<lambda>c. c \<noteq> CHR ''/'') t = [] \<or> HasPrefix (dropWhile (\<lambda>c. c \<noteq> CHR ''/'') t) ''/''" for t
    by (induction t) (auto simp: HasPrefix_single)
  have "\<not> (\<not> HasPrefix rest ''/'' \<and> u_Scheme w \<noteq> [])"
  proof
    assume "\<not> HasPrefix rest ''/'' \<and> u_Scheme w \<noteq> []"
    then have "parse_rest rest w = Some (w\<lparr>u_Opaque := rest\<rparr>)" by (simp only: parse_rest_def if_True simp_thms)
    then show False using assms by auto
  qed
  moreover have "\<not> (\<not> HasPrefix rest ''/'' \<and> CHR '':'' \<in> set (before (CHR ''/'') rest))"
  proof
    assume "\<not> HasPrefix rest ''/'' \<and> CHR '':'' \<in> set (before (CHR ''/'') rest)"
    with calculation have "parse_rest rest w = None" by (simp only: parse_rest_def if_True if_False simp_thms)
    then show False using assms(1) by simp
  qed
  moreover have "(u_Scheme w \<noteq> [] \<or> \<not> HasPrefix rest ''///'') \<and> HasPrefix rest ''//''"
  proof (rule ccontr)
    assume "\<not> ?thesis"
    then have "setPath rest (w\<lparr>u_OmitHost := (u_Scheme w \<noteq> [] \<and> HasPrefix rest ''/'')\<rparr>) = Some u"
      using assms(1) calculation unfolding parse_rest_def by (simp only: if_False simp_thms)
    from p [OF this] show False using assms(2,3) by simp
  qed
  ultimately have r: "parse_rest rest w = (case parseAuthority (before (CHR ''/'') (drop 2 rest)) of
      None \<Rightarrow> None
    | Some (user, host) \<Rightarrow>
        setPath (dropWhile (\<lambda>c. c \<noteq> CHR ''/'') (drop 2 rest)) (w\<lparr>u_User := user, u_Host := host\<rparr>))"
    unfolding parse_rest_def Let_def by (simp only: if_True if_False simp_thms)
  obtain user host where
    "setPath (dropWhile (\<lambda>c. c \<noteq> CHR ''/'') (drop 2 rest)) (w\<lparr>u_User := user, u_Host := host\<rparr>) = Some u"
    using assms(1) unfolding r
    by (cases "parseAuthority (before (CHR ''/'') (drop 2 rest))") (simp_all split: prod.splits)
  from p [OF this] have "u_Scheme u = u_Scheme w" "u_Opaque u = u_Opaque w"
    and d: "u_RawPath u = [] \<or> u_RawPath u = dropWhile (\<lambda>c. c \<noteq> CHR ''/'') (drop 2 rest)"
    by simp_all
  moreover have "u_RawPath u = [] \<or> HasPrefix (u_RawPath u) ''/''"
    using d s [of "drop 2 rest"] by metis
  ultimately show ?thesis by simp
qed

lemma lower_scheme:
  assumes "s \<noteq> []" and "letter (hd s)" and "list_all scheme_char s"
  shows "valid_scheme (map lower_char s)"
proof -
  have l: "lower_char (lower_char c) = lower_char c" for c
    by (auto simp: lower_char_def)
  have a: "letter c \<Longrightarrow> letter (lower_char c)" "alnum c \<Longrightarrow> alnum (lower_char c)" for c
    by (auto simp: lower_char_def letter_def alnum_def is_digit_def)
  have "c \<in> set ''+-.'' \<Longrightarrow> lower_char c = c" for c
    by (auto simp: lower_char_def)
  then have "scheme_char c \<Longrightarrow> scheme_char (lower_char c)" for c
    unfolding scheme_char_def using a(2) [of c] by metis
  with a(1) show ?thesis using assms l by (cases s) (auto simp: valid_scheme_def list_all_iff)
qed

lemma getScheme_Some:
  "getScheme raw = Some (s, rest) \<Longrightarrow> s \<noteq> [] \<Longrightarrow> letter (hd s) \<and> list_all scheme_char s"
  by (auto simp: getScheme_def Let_def list_all_iff dest: set_takeWhileD split: if_splits)

text \<open>A URL that was parsed and has a scheme and a host can be printed, if its host can.\<close>

lemma url_Parse_absolute:
  assumes "url_Parse raw = Some u" and "u_Scheme u \<noteq> []" and "u_Host u \<noteq> []" and "stable_host (u_Host u)"
  shows "absolute_url u"
proof -
  obtain v where v: "parse_url (before (CHR ''#'') raw) = Some v" "u_Scheme u = u_Scheme v" "u_Host u = u_Host v"
    "u_Opaque u = u_Opaque v" "u_RawPath u = u_RawPath v"
    using assms(1) by (auto simp: url_Parse_def setFragment_def split: option.splits if_splits)
  have ne: "before (CHR ''#'') raw \<noteq> ''*''" 
    using v(1-3) assms(2) by (auto simp: parse_url_def zero_url_def control_byte_def)
  then obtain s rest where g: "getScheme (before (CHR ''#'') raw) = Some (s, rest)"
    using v(1) by (auto simp: parse_url_def split: if_splits option.splits)
  obtain w r where w: "parse_rest r w = Some v" "u_Scheme w = map lower_char s" "u_Host w = []" "u_Opaque w = []"
    using v(1) ne by (auto simp: parse_url_def g zero_url_def Let_def split: if_splits)
  have h: "u_Scheme v = map lower_char s \<and> u_Opaque v = [] \<and> (u_RawPath v = [] \<or> HasPrefix (u_RawPath v) ''/'')"
    using parse_rest_Some [OF w(1,3)] assms(3) v w by simp
  then have "s \<noteq> []" using assms(2) v by auto
  then have "valid_scheme (map lower_char s)" using getScheme_Some [OF g] by (intro lower_scheme) auto
  then show ?thesis using h v assms(3,4) by (simp add: absolute_url_def)
qed

text \<open>Host names and IPv4 addresses, with a port or without.\<close>

definition plain_host :: "string \<Rightarrow> bool" where
  "plain_host h \<longleftrightarrow> list_all (\<lambda>c. alnum c \<or> c \<in> set ''-._~:'') h \<and>
     (case last_index h (CHR '':'') of None \<Rightarrow> True | Some i \<Rightarrow> validOptionalPort (drop i h))"

lemma plain_host_stable: "plain_host h \<Longrightarrow> stable_host h"
proof -
  assume p: "plain_host h"
  have ns: "\<not> shouldEscape c EncodeHost \<and> c \<noteq> CHR ''['' \<and> c \<noteq> CHR ''%''" if "alnum c \<or> c \<in> set ''-._~:''" for c
    using that
  proof
    assume "alnum c"
    then show ?thesis by (auto simp: shouldEscape_def) (auto simp: alnum_def is_digit_def)
  next
    assume "c \<in> set ''-._~:''"
    then show ?thesis by (auto simp: shouldEscape_def)
  qed
  have all: "\<forall>c \<in> set h. alnum c \<or> c \<in> set ''-._~:''" using p by (simp add: plain_host_def list_all_iff)
  then have "escape EncodeHost h = h" using ns by (induction h) (auto simp: escape_def escape_char_def)
  moreover have "unescape EncodeHost h = Some h" using all ns by (induction h) auto
  moreover have "\<not> HasPrefix h ''[''" using all ns by (cases h) (auto simp: HasPrefix_single)
  ultimately show ?thesis
    using p by (auto simp: stable_host_def parseHost_def plain_host_def split: option.splits)
qed

end
