(* ===== verification/Go_Mux.thy ===== *)
theory Go_Mux
  imports Go_Http Go_Url Go_Filepath
begin

text \<open>
  More of \<open>net/http\<close>: a request as a handler sees it, the routing of \<open>ServeMux\<close> and
  \<open>NewRequest\<close>. The patterns of the program are paths without a method, a host or wildcards, and the
  path \<open>/\<close>. A request for \<open>*\<close> never gets to a handler and is left out.
\<close>

record http_request =
  hr_Method :: string
  hr_Path :: string
  hr_RawPath :: string
  hr_RawQuery :: string
  hr_Header :: header
  hr_Body :: string

definition request_path :: "http_request \<Rightarrow> string" where
  "request_path r = EscapedPath (zero_url\<lparr>u_Path := hr_Path r, u_RawPath := hr_RawPath r\<rparr>)"

section \<open>Routing\<close>

definition cleanPath :: "string \<Rightarrow> string" where
  "cleanPath p =
     (if p = [] then ''/''
      else let p = (if HasPrefix p ''/'' then p else ''/'' @ p); np = Clean p
           in if HasSuffix p ''/'' \<and> np \<noteq> ''/'' then np @ ''/'' else np)"

text \<open>The segments of an escaped path, each decoded on its own.\<close>

definition mux_segments :: "string \<Rightarrow> string list" where
  "mux_segments p = map (\<lambda>s. case unescape EncodePath s of None \<Rightarrow> s | Some t \<Rightarrow> t) (Split p ''/'')"

datatype 'h route = MuxRedirect string | MuxNotFound | MuxHandler 'h

fun find_route :: "string list \<Rightarrow> (string \<times> 'h) list \<Rightarrow> 'h option" where
  "find_route segments [] = None"
| "find_route segments ((pattern, h) # routes) =
     (if segments = Split pattern ''/'' then Some h else find_route segments routes)"

text \<open>The routes, and the handler of \<open>/\<close> if there is one: it gets what no other pattern matches.\<close>

definition ServeMux :: "(string \<times> 'h) list \<Rightarrow> 'h option \<Rightarrow> http_request \<Rightarrow> 'h route" where
  "ServeMux routes root r =
     (let e = request_path r; p = (if hr_Method r = ''CONNECT'' then e else cleanPath e)
      in if p \<noteq> e then MuxRedirect (url_String (zero_url\<lparr>u_Path := p, u_RawQuery := hr_RawQuery r\<rparr>))
         else case find_route (mux_segments p) routes of
           Some h \<Rightarrow> MuxHandler h
         | None \<Rightarrow>
             (case root of
                Some h \<Rightarrow> if HasPrefix p ''/'' then MuxHandler h else MuxNotFound
              | None \<Rightarrow> MuxNotFound))"

section \<open>Requests\<close>

text \<open>A URL's host without the colon of an empty port.\<close>

definition removeEmptyPort :: "string \<Rightarrow> string" where
  "removeEmptyPort host =
     (case (last_index host (CHR '':''), last_index host (CHR '']'')) of
        (None, _) \<Rightarrow> host
      | (Some i, None) \<Rightarrow> TrimSuffix host '':''
      | (Some i, Some j) \<Rightarrow> if j < i then TrimSuffix host '':'' else host)"

text \<open>\<open>NewRequest\<close>: the method and the URL of the request, or an error.\<close>

definition NewRequest :: "string \<Rightarrow> string \<Rightarrow> (string \<times> url) option" where
  "NewRequest mth url_text =
     (let mth = (if mth = [] then ''GET'' else mth)
      in if \<not> list_all header_byte mth then None
         else map_option (\<lambda>u. (mth, u\<lparr>u_Host := removeEmptyPort (u_Host u)\<rparr>)) (url_Parse url_text))"

section \<open>Facts\<close>

lemma find_route_mem: "find_route segments routes = Some h \<Longrightarrow> h \<in> snd ` set routes"
  by (induction segments routes rule: find_route.induct) (auto split: if_splits)

text \<open>A route is only taken on a path that was clean as it came.\<close>

lemma ServeMux_handler:
  "ServeMux routes root r = MuxHandler h \<Longrightarrow>
     (h \<in> snd ` set routes \<or> root = Some h) \<and>
     (hr_Method r = ''CONNECT'' \<or> cleanPath (request_path r) = request_path r)"
  by (auto simp: ServeMux_def Let_def dest: find_route_mem split: option.splits if_splits)

lemmas mux_eval [go_eval] = request_path_def cleanPath_def mux_segments_def ServeMux_def
  removeEmptyPort_def NewRequest_def

end
