(* ===== verification/Telemetry.thy ===== *)
theory Telemetry
  imports Go_Mux
begin

text \<open>
  \<open>internal/observability/telemetry.go\<close> and \<open>logging.go\<close>: the in-memory store of request
  telemetry with its retention, the record built for a request, the classification of proxy
  errors, the log entry of a request and the redaction of log attributes.

  A nil store is \<open>None\<close>. Its lock makes every method atomic, so the behaviours of concurrent
  callers are the sequences of method calls: the steps of \<open>telemetry_step\<close>.
\<close>

definition ErrorKindNone :: string where "ErrorKindNone = ''none''"
definition ErrorKindProxyError :: string where "ErrorKindProxyError = ''proxy_error''"
definition ErrorKindUpstreamStatus :: string where "ErrorKindUpstreamStatus = ''upstream_status''"

record request_telemetry =
  rt_RequestID :: string
  rt_SessionID :: string
  rt_Provider :: string
  rt_Method :: string
  rt_Route :: string
  rt_QueryPresent :: bool
  rt_Status :: int
  rt_Latency :: duration
  rt_ErrorKind :: string
  rt_InputTokens :: int
  rt_OutputTokens :: int
  rt_StartedAt :: time
  rt_PromptPreview :: string
  rt_CredentialHint :: string

record telemetry_policy =
  tp_MaxRecords :: int
  tp_MaxAge :: duration

record telemetry_store =
  ts_records :: "request_telemetry list"
  ts_policy :: telemetry_policy

record telemetry_cleanup =
  tc_DryRun :: bool
  tc_WouldRemove :: int
  tc_Removed :: int
  tc_Kept :: int

section \<open>Retention\<close>

definition DefaultRetentionPolicy :: telemetry_policy where
  "DefaultRetentionPolicy = \<lparr>tp_MaxRecords = 1000, tp_MaxAge = 24 * 3600000000000\<rparr>"

definition normalizeRetentionPolicy :: "telemetry_policy \<Rightarrow> telemetry_policy" where
  "normalizeRetentionPolicy policy =
     (let policy = (if tp_MaxRecords policy \<le> 0
            then policy\<lparr>tp_MaxRecords := tp_MaxRecords DefaultRetentionPolicy\<rparr> else policy);
          policy = (if tp_MaxAge policy \<le> 0
            then policy\<lparr>tp_MaxAge := tp_MaxAge DefaultRetentionPolicy\<rparr> else policy)
      in policy)"

definition too_old :: "telemetry_policy \<Rightarrow> time \<Rightarrow> request_telemetry \<Rightarrow> bool" where
  "too_old policy now r \<longleftrightarrow>
     0 < tp_MaxAge policy \<and> rt_StartedAt r \<noteq> 0 \<and> rt_StartedAt r < now - tp_MaxAge policy"

definition applyRetentionPolicy ::
  "request_telemetry list \<Rightarrow> telemetry_policy \<Rightarrow> time \<Rightarrow> request_telemetry list" where
  "applyRetentionPolicy records policy now =
     (let policy = normalizeRetentionPolicy policy;
          kept = filter (\<lambda>r. \<not> too_old policy now r) records
      in if 0 < tp_MaxRecords policy \<and> tp_MaxRecords policy < int (length kept)
         then drop (length kept - nat (tp_MaxRecords policy)) kept else kept)"

section \<open>The store\<close>

text \<open>An option is a change of the store; \<open>None\<close> is a nil option.\<close>

type_synonym retention_option = "telemetry_store \<Rightarrow> telemetry_store"

definition WithRetentionPolicy :: "telemetry_policy \<Rightarrow> retention_option" where
  "WithRetentionPolicy policy = (\<lambda>s. s\<lparr>ts_policy := normalizeRetentionPolicy policy\<rparr>)"

definition NewMemoryTelemetryStore :: "retention_option option list \<Rightarrow> telemetry_store" where
  "NewMemoryTelemetryStore options =
     fold (\<lambda>opt store. case opt of None \<Rightarrow> store | Some f \<Rightarrow> f store) options
       \<lparr>ts_records = [], ts_policy = DefaultRetentionPolicy\<rparr>"

definition Record :: "telemetry_store option \<Rightarrow> request_telemetry \<Rightarrow> telemetry_store option" where
  "Record s r =
     (case s of
        None \<Rightarrow> None
      | Some st \<Rightarrow>
          Some (st\<lparr>ts_records := ts_records st @ [r\<lparr>rt_PromptPreview := [], rt_CredentialHint := []\<rparr>]\<rparr>))"

definition Snapshot :: "telemetry_store option \<Rightarrow> request_telemetry list" where
  "Snapshot s = (case s of None \<Rightarrow> [] | Some st \<Rightarrow> ts_records st)"

definition RetentionPolicy :: "telemetry_store option \<Rightarrow> telemetry_policy" where
  "RetentionPolicy s = (case s of None \<Rightarrow> DefaultRetentionPolicy | Some st \<Rightarrow> ts_policy st)"

definition CleanupTelemetry ::
  "telemetry_store option \<Rightarrow> time \<Rightarrow> bool \<Rightarrow> telemetry_cleanup \<times> telemetry_store option" where
  "CleanupTelemetry s now confirm =
     (case s of
        None \<Rightarrow> (\<lparr>tc_DryRun = \<not> confirm, tc_WouldRemove = 0, tc_Removed = 0, tc_Kept = 0\<rparr>, None)
      | Some st \<Rightarrow>
          let kept = applyRetentionPolicy (ts_records st) (ts_policy st) now;
              removed = int (length (ts_records st)) - int (length kept);
              result = \<lparr>tc_DryRun = \<not> confirm, tc_WouldRemove = removed, tc_Removed = 0,
                        tc_Kept = int (length kept)\<rparr>
          in if confirm then (result\<lparr>tc_Removed := removed\<rparr>, Some (st\<lparr>ts_records := kept\<rparr>))
             else (result, s))"

section \<open>Records and log entries of a request\<close>

fun firstHeader :: "header \<Rightarrow> string list \<Rightarrow> string" where
  "firstHeader h [] = []"
| "firstHeader h (name # names) =
     (if header_Get h name \<noteq> [] then header_Get h name else firstHeader h names)"

definition providerFromPath :: "string \<Rightarrow> string" where
  "providerFromPath path =
     (if path = ''/v1/messages'' then ''anthropic''
      else if path = ''/v1/chat/completions'' \<or> path = ''/v1/responses'' then ''openai''
      else [])"

definition BuildRequestTelemetry ::
  "http_request option \<Rightarrow> int \<Rightarrow> duration \<Rightarrow> time \<Rightarrow> string \<Rightarrow> request_telemetry" where
  "BuildRequestTelemetry req status latency startedAt errKind =
     (let record = \<lparr>rt_RequestID = [], rt_SessionID = [], rt_Provider = [], rt_Method = [],
            rt_Route = [], rt_QueryPresent = False, rt_Status = status, rt_Latency = latency,
            rt_ErrorKind = errKind, rt_InputTokens = 0, rt_OutputTokens = 0,
            rt_StartedAt = startedAt, rt_PromptPreview = [], rt_CredentialHint = []\<rparr>
      in case req of
           None \<Rightarrow> record
         | Some r \<Rightarrow> record\<lparr>
             rt_RequestID := firstHeader (hr_Header r) [''X-Request-Id'', ''X-Request-ID''],
             rt_SessionID := firstHeader (hr_Header r) [''X-Cachy-Session-Id'', ''X-Session-Id''],
             rt_Provider := providerFromPath (hr_Path r),
             rt_Method := hr_Method r,
             rt_Route := hr_Path r,
             rt_QueryPresent := (hr_RawQuery r \<noteq> [])\<rparr>)"

definition ClassifyProxyError :: "int \<Rightarrow> error option \<Rightarrow> string" where
  "ClassifyProxyError status err =
     (if err \<noteq> None then ErrorKindProxyError
      else if 500 \<le> status then ErrorKindUpstreamStatus
      else ErrorKindNone)"

text \<open>The attributes \<open>LogRequest\<close> hands to the logger, values as the log shows them.\<close>

datatype log_value = LogString string | LogBool bool | LogInt int

record request_log =
  rl_Request :: "http_request option"
  rl_Status :: int
  rl_Latency :: duration
  rl_ErrorKind :: string

type_synonym log_entry = "string \<times> (string \<times> log_value) list"

text \<open>A logger is the entries it has written; \<open>None\<close> is a nil logger.\<close>

definition LogRequest :: "log_entry list option \<Rightarrow> request_log \<Rightarrow> log_entry list option" where
  "LogRequest logger entry =
     (case (logger, rl_Request entry) of
        (Some out, Some r) \<Rightarrow> Some (out @ [(''provider request'',
          [(''method'', LogString (hr_Method r)),
           (''path'', LogString (hr_Path r)),
           (''query_present'', LogBool (hr_RawQuery r \<noteq> [])),
           (''status'', LogInt (rl_Status entry)),
           (''latency_ms'', LogInt (Milliseconds (rl_Latency entry))),
           (''error_kind'', LogString (rl_ErrorKind entry))])])
      | _ \<Rightarrow> logger)"

section \<open>Redaction\<close>

definition RedactedValue :: string where "RedactedValue = ''<redacted>''"

definition sensitiveKey :: "unicode_tables \<Rightarrow> string \<Rightarrow> bool" where
  "sensitiveKey T key \<longleftrightarrow>
     (let normalized = ToLower T key
      in Contains normalized ''authorization'' \<or> Contains normalized ''api_key'' \<or>
         Contains normalized ''api-key'' \<or> Contains normalized ''token'' \<or>
         Contains normalized ''secret'' \<or> Contains normalized ''cookie'' \<or>
         Contains normalized ''prompt'')"

definition RedactAttr :: "unicode_tables \<Rightarrow> string \<times> log_value \<Rightarrow> string \<times> log_value" where
  "RedactAttr T attr = (if sensitiveKey T (fst attr) then (fst attr, LogString RedactedValue) else attr)"

section \<open>Facts\<close>

lemma normalize_pos:
  "0 < tp_MaxRecords (normalizeRetentionPolicy p)" "0 < tp_MaxAge (normalizeRetentionPolicy p)"
  by (auto simp: normalizeRetentionPolicy_def DefaultRetentionPolicy_def Let_def)

lemma normalize_idem: "normalizeRetentionPolicy (normalizeRetentionPolicy p) = normalizeRetentionPolicy p"
  using normalize_pos [of p] by (subst normalizeRetentionPolicy_def) (simp add: Let_def)

lemma applyRetentionPolicy_eq:
  "applyRetentionPolicy records policy now =
     (let fresh = filter (\<lambda>r. \<not> too_old (normalizeRetentionPolicy policy) now r) records
      in drop (length fresh - nat (tp_MaxRecords (normalizeRetentionPolicy policy))) fresh)"
  using normalize_pos [of policy] by (auto simp: applyRetentionPolicy_def Let_def)

lemma applyRetentionPolicy_idem:
  "applyRetentionPolicy (applyRetentionPolicy rs p now) p now = applyRetentionPolicy rs p now"
proof -
  have "filter (\<lambda>r. \<not> too_old q now r) (drop n (filter (\<lambda>r. \<not> too_old q now r) rs)) =
      drop n (filter (\<lambda>r. \<not> too_old q now r) rs)" for q n
    by (rule filter_True) (auto dest: in_set_dropD)
  then show ?thesis by (simp add: applyRetentionPolicy_eq Let_def)
qed

section \<open>Reachable stores\<close>

text \<open>The stores that calls of \<open>Record\<close> and \<open>Cleanup\<close>, in any order, lead to.\<close>

inductive telemetry_reach :: "telemetry_store \<Rightarrow> telemetry_store \<Rightarrow> bool" for st0 where
  start: "telemetry_reach st0 st0"
| record_call: "telemetry_reach st0 st \<Longrightarrow> Record (Some st) r = Some st' \<Longrightarrow> telemetry_reach st0 st'"
| cleanup_call: "telemetry_reach st0 st \<Longrightarrow> CleanupTelemetry (Some st) now confirm = (res, Some st') \<Longrightarrow>
     telemetry_reach st0 st'"

inductive_cases telemetry_reach_cases: "telemetry_reach st0 st"

definition scrubbed :: "request_telemetry \<Rightarrow> bool" where
  "scrubbed r \<longleftrightarrow> rt_PromptPreview r = [] \<and> rt_CredentialHint r = []"

lemma Record_records:
  "Record (Some st) r = Some st' \<Longrightarrow>
     ts_records st' = ts_records st @ [r\<lparr>rt_PromptPreview := [], rt_CredentialHint := []\<rparr>] \<and>
     ts_policy st' = ts_policy st"
  by (auto simp: Record_def)

lemma applyRetentionPolicy_set: "r \<in> set (applyRetentionPolicy rs p now) \<Longrightarrow> r \<in> set rs"
  by (auto simp: applyRetentionPolicy_eq Let_def dest: in_set_dropD)

lemma CleanupTelemetry_records:
  "CleanupTelemetry (Some st) now confirm = (res, Some st') \<Longrightarrow>
     ts_records st' = (if confirm then applyRetentionPolicy (ts_records st) (ts_policy st) now else ts_records st) \<and>
     ts_policy st' = ts_policy st"
  by (auto simp: CleanupTelemetry_def Let_def split: if_splits)

lemma NewMemoryTelemetryStore_empty:
  "ts_records (NewMemoryTelemetryStore (map (map_option WithRetentionPolicy) policies)) = []"
proof -
  have "ts_records (fold (\<lambda>opt store. case opt of None \<Rightarrow> store | Some f \<Rightarrow> f store)
      (map (map_option WithRetentionPolicy) policies) s) = ts_records s" for s
    by (induction policies arbitrary: s) (auto simp: WithRetentionPolicy_def split: option.split)
  then show ?thesis by (simp add: NewMemoryTelemetryStore_def)
qed

section \<open>Properties\<close>

text \<open>C13. Whatever records callers hand in and however they clean up, no record a telemetry store
  ever holds, and so none its snapshot shows, carries a prompt preview or a credential hint.\<close>

theorem telemetry_never_holds_secrets:
  assumes "telemetry_reach (NewMemoryTelemetryStore (map (map_option WithRetentionPolicy) policies)) st"
  shows "\<forall>r \<in> set (Snapshot (Some st)). scrubbed r"
proof -
  have "\<forall>r \<in> set (ts_records st). scrubbed r"
    using assms
  proof (induction rule: telemetry_reach.induct)
    case start
    then show ?case by (simp add: NewMemoryTelemetryStore_empty)
  next
    case (record_call st r st')
    then show ?case
      using Record_records [OF record_call.hyps(2)] by (auto simp: scrubbed_def)
  next
    case (cleanup_call st now confirm res st')
    then show ?case
      using CleanupTelemetry_records [OF cleanup_call.hyps(2)]
      by (auto dest: applyRetentionPolicy_set split: if_splits)
  qed
  then show ?thesis by (simp add: Snapshot_def)
qed

definition leaky_record :: request_telemetry where
  "leaky_record = (BuildRequestTelemetry None 200 5 7 ErrorKindNone)\<lparr>rt_PromptPreview := ''secret''\<rparr>"

lemma telemetry_never_holds_secrets_witness:
  "list_all scrubbed (Snapshot (Record (Some (NewMemoryTelemetryStore [])) leaky_record))"
proof -
  obtain st where st: "Record (Some (NewMemoryTelemetryStore [])) leaky_record = Some st"
    by (auto simp: Record_def)
  have "telemetry_reach (NewMemoryTelemetryStore (map (map_option WithRetentionPolicy) [])) st"
    using telemetry_reach.record_call [OF telemetry_reach.start st] by simp
  from telemetry_never_holds_secrets [OF this] show ?thesis by (simp add: st list_all_iff)
qed

text \<open>A telemetry cleanup keeps, in order, the newest of the records that are not too old, up to
  the policy's number (unset limits being the defaults), reports the numbers removed and kept,
  changes nothing without confirmation, and has nothing left to do when run again.\<close>

theorem CleanupTelemetry_retention:
  "case CleanupTelemetry (Some st) now confirm of (res, st') \<Rightarrow>
     (let policy = normalizeRetentionPolicy (ts_policy st);
          fresh = filter (\<lambda>r. \<not> too_old policy now r) (ts_records st);
          kept = drop (length fresh - nat (tp_MaxRecords policy)) fresh
      in st' = Some (if confirm then st\<lparr>ts_records := kept\<rparr> else st) \<and>
         int (length kept) = min (int (length fresh)) (tp_MaxRecords policy) \<and>
         tc_Kept res = int (length kept) \<and> tc_WouldRemove res = int (length (ts_records st)) - int (length kept) \<and>
         tc_Removed res = (if confirm then tc_WouldRemove res else 0) \<and> tc_DryRun res = (\<not> confirm) \<and>
         tc_WouldRemove (fst (CleanupTelemetry (Some (st\<lparr>ts_records := kept\<rparr>)) now confirm)) = 0)"
proof -
  let ?p = "normalizeRetentionPolicy (ts_policy st)"
  let ?fresh = "filter (\<lambda>r. \<not> too_old ?p now r) (ts_records st)"
  let ?kept = "drop (length ?fresh - nat (tp_MaxRecords ?p)) ?fresh"
  have k: "applyRetentionPolicy (ts_records st) (ts_policy st) now = ?kept"
    by (simp add: applyRetentionPolicy_eq Let_def)
  have "int (length ?kept) = min (int (length ?fresh)) (tp_MaxRecords ?p)"
    using normalize_pos(1) [of "ts_policy st"] by auto
  then show ?thesis
    using applyRetentionPolicy_idem [of "ts_records st" "ts_policy st" now]
    by (simp add: CleanupTelemetry_def Let_def k)
qed

text \<open>The telemetry of a request depends on its method, path, the presence of a query and its
  request and session identifiers only: no other header, no body and no query value can reach it,
  and prompt and credential fields stay empty.\<close>

theorem BuildRequestTelemetry_noninterference:
  assumes "hr_Method r = hr_Method r'" and "hr_Path r = hr_Path r'"
    and "(hr_RawQuery r = []) = (hr_RawQuery r' = [])"
    and "\<forall>k \<in> set [''X-Request-Id'', ''X-Request-ID'', ''X-Cachy-Session-Id'', ''X-Session-Id''].
      header_Get (hr_Header r) k = header_Get (hr_Header r') k"
  shows "BuildRequestTelemetry (Some r) status latency started kind =
      BuildRequestTelemetry (Some r') status latency started kind \<and>
    scrubbed (BuildRequestTelemetry (Some r) status latency started kind)"
  using assms by (simp add: BuildRequestTelemetry_def Let_def scrubbed_def)

lemma BuildRequestTelemetry_noninterference_witness:
  "BuildRequestTelemetry (Some \<lparr>hr_Method = ''POST'', hr_Path = ''/v1/messages'', hr_RawPath = [], hr_RawQuery = ''a=1'',
       hr_Header = [(''Authorization'', [''Bearer k'']), (''X-Request-Id'', [''7''])], hr_Body = ''hello''\<rparr>) 200 5 9 ''none'' =
   BuildRequestTelemetry (Some \<lparr>hr_Method = ''POST'', hr_Path = ''/v1/messages'', hr_RawPath = [], hr_RawQuery = ''b'',
       hr_Header = [(''X-Request-Id'', [''7''])], hr_Body = []\<rparr>) 200 5 9 ''none''"
  by (rule conjunct1 [OF BuildRequestTelemetry_noninterference]) (simp_all add: go_eval)

text \<open>A log attribute whose key names a credential, cookie or prompt in any letter case is
  logged with the redaction mark in place of its value.\<close>

theorem RedactAttr_redacts:
  assumes "ascii key"
    and "\<exists>w \<in> set [''authorization'', ''api_key'', ''api-key'', ''token'', ''secret'', ''cookie'', ''prompt''].
      Contains (map lower_char key) w"
  shows "RedactAttr T (key, v) = (key, LogString RedactedValue)"
  using assms by (auto simp: RedactAttr_def sensitiveKey_def ToLower_ascii Let_def)

lemma RedactAttr_redacts_witness:
  "RedactAttr ascii_tables (''X-Admin-TOKEN'', LogString ''abc'') = (''X-Admin-TOKEN'', LogString RedactedValue)"
  by (rule RedactAttr_redacts) (simp_all add: go_eval)

end
