(* ===== verification/Proxy.thy ===== *)
theory Proxy
  imports Telemetry
begin

text \<open>
  \<open>internal/proxy\<close>: header filtering, path joining and the transparent proxy handler. What the
  network does in one request is the record \<open>upstream_env\<close>: the answer of \<open>client.Do\<close>, the error that ends the copy of the body, and the three clock readings; it also holds
  the text of the error of a request that cannot be built.
  The handler's effect is the response it writes, the request it sends upstream, the log entry
  and the telemetry record.
\<close>

section \<open>Headers\<close>

definition redactedHeaderValue :: string where "redactedHeaderValue = ''<redacted>''"

definition hopByHopHeader :: "unicode_tables \<Rightarrow> string \<Rightarrow> bool" where
  "hopByHopHeader T key \<longleftrightarrow>
     ToLower T key \<in> set [''connection'', ''keep-alive'', ''proxy-authenticate'', ''proxy-authorization'',
       ''te'', ''trailer'', ''transfer-encoding'', ''upgrade'']"

definition proxyProvenanceHeader :: "unicode_tables \<Rightarrow> string \<Rightarrow> bool" where
  "proxyProvenanceHeader T key \<longleftrightarrow>
     ToLower T key \<in> set [''forwarded'', ''via'', ''x-forwarded-for'', ''x-forwarded-host'',
       ''x-forwarded-proto'', ''x-real-ip'']"

definition requestTransportHeader :: "unicode_tables \<Rightarrow> string \<Rightarrow> bool" where
  "requestTransportHeader T key \<longleftrightarrow> ToLower T key = ''content-length''"

definition safeRequestHeader :: "unicode_tables \<Rightarrow> string \<Rightarrow> bool" where
  "safeRequestHeader T key \<longleftrightarrow>
     \<not> hopByHopHeader T key \<and> \<not> proxyProvenanceHeader T key \<and> \<not> requestTransportHeader T key"

definition sensitiveHeader :: "unicode_tables \<Rightarrow> string \<Rightarrow> bool" where
  "sensitiveHeader T key \<longleftrightarrow>
     ToLower T key \<in> set [''authorization'', ''proxy-authorization'', ''x-api-key'', ''api-key'',
       ''cookie'', ''set-cookie'']"

definition redactHeaderValuesForLog :: "unicode_tables \<Rightarrow> string \<Rightarrow> string list \<Rightarrow> string list" where
  "redactHeaderValuesForLog T key values =
     (if \<not> sensitiveHeader T key then values else map (\<lambda>_. redactedHeaderValue) values)"

fun copyHeadersWithPolicy :: "header \<Rightarrow> header \<Rightarrow> (string \<Rightarrow> bool) \<Rightarrow> header" where
  "copyHeadersWithPolicy dst [] incl = dst"
| "copyHeadersWithPolicy dst ((key, values) # src) incl =
     (if \<not> incl key then copyHeadersWithPolicy dst src incl
      else copyHeadersWithPolicy (fold (\<lambda>v h. header_Add h key v) values dst) src incl)"

definition copyRequestHeaders :: "unicode_tables \<Rightarrow> header \<Rightarrow> header \<Rightarrow> header" where
  "copyRequestHeaders T dst src = copyHeadersWithPolicy dst src (safeRequestHeader T)"

definition copyHeaders :: "unicode_tables \<Rightarrow> header \<Rightarrow> header \<Rightarrow> header" where
  "copyHeaders T dst src = copyHeadersWithPolicy dst src (\<lambda>key. \<not> hopByHopHeader T key)"

section \<open>Paths\<close>

definition joinPath :: "string \<Rightarrow> string \<Rightarrow> string" where
  "joinPath basePath requestPath =
     (let basePath = TrimRight basePath ''/''
      in if basePath = [] then requestPath
         else if requestPath = [] \<or> requestPath = ''/'' then basePath
         else basePath @ ''/'' @ TrimLeft requestPath ''/'')"

definition upstreamURL :: "url \<Rightarrow> http_request \<Rightarrow> url" where
  "upstreamURL target r =
     target\<lparr>u_Path := joinPath (u_Path target) (hr_Path r), u_RawQuery := hr_RawQuery r\<rparr>"

section \<open>The handler\<close>

record http_response =
  hp_Status :: int
  hp_Header :: header
  hp_Body :: string

text \<open>A request sent upstream: method, URL, the \<open>Host\<close> it names, headers and body.\<close>

record upstream_request =
  ur_Method :: string
  ur_URL :: url
  ur_Host :: string
  ur_Header :: header
  ur_Body :: string

record upstream_env =
  ue_RequestError :: error
  ue_Do :: "upstream_request \<Rightarrow> error + http_response"
  ue_CopyError :: "(nat \<times> error) option"
  ue_Started :: time
  ue_LogLatency :: duration
  ue_Latency :: duration

record proxy_effect =
  pe_Sent :: "upstream_request option"
  pe_Response :: http_response
  pe_Flushes :: bool
  pe_Logger :: "log_entry list option"
  pe_Telemetry :: "telemetry_store option"

text \<open>\<open>http.Error\<close>: the message as plain text, under the headers it sets.\<close>

definition http_Error :: "header \<Rightarrow> string \<Rightarrow> int \<Rightarrow> http_response" where
  "http_Error h msg status =
     \<lparr>hp_Status = status,
      hp_Header = [(''Content-Type'', [''text/plain; charset=utf-8'']),
                   (''X-Content-Type-Options'', [''nosniff''])] @
        filter (\<lambda>kv. fst kv \<notin> {''Content-Type'', ''X-Content-Type-Options'', ''Content-Length''}) h,
      hp_Body = msg @ [NL]\<rparr>"

definition recordTelemetry ::
  "telemetry_store option \<Rightarrow> http_request \<Rightarrow> int \<Rightarrow> duration \<Rightarrow> time \<Rightarrow> string \<Rightarrow> telemetry_store option"
where
  "recordTelemetry telemetry r status latency startedAt errKind =
     (if telemetry = None then None
      else Record telemetry (BuildRequestTelemetry (Some r) status latency startedAt errKind))"

definition event_stream :: "unicode_tables \<Rightarrow> header \<Rightarrow> bool" where
  "event_stream T h = HasPrefix (ToLower T (header_Get h ''Content-Type'')) ''text/event-stream''"

definition log_request_of :: "upstream_env \<Rightarrow> http_request \<Rightarrow> int \<Rightarrow> string \<Rightarrow> request_log" where
  "log_request_of env r status kind = \<lparr>rl_Request = Some r, rl_Status = status,
     rl_Latency = ue_LogLatency env, rl_ErrorKind = kind\<rparr>"

definition bad_gateway ::
  "upstream_env \<Rightarrow> log_entry list option \<Rightarrow> telemetry_store option \<Rightarrow> upstream_request option \<Rightarrow>
   http_request \<Rightarrow> error \<Rightarrow> proxy_effect" where
  "bad_gateway env logger telemetry sent r err =
     \<lparr>pe_Sent = sent,
      pe_Response = http_Error [] err 502,
      pe_Flushes = False,
      pe_Logger = LogRequest logger (log_request_of env r 502 ErrorKindProxyError),
      pe_Telemetry = recordTelemetry telemetry r 502 (ue_Latency env) (ue_Started env) ErrorKindProxyError\<rparr>"

definition transparentProxy ::
  "unicode_tables \<Rightarrow> url \<Rightarrow> log_entry list option \<Rightarrow> telemetry_store option \<Rightarrow> upstream_env \<Rightarrow>
   http_request \<Rightarrow> proxy_effect" where
  "transparentProxy T target logger telemetry env r =
     (let up = upstreamURL target r
      in case NewRequest (hr_Method r) (url_String up) of
        None \<Rightarrow> bad_gateway env logger telemetry None r (ue_RequestError env)
      | Some (mth, sent) \<Rightarrow>
          let req = \<lparr>ur_Method = mth, ur_URL = sent, ur_Host = u_Host up,
                     ur_Header = copyRequestHeaders T [] (hr_Header r), ur_Body = hr_Body r\<rparr>
          in (case ue_Do env req of
                Inl err \<Rightarrow> bad_gateway env logger telemetry (Some req) r err
              | Inr resp \<Rightarrow>
                  let copyErr = map_option snd (ue_CopyError env);
                      body = (case ue_CopyError env of None \<Rightarrow> hp_Body resp | Some (n, _) \<Rightarrow> take n (hp_Body resp));
                      kind = ClassifyProxyError (hp_Status resp) copyErr
                  in \<lparr>pe_Sent = Some req,
                      pe_Response = \<lparr>hp_Status = hp_Status resp,
                        hp_Header = copyHeaders T [] (hp_Header resp), hp_Body = body\<rparr>,
                      pe_Flushes = event_stream T (hp_Header resp),
                      pe_Logger = LogRequest logger (log_request_of env r (hp_Status resp) kind),
                      pe_Telemetry = recordTelemetry telemetry r (hp_Status resp) (ue_Latency env)
                        (ue_Started env) kind\<rparr>))"

definition healthz :: http_response where
  "healthz = \<lparr>hp_Status = 200, hp_Header = [(''Content-Type'', [''text/plain; charset=utf-8''])],
     hp_Body = ''ok'' @ [NL]\<rparr>"

section \<open>The routes\<close>

definition parseTargetBaseURL :: "string \<Rightarrow> error + url" where
  "parseTargetBaseURL raw =
     (case url_Parse (TrimRight raw ''/'') of
        None \<Rightarrow> Inl ''parse error''
      | Some target \<Rightarrow>
          if u_Scheme target = [] \<or> u_Host target = []
          then Inl ''target base URL must include scheme and host'' else Inr target)"

text \<open>A reply the server gives without asking upstream: it is neither logged nor recorded. The short
  page that comes with a redirect is left out.\<close>

definition local_effect :: "log_entry list option \<Rightarrow> telemetry_store option \<Rightarrow> http_response \<Rightarrow> proxy_effect" where
  "local_effect logger telemetry resp = \<lparr>pe_Sent = None, pe_Response = resp, pe_Flushes = False,
     pe_Logger = logger, pe_Telemetry = telemetry\<rparr>"

definition redirect_response :: "string \<Rightarrow> http_response" where
  "redirect_response location = \<lparr>hp_Status = 301, hp_Header = [(''Location'', [location])], hp_Body = []\<rparr>"

datatype proxy_route = HealthRoute | TransparentRoute

definition proxy_mux :: "http_request \<Rightarrow> proxy_route route" where
  "proxy_mux = ServeMux [(''/healthz'', HealthRoute)] (Some TransparentRoute)"

record proxy_config =
  pc_TargetBaseURL :: string
  pc_Logger :: "log_entry list option"
  pc_Telemetry :: "telemetry_store option"

definition serve_proxy ::
  "unicode_tables \<Rightarrow> url \<Rightarrow> proxy_config \<Rightarrow> upstream_env \<Rightarrow> http_request \<Rightarrow> proxy_effect" where
  "serve_proxy T target config env r =
     (let reply = local_effect (pc_Logger config) (pc_Telemetry config)
      in case proxy_mux r of
        MuxRedirect location \<Rightarrow> reply (redirect_response location)
      | MuxNotFound \<Rightarrow> reply (http_Error [] ''404 page not found'' 404)
      | MuxHandler HealthRoute \<Rightarrow> reply healthz
      | MuxHandler TransparentRoute \<Rightarrow>
          transparentProxy T target (pc_Logger config) (pc_Telemetry config) env r)"

definition New_proxy ::
  "unicode_tables \<Rightarrow> proxy_config \<Rightarrow> error + (upstream_env \<Rightarrow> http_request \<Rightarrow> proxy_effect)" where
  "New_proxy T config =
     (case parseTargetBaseURL (pc_TargetBaseURL config) of
        Inl err \<Rightarrow> Inl err
      | Inr target \<Rightarrow> Inr (serve_proxy T target config))"

section \<open>Filtering\<close>

lemma header_values_Nil [simp]: "header_values [] k = []"
  by (simp add: header_values_def)

lemma header_values_fold_Add:
  "header_values (fold (\<lambda>v h. header_Add h key v) values h) k =
     header_values h k @ (if CanonicalHeaderKey key = k then values else [])"
  by (induction "values" arbitrary: h) (auto simp: header_Add_def)

lemma header_values_copy:
  "header_values (copyHeadersWithPolicy dst src incl) k =
     header_values dst k @
       concat (map snd (filter (\<lambda>kv. CanonicalHeaderKey (fst kv) = k \<and> incl (fst kv)) src))"
  by (induction dst src incl rule: copyHeadersWithPolicy.induct) (simp_all add: header_values_fold_Add)

lemma concat_map_empty: "(\<And>x. x \<in> set xs \<Longrightarrow> False) \<Longrightarrow> concat (map f xs) = []"
  by (cases xs) auto

lemma safe_canonical: "safeRequestHeader T (CanonicalHeaderKey k) = safeRequestHeader T k"
  "hopByHopHeader T (CanonicalHeaderKey k) = hopByHopHeader T k"
  by (simp_all add: safeRequestHeader_def hopByHopHeader_def proxyProvenanceHeader_def
      requestTransportHeader_def ToLower_CanonicalHeaderKey)

section \<open>Joining paths\<close>

lemma joinPath_assoc: "joinPath b1 (joinPath b2 r) = joinPath (joinPath b1 b2) r"
proof -
  let ?R = "\<lambda>s. TrimRight s ''/''" and ?L = "\<lambda>s. TrimLeft s ''/''"
  consider "?R b1 = []" | "?R b1 \<noteq> []" "?R b2 = []" | "?R b1 \<noteq> []" "?R b2 \<noteq> []" by blast
  then show ?thesis
  proof cases
    case 1
    then show ?thesis by (simp add: joinPath_def)
  next
    case 2
    then have "?L b2 = []" by (simp add: Trim_empty_iff)
    then have "?R (joinPath b1 b2) = ?R b1"
      using 2 TrimRight_append_cut [of "''/''" "''/''" "?R b1"] by (auto simp: joinPath_def Let_def)
    then show ?thesis using 2 by (simp add: joinPath_def [of b2] joinPath_def [of b1 r] joinPath_def [of "joinPath b1 b2"])
  next
    case 3
    have L: "?L (?R b2) \<noteq> []"  by (rule TrimLeft_TrimRight_ne [OF 3(2)])
    then have Lb: "?R (?L b2) = ?L (?R b2)" "?L b2 \<noteq> []"
      using TrimRight_TrimLeft [of b2 "''/''"] by (auto simp: TrimRight_def)
    have b2: "b2 \<noteq> []" "b2 \<noteq> ''/''" using 3 by (auto simp: TrimRight_def)
    have j: "joinPath b1 b2 = ?R b1 @ ''/'' @ ?L b2" using 3 b2 by (simp add: joinPath_def Let_def)
    have R: "?R (joinPath b1 b2) = ?R b1 @ ''/'' @ ?L (?R b2)"
      using TrimRight_append [of "?L b2" "''/''" "?R b1 @ ''/''"] Lb L by (simp add: j)
    have J: "joinPath (joinPath b1 b2) r = (if r = [] \<or> r = ''/'' then ?R b1 @ ''/'' @ ?L (?R b2)
        else ?R b1 @ ''/'' @ ?L (?R b2) @ ''/'' @ ?L r)"
      unfolding joinPath_def [of "joinPath b1 b2"] R Let_def by simp
    show ?thesis
    proof (cases "r = [] \<or> r = ''/''")
      case True
      then have "joinPath b2 r = ?R b2" using 3 by (auto simp: joinPath_def Let_def)
      moreover have "?R b2 \<noteq> ''/''" using TrimRight_last [of b2 "''/''"] 3 by auto
      ultimately show ?thesis unfolding J using True 3 by (auto simp: joinPath_def [of b1] Let_def)
    next
      case False
      then have "joinPath b2 r = ?R b2 @ ''/'' @ ?L r" using 3 by (simp add: joinPath_def Let_def)
      moreover have "?L (?R b2 @ ''/'' @ ?L r) = ?L (?R b2) @ ''/'' @ ?L r"
        using TrimLeft_append [OF L] by simp
      moreover have "?R b2 @ ''/'' @ ?L r \<noteq> ''/''" using 3 by (cases "?R b2") auto
      ultimately show ?thesis
        unfolding J using False 3 by (simp add: joinPath_def [of b1] Let_def)
    qed
  qed
qed

section \<open>Properties\<close>

text \<open>C12. The request sent upstream carries, under each canonical key, exactly the values of the client's headers of
  that key, in order, except that nothing is sent under a key that is, in whatever letter case, one of the eight
  hop-by-hop headers, one of the six that tell of proxies on the way (\<open>Forwarded\<close>, \<open>Via\<close>, \<open>X-Forwarded-*\<close>,
  \<open>X-Real-Ip\<close>) or \<open>Content-Length\<close>. Of the upstream's answer exactly the hop-by-hop headers are kept back.\<close>

theorem copyRequestHeaders_filters:
  "header_values (copyRequestHeaders T [] src) k =
     (if ToLower T k \<in> set [''connection'', ''keep-alive'', ''proxy-authenticate'', ''proxy-authorization'', ''te'',
           ''trailer'', ''transfer-encoding'', ''upgrade'', ''forwarded'', ''via'', ''x-forwarded-for'',
           ''x-forwarded-host'', ''x-forwarded-proto'', ''x-real-ip'', ''content-length'']
      then [] else concat (map snd (filter (\<lambda>kv. CanonicalHeaderKey (fst kv) = k) src))) \<and>
   header_values (copyHeaders T [] src) k =
     (if ToLower T k \<in> set [''connection'', ''keep-alive'', ''proxy-authenticate'', ''proxy-authorization'', ''te'',
           ''trailer'', ''transfer-encoding'', ''upgrade'']
      then [] else concat (map snd (filter (\<lambda>kv. CanonicalHeaderKey (fst kv) = k) src)))"
proof -
  have "header_values (copyHeadersWithPolicy [] src incl) k =
      (if incl k then concat (map snd (filter (\<lambda>kv. CanonicalHeaderKey (fst kv) = k) src)) else [])"
    if "\<And>q. incl (CanonicalHeaderKey q) = incl q" for incl
    using that unfolding header_values_copy
    by (auto intro!: concat_map_empty arg_cong [where f = "\<lambda>x. concat (map snd x)"] filter_cong)
  note copied = this
  have swap: "x = (if P then v else []) \<Longrightarrow> (P \<longleftrightarrow> \<not> Q) \<Longrightarrow> x = (if Q then [] else v)" for x v :: "string list" and P Q
    by auto
  have request: "header_values (copyRequestHeaders T [] src) k =
      (if safeRequestHeader T k then concat (map snd (filter (\<lambda>kv. CanonicalHeaderKey (fst kv) = k) src)) else [])"
    unfolding copyRequestHeaders_def by (rule copied) (rule safe_canonical(1))
  have response: "header_values (copyHeaders T [] src) k =
      (if \<not> hopByHopHeader T k then concat (map snd (filter (\<lambda>kv. CanonicalHeaderKey (fst kv) = k) src)) else [])"
    unfolding copyHeaders_def by (rule copied) (simp only: safe_canonical(2))
  have safe: "safeRequestHeader T k \<longleftrightarrow> \<not> ToLower T k \<in> set [''connection'', ''keep-alive'', ''proxy-authenticate'',
      ''proxy-authorization'', ''te'', ''trailer'', ''transfer-encoding'', ''upgrade'', ''forwarded'', ''via'',
      ''x-forwarded-for'', ''x-forwarded-host'', ''x-forwarded-proto'', ''x-real-ip'', ''content-length'']"
    by (auto simp: safeRequestHeader_def hopByHopHeader_def proxyProvenanceHeader_def requestTransportHeader_def)
  have hop: "\<not> hopByHopHeader T k \<longleftrightarrow> \<not> ToLower T k \<in> set [''connection'', ''keep-alive'', ''proxy-authenticate'',
      ''proxy-authorization'', ''te'', ''trailer'', ''transfer-encoding'', ''upgrade'']"
    by (simp only: hopByHopHeader_def)
  show ?thesis by (rule conjI [OF swap [OF request safe] swap [OF response hop]])
qed

text \<open>Joining paths is associative: a base URL that is itself a base and a path forwards to the
  same place as forwarding in two hops, whatever slashes the parts begin or end with.\<close>

theorem joinPath_associative:
  "joinPath b1 (joinPath b2 r) = joinPath (joinPath b1 b2) r"
  by (rule joinPath_assoc)

lemma absolute_upstreamURL: "absolute_url target \<Longrightarrow> absolute_url (upstreamURL target r)"
  by (simp add: absolute_url_def upstreamURL_def)

text \<open>The URL that is asked for upstream survives being printed and parsed again.\<close>

lemma NewRequest_upstream:
  assumes "absolute_url target" and "query_safe (hr_RawQuery r)"
    and "hr_Method r \<noteq> []" and "list_all header_byte (hr_Method r)"
  obtains sent where "NewRequest (hr_Method r) (url_String (upstreamURL target r)) = Some (hr_Method r, sent)"
    "u_Scheme sent = u_Scheme target" "u_User sent = u_User target"
    "u_Host sent = removeEmptyPort (u_Host target)"
    "u_Path sent = rooted_path (joinPath (u_Path target) (hr_Path r))" "u_RawQuery sent = hr_RawQuery r"
proof -
  have q: "query_safe (u_RawQuery (upstreamURL target r))" using assms(2) by (simp add: upstreamURL_def)
  obtain v where "url_Parse (url_String (upstreamURL target r)) = Some v" "u_Scheme v = u_Scheme target"
    "u_User v = u_User target" "u_Host v = u_Host target"
    "u_Path v = rooted_path (joinPath (u_Path target) (hr_Path r))" "u_RawQuery v = hr_RawQuery r"
    using url_Parse_String [OF absolute_upstreamURL [OF assms(1)] q] by (auto simp: upstreamURL_def)
  then show thesis using that assms(3,4) by (auto simp: NewRequest_def)
qed

lemma parseTargetBaseURL_absolute:
  assumes "parseTargetBaseURL raw = Inr target" and "plain_host (u_Host target)"
  shows "absolute_url target"
  using assms(1) url_Parse_absolute [of "TrimRight raw ''/''" target] plain_host_stable [OF assms(2)]
  by (auto simp: parseTargetBaseURL_def split: option.splits if_splits)

text \<open>C4. The proxy is transparent: a proxy for a base URL whose host is a name or an IPv4 address sends
  what its transparent route gets to exactly this host, by the base URL's scheme and user, with the
  client's method, query and body, under the joined path and with the filtered headers, although the
  URL is printed and parsed on the way; what comes back has the upstream's status, its headers but the
  hop-by-hop ones, and, unless the copy breaks off, its body; no answer is a 502.\<close>

theorem transparentProxy_forwards:
  assumes "New_proxy T config = Inr serve" and "parseTargetBaseURL (pc_TargetBaseURL config) = Inr target"
    and "plain_host (u_Host target)" and "proxy_mux r = MuxHandler TransparentRoute"
    and "query_safe (hr_RawQuery r)" and "hr_Method r \<noteq> []" and "list_all header_byte (hr_Method r)"
  shows "\<exists>sent.
    u_Scheme sent = u_Scheme target \<and> u_User sent = u_User target \<and>
    u_Host sent = removeEmptyPort (u_Host target) \<and>
    u_Path sent = rooted_path (joinPath (u_Path target) (hr_Path r)) \<and> u_RawQuery sent = hr_RawQuery r \<and>
    (let req = \<lparr>ur_Method = hr_Method r, ur_URL = sent, ur_Host = u_Host target,
                ur_Header = copyRequestHeaders T [] (hr_Header r), ur_Body = hr_Body r\<rparr>;
         eff = serve env r
     in pe_Sent eff = Some req \<and>
        (case ue_Do env req of
           Inl _ \<Rightarrow> hp_Status (pe_Response eff) = 502
         | Inr resp \<Rightarrow>
             hp_Status (pe_Response eff) = hp_Status resp \<and>
             hp_Header (pe_Response eff) = copyHeaders T [] (hp_Header resp) \<and>
             hp_Body (pe_Response eff) =
               (case ue_CopyError env of None \<Rightarrow> hp_Body resp | Some (n, _) \<Rightarrow> take n (hp_Body resp))))"
proof -
  have serve: "serve env r = transparentProxy T target (pc_Logger config) (pc_Telemetry config) env r"
    using assms(1,2,4) by (auto simp: New_proxy_def serve_proxy_def)
  obtain sent where n: "NewRequest (hr_Method r) (url_String (upstreamURL target r)) = Some (hr_Method r, sent)"
    "u_Scheme sent = u_Scheme target" "u_User sent = u_User target"
    "u_Host sent = removeEmptyPort (u_Host target)"
    "u_Path sent = rooted_path (joinPath (u_Path target) (hr_Path r))" "u_RawQuery sent = hr_RawQuery r"
    by (rule NewRequest_upstream [OF parseTargetBaseURL_absolute [OF assms(2,3)] assms(5-7)])
  have "u_Host (upstreamURL target r) = u_Host target" by (simp add: upstreamURL_def)
  then show ?thesis
    unfolding serve using n(2-)
    by (intro exI [of _ sent])
      (auto simp: transparentProxy_def n(1) Let_def bad_gateway_def http_Error_def split: option.splits sum.splits)
qed

definition calm_upstream :: upstream_env where
  "calm_upstream = \<lparr>ue_RequestError = [],
     ue_Do = (\<lambda>q. Inr \<lparr>hp_Status = 200, hp_Header = [(''Connection'', [''close''])], hp_Body = ur_Body q\<rparr>),
     ue_CopyError = None, ue_Started = 1, ue_LogLatency = 2, ue_Latency = 3\<rparr>"

definition calm_config :: proxy_config where
  "calm_config = \<lparr>pc_TargetBaseURL = ''https://api/v1/'', pc_Logger = None, pc_Telemetry = None\<rparr>"

definition calm_request :: http_request where
  "calm_request = \<lparr>hr_Method = ''POST'', hr_Path = ''/a b'', hr_RawPath = [], hr_RawQuery = ''q=1'',
     hr_Header = [], hr_Body = ''hi''\<rparr>"

lemma transparentProxy_forwards_witness:
  "hp_Body (pe_Response (serve_proxy ascii_tables
     (zero_url\<lparr>u_Scheme := ''https'', u_Host := ''api'', u_Path := ''/v1''\<rparr>) calm_config calm_upstream calm_request)) = ''hi''"
proof -
  have t: "parseTargetBaseURL (pc_TargetBaseURL calm_config) =
      Inr (zero_url\<lparr>u_Scheme := ''https'', u_Host := ''api'', u_Path := ''/v1''\<rparr>)"
    by (simp add: parseTargetBaseURL_def calm_config_def go_eval)
  then have n: "New_proxy ascii_tables calm_config = Inr (serve_proxy ascii_tables
      (zero_url\<lparr>u_Scheme := ''https'', u_Host := ''api'', u_Path := ''/v1''\<rparr>) calm_config)"
    by (simp add: New_proxy_def)
  have "plain_host (u_Host (zero_url\<lparr>u_Scheme := ''https'', u_Host := ''api'', u_Path := ''/v1''\<rparr>))"
    by (simp add: plain_host_def go_eval)
  moreover have "proxy_mux calm_request = MuxHandler TransparentRoute"
    by (simp add: proxy_mux_def calm_request_def go_eval)
  moreover have "query_safe (hr_RawQuery calm_request)" "hr_Method calm_request \<noteq> []"
    "list_all header_byte (hr_Method calm_request)"
    by (simp_all add: calm_request_def query_safe_def control_byte_def header_byte_def)
  ultimately show ?thesis
    using transparentProxy_forwards [OF n t, of calm_request calm_upstream]
    by (auto simp: calm_upstream_def calm_request_def Let_def)
qed

text \<open>Whatever happens upstream, the handler logs exactly one entry, made of the method, the
  path, whether there is a query, a status, a latency and an error kind, and records exactly one
  telemetry record, which the client's headers other than the identifiers, and its body, cannot
  influence; a failure upstream is answered with 502.\<close>

theorem transparentProxy_observes:
  "\<exists>status kind.
     pe_Logger (transparentProxy T target (Some out) (Some st) env r) =
       Some (out @ [(''provider request'',
         [(''method'', LogString (hr_Method r)), (''path'', LogString (hr_Path r)),
          (''query_present'', LogBool (hr_RawQuery r \<noteq> [])), (''status'', LogInt status),
          (''latency_ms'', LogInt (Milliseconds (ue_LogLatency env))), (''error_kind'', LogString kind)])]) \<and>
     pe_Telemetry (transparentProxy T target (Some out) (Some st) env r) =
       Some (st\<lparr>ts_records := ts_records st @
         [BuildRequestTelemetry (Some r) status (ue_Latency env) (ue_Started env) kind]\<rparr>) \<and>
     status = hp_Status (pe_Response (transparentProxy T target (Some out) (Some st) env r)) \<and>
     kind \<in> {ErrorKindNone, ErrorKindProxyError, ErrorKindUpstreamStatus}"
proof -
  have scrub: "(BuildRequestTelemetry (Some r) s l a k)\<lparr>rt_PromptPreview := [], rt_CredentialHint := []\<rparr> =
      BuildRequestTelemetry (Some r) s l a k" for s l a k
    by (simp add: BuildRequestTelemetry_def Let_def)
  have k: "ClassifyProxyError s e \<in> {ErrorKindNone, ErrorKindProxyError, ErrorKindUpstreamStatus}" for s e
    by (simp add: ClassifyProxyError_def)
  show ?thesis
    unfolding transparentProxy_def bad_gateway_def recordTelemetry_def LogRequest_def log_request_of_def
      Record_def http_Error_def Let_def
    using k by (auto simp: scrub split: option.split sum.split prod.split)
qed

end
