(* ===== verification/Proxy_Stream.thy ===== *)
theory Proxy_Stream
  imports Proxy "HOL-Library.While_Combinator" "HOL-Library.Sublist"
begin

text \<open>
  The copy of a response body in \<open>internal/proxy/upstream.go\<close>, read by read: \<open>copyResponseBody\<close> hands the body
  to \<open>io.Copy\<close>, behind a \<open>flushWriter\<close> when the response is an event stream. The reads of the body, the
  answers of the server's \<open>ResponseWriter\<close> and how much of its buffer leaves with a write are parameters. A body
  may never end, so the loop is a \<open>while_option\<close>; \<open>copy_after\<close> is its state after a number of reads.
\<close>

section \<open>Reading and writing\<close>

datatype read_end = EndOfBody | ReadFailed error

type_synonym body_reads = "nat \<Rightarrow> string \<times> read_end option"

text \<open>What has left for the client, and what the server still holds in its buffer.\<close>

record response_writer =
  rw_Client :: string
  rw_Buffer :: string

record writer_env =
  we_Write :: "response_writer \<Rightarrow> string \<Rightarrow> nat \<times> error option"
  we_Spill :: "string \<Rightarrow> nat"
  we_Flusher :: bool

definition empty_writer :: response_writer where
  "empty_writer = \<lparr>rw_Client = [], rw_Buffer = []\<rparr>"

definition writer_Write :: "writer_env \<Rightarrow> string \<Rightarrow> response_writer \<Rightarrow> (nat \<times> error option) \<times> response_writer" where
  "writer_Write env p w =
     (let (n, err) = we_Write env w p;
          buffer = rw_Buffer w @ take n p;
          k = we_Spill env buffer
      in ((n, err), \<lparr>rw_Client = rw_Client w @ take k buffer, rw_Buffer = drop k buffer\<rparr>))"

definition writer_Flush :: "response_writer \<Rightarrow> response_writer" where
  "writer_Flush w = \<lparr>rw_Client = rw_Client w @ rw_Buffer w, rw_Buffer = []\<rparr>"

definition flushWriter_Write :: "writer_env \<Rightarrow> string \<Rightarrow> response_writer \<Rightarrow> (nat \<times> error option) \<times> response_writer" where
  "flushWriter_Write env p w =
     (let (r, w') = writer_Write env p w
      in (r, if we_Flusher env then writer_Flush w' else w'))"

section \<open>The loop of \<open>io.Copy\<close>\<close>

record copy_state =
  cs_Reads :: nat
  cs_Written :: nat
  cs_Writer :: response_writer
  cs_Done :: "error option option"

definition checked_write ::
  "(string \<Rightarrow> response_writer \<Rightarrow> (nat \<times> error option) \<times> response_writer) \<Rightarrow> string \<Rightarrow> response_writer \<Rightarrow>
   nat \<times> error option \<times> response_writer" where
  "checked_write wr p w =
     (if p = [] then (0, None, w)
      else (let ((n, err), w') = wr p w;
                valid = (n \<le> length p);
                nw = (if valid then n else 0);
                ew = (if \<not> valid \<and> err = None then Some ''invalid write result'' else err)
            in (nw, (case ew of Some e \<Rightarrow> Some e | None \<Rightarrow> if nw \<noteq> length p then Some ''short write'' else None), w')))"

text \<open>One round: a read, a write unless nothing was read, and the end after a failed write, an error of the read
  or the end of the body. A loop that has ended stays as it is.\<close>

definition copy_step ::
  "(string \<Rightarrow> response_writer \<Rightarrow> (nat \<times> error option) \<times> response_writer) \<Rightarrow> body_reads \<Rightarrow> copy_state \<Rightarrow> copy_state"
where
  "copy_step wr reads s =
     (if cs_Done s \<noteq> None then s
      else (let (p, er) = reads (cs_Reads s);
                (nw, err, w) = checked_write wr p (cs_Writer s)
            in \<lparr>cs_Reads = Suc (cs_Reads s), cs_Written = cs_Written s + nw, cs_Writer = w,
                cs_Done = (case err of Some e \<Rightarrow> Some (Some e)
                           | None \<Rightarrow> (case er of None \<Rightarrow> None | Some EndOfBody \<Rightarrow> Some None
                                      | Some (ReadFailed e) \<Rightarrow> Some (Some e)))\<rparr>))"

definition copy_start :: copy_state where
  "copy_start = \<lparr>cs_Reads = 0, cs_Written = 0, cs_Writer = empty_writer, cs_Done = None\<rparr>"

definition io_Copy ::
  "(string \<Rightarrow> response_writer \<Rightarrow> (nat \<times> error option) \<times> response_writer) \<Rightarrow> body_reads \<Rightarrow> copy_state option" where
  "io_Copy wr reads = while_option (\<lambda>s. cs_Done s = None) (copy_step wr reads) copy_start"

definition body_writer ::
  "unicode_tables \<Rightarrow> writer_env \<Rightarrow> header \<Rightarrow> string \<Rightarrow> response_writer \<Rightarrow> (nat \<times> error option) \<times> response_writer"
where
  "body_writer T env h = (if event_stream T h then flushWriter_Write env else writer_Write env)"

text \<open>The number of bytes and the error that \<open>io.Copy\<close> returns, and the writer it leaves; \<open>None\<close> when it does
  not return.\<close>

definition copyResponseBody ::
  "unicode_tables \<Rightarrow> writer_env \<Rightarrow> header \<Rightarrow> body_reads \<Rightarrow> (nat \<times> error option \<times> response_writer) option" where
  "copyResponseBody T env h reads =
     map_option (\<lambda>s. (cs_Written s, the (cs_Done s), cs_Writer s)) (io_Copy (body_writer T env h) reads)"

definition copy_after ::
  "(string \<Rightarrow> response_writer \<Rightarrow> (nat \<times> error option) \<times> response_writer) \<Rightarrow> body_reads \<Rightarrow> nat \<Rightarrow> copy_state" where
  "copy_after wr reads n = (copy_step wr reads ^^ n) copy_start"

definition chunks :: "body_reads \<Rightarrow> nat \<Rightarrow> string" where
  "chunks reads n = concat (map (fst \<circ> reads) [0..<n])"

text \<open>The reads deliver the body: up to its end, or as far as they get before they fail.\<close>

definition delivers :: "body_reads \<Rightarrow> string \<Rightarrow> bool" where
  "delivers reads body \<longleftrightarrow> (\<exists>n. (\<forall>i<n. snd (reads i) = None) \<and>
     (case snd (reads n) of
        None \<Rightarrow> False
      | Some EndOfBody \<Rightarrow> chunks reads (Suc n) = body
      | Some (ReadFailed _) \<Rightarrow> prefix (chunks reads (Suc n)) body))"

section \<open>Invariants of the loop\<close>

lemma copy_after_0 [simp]: "copy_after wr reads 0 = copy_start"
  by (simp add: copy_after_def)

lemma copy_after_Suc: "copy_after wr reads (Suc n) = copy_step wr reads (copy_after wr reads n)"
  by (simp add: copy_after_def)

lemma chunks_simps [simp]: "chunks reads 0 = []" "chunks reads (Suc n) = chunks reads n @ fst (reads n)"
  by (simp_all add: chunks_def)

lemma chunks_prefix: "m \<le> n \<Longrightarrow> prefix (chunks reads m) (chunks reads n)"
  by (induction n) (auto simp: le_Suc_eq intro: prefix_order.trans [OF _ prefixI])

definition accepted :: "response_writer \<Rightarrow> string" where
  "accepted w = rw_Client w @ rw_Buffer w"

lemma accepted_Flush [simp]: "accepted (writer_Flush w) = accepted w"
  by (simp add: accepted_def writer_Flush_def)

lemma accepted_writer_Write: "accepted (snd (writer_Write env p w)) = accepted w @ take (fst (we_Write env w p)) p"
  by (simp add: writer_Write_def Let_def accepted_def case_prod_beta del: take_append drop_append)

text \<open>The contract of \<open>io.Writer\<close> that the loop relies on: a write takes the bytes it reports, from the front,
  and no more than it is given. That it reports no more is a second promise, which \<open>io.Copy\<close> checks.\<close>

definition bounded_writer :: "(string \<Rightarrow> response_writer \<Rightarrow> (nat \<times> error option) \<times> response_writer) \<Rightarrow> bool" where
  "bounded_writer wr \<longleftrightarrow> (\<forall>p w. fst (fst (wr p w)) \<le> length p)"

text \<open>A loop that has not ended has read and written everything so far; one that has, has written a prefix of what
  it read, all of it when it reports no error.\<close>

definition copy_inv ::
  "(string \<Rightarrow> response_writer \<Rightarrow> (nat \<times> error option) \<times> response_writer) \<Rightarrow> body_reads \<Rightarrow> nat \<Rightarrow> copy_state \<Rightarrow> bool" where
  "copy_inv wr reads n s \<longleftrightarrow>
     (case cs_Done s of
        None \<Rightarrow> cs_Reads s = n \<and> accepted (cs_Writer s) = chunks reads n \<and> cs_Written s = length (chunks reads n) \<and>
          (\<forall>i<n. snd (reads i) = None)
      | Some err \<Rightarrow> (\<exists>m<n. cs_Reads s = Suc m \<and> (\<forall>i<m. snd (reads i) = None) \<and>
          prefix (accepted (cs_Writer s)) (chunks reads (Suc m)) \<and>
          (err = None \<longrightarrow> snd (reads m) = Some EndOfBody \<and> accepted (cs_Writer s) = chunks reads (Suc m)) \<and>
          (bounded_writer wr \<longrightarrow> cs_Written s = length (accepted (cs_Writer s)))))"

lemma copy_step_done: "cs_Done s \<noteq> None \<Longrightarrow> copy_step wr reads s = s"
  by (simp add: copy_step_def)

locale io_writer =
  fixes wr :: "string \<Rightarrow> response_writer \<Rightarrow> (nat \<times> error option) \<times> response_writer"
  assumes takes: "wr p w = ((n, err), w') \<Longrightarrow> accepted w' = accepted w @ take n p"
begin

lemma checked_writes:
  assumes "checked_write wr p w = (nw, err, w')"
  shows "prefix (accepted w') (accepted w @ p)"
    and "err = None \<Longrightarrow> nw = length p \<and> accepted w' = accepted w @ p"
    and "bounded_writer wr \<Longrightarrow> nw \<le> length p \<and> accepted w' = accepted w @ take nw p"
proof -
  have "prefix (accepted w') (accepted w @ p) \<and> (err = None \<longrightarrow> nw = length p \<and> accepted w' = accepted w @ p) \<and>
    (bounded_writer wr \<longrightarrow> nw \<le> length p \<and> accepted w' = accepted w @ take nw p)"
  proof (cases "p = []")
    case True
    then show ?thesis using assms by (simp add: checked_write_def)
  next
    case False
    obtain n e w1 where b: "wr p w = ((n, e), w1)" by (metis prod.collapse)
    have n: "bounded_writer wr \<Longrightarrow> n \<le> length p" by (metis b bounded_writer_def fst_conv)
    show ?thesis
      using assms False takes [OF b] n
      by (auto simp: checked_write_def b Let_def take_is_prefix split: option.splits if_splits)
  qed
  then show "prefix (accepted w') (accepted w @ p)"
    and "err = None \<Longrightarrow> nw = length p \<and> accepted w' = accepted w @ p"
    and "bounded_writer wr \<Longrightarrow> nw \<le> length p \<and> accepted w' = accepted w @ take nw p" by blast+
qed

lemma copy_inv_step:
  assumes "copy_inv wr reads n s" and "cs_Done s = None"
  shows "copy_inv wr reads (Suc n) (copy_step wr reads s)"
proof -
  obtain p er where r: "reads n = (p, er)" by (metis prod.collapse)
  obtain nw err w where c: "checked_write wr p (cs_Writer s) = (nw, err, w)" by (metis prod.collapse)
  have inv: "cs_Reads s = n" "accepted (cs_Writer s) = chunks reads n" "cs_Written s = length (chunks reads n)"
    "\<forall>i<n. snd (reads i) = None"
    using assms by (simp_all add: copy_inv_def)
  have step: "copy_step wr reads s =
    \<lparr>cs_Reads = Suc n, cs_Written = length (chunks reads n) + nw, cs_Writer = w,
     cs_Done = (case err of Some e \<Rightarrow> Some (Some e)
                | None \<Rightarrow> (case er of None \<Rightarrow> None | Some EndOfBody \<Rightarrow> Some None | Some (ReadFailed e) \<Rightarrow> Some (Some e)))\<rparr>"
    by (simp add: copy_step_def assms(2) inv r c)
  note w = checked_writes [OF c, unfolded inv(2)]
  have written: "bounded_writer wr \<Longrightarrow> length (chunks reads n) + nw = length (accepted w)"
    using w(3) by simp
  show ?thesis
  proof (cases err)
    case (Some e)
    then show ?thesis using inv(4) w(1) written
      by (auto simp: copy_inv_def step r intro!: exI [of _ n])
  next
    case None
    then show ?thesis using inv(4) w written
      by (cases er rule: option.exhaust [case_names none some])
        (auto simp: copy_inv_def step r less_Suc_eq split: read_end.splits intro!: exI [of _ n])
  qed
qed

lemma copy_inv_after: "copy_inv wr reads n (copy_after wr reads n)"
proof (induction n)
  case 0
  show ?case by (simp add: copy_inv_def copy_start_def accepted_def empty_writer_def)
next
  case (Suc n)
  show ?case
  proof (cases "cs_Done (copy_after wr reads n) = None")
    case True
    then show ?thesis using copy_inv_step [OF Suc] by (simp add: copy_after_Suc)
  next
    case False
    then show ?thesis using Suc less_SucI
      by (fastforce simp: copy_after_Suc copy_step_done copy_inv_def)
  qed
qed

lemma copy_ends:
  assumes "snd (reads n) \<noteq> None"
  shows "cs_Done (copy_after wr reads (Suc n)) \<noteq> None"
proof
  assume "cs_Done (copy_after wr reads (Suc n)) = None"
  then show False using copy_inv_after [of reads "Suc n"] assms by (simp add: copy_inv_def)
qed

end

lemma writer_Write_takes: "writer_Write env p w = ((n, err), w') \<Longrightarrow> accepted w' = accepted w @ take n p"
  using accepted_writer_Write [of env p w] by (auto simp: writer_Write_def Let_def split: prod.splits)

interpretation plain: io_writer "writer_Write env" for env
  by unfold_locales (rule writer_Write_takes)

interpretation flushing: io_writer "flushWriter_Write env" for env
  by unfold_locales (auto simp: flushWriter_Write_def split: prod.splits if_splits dest: writer_Write_takes)

interpretation body: io_writer "body_writer T env h" for T env h
  by unfold_locales (auto simp: body_writer_def split: if_splits dest: plain.takes flushing.takes)

lemma body_write: "fst (body_writer T env h p w) = we_Write env w p"
  by (simp add: body_writer_def flushWriter_Write_def writer_Write_def Let_def case_prod_beta)

text \<open>The \<open>ResponseWriter\<close> keeps the second promise.\<close>

definition bounded_writes :: "writer_env \<Rightarrow> bool" where
  "bounded_writes env \<longleftrightarrow> (\<forall>w p. fst (we_Write env w p) \<le> length p)"

lemma bounded_body: "bounded_writes env \<Longrightarrow> bounded_writer (body_writer T env h)"
  by (simp add: bounded_writes_def bounded_writer_def body_write)

lemma copy_after_done: "cs_Done (copy_after wr reads n) \<noteq> None \<Longrightarrow> n \<le> m \<Longrightarrow> copy_after wr reads m = copy_after wr reads n"
  by (induction m) (auto simp: le_Suc_eq copy_after_Suc copy_step_done)

lemma io_Copy_done:
  assumes "cs_Done (copy_after wr reads n) \<noteq> None"
  shows "io_Copy wr reads = Some (copy_after wr reads n)"
proof -
  let ?k = "LEAST k. cs_Done (copy_after wr reads k) \<noteq> None"
  have "cs_Done (copy_after wr reads ?k) \<noteq> None" using assms by (rule LeastI)
  moreover have "?k \<le> n" using assms by (rule Least_le)
  ultimately have eq: "copy_after wr reads n = copy_after wr reads ?k" by (rule copy_after_done)
  have ex: "\<exists>k. \<not> cs_Done (copy_after wr reads k) = None" using assms by blast
  show ?thesis
    unfolding io_Copy_def while_option_def copy_after_def [symmetric]
    unfolding if_P [OF ex] by (rule arg_cong [OF eq [symmetric]])
qed

lemma io_Copy_Some:
  assumes "io_Copy wr reads = Some s"
  obtains n where "s = copy_after wr reads n" "cs_Done s \<noteq> None"
  using assms while_option_stop2 [OF assms [unfolded io_Copy_def]] that unfolding copy_after_def by blast

lemma delivers_prefix:
  assumes "delivers reads body" and "\<forall>i<m. snd (reads i) = None"
  shows "prefix (chunks reads (Suc m)) body" "snd (reads m) = Some EndOfBody \<Longrightarrow> chunks reads (Suc m) = body"
proof -
  obtain n where d: "\<forall>i<n. snd (reads i) = None" "case snd (reads n) of None \<Rightarrow> False
      | Some EndOfBody \<Rightarrow> chunks reads (Suc n) = body | Some (ReadFailed _) \<Rightarrow> prefix (chunks reads (Suc n)) body"
    using assms(1) unfolding delivers_def by blast
  then have n: "\<forall>i<n. snd (reads i) = None" "prefix (chunks reads (Suc n)) body"
    "snd (reads n) = Some EndOfBody \<Longrightarrow> chunks reads (Suc n) = body" "snd (reads n) \<noteq> None"
    by (auto split: option.splits read_end.splits)
  have le: "m \<le> n" using assms(2) n(4) by (meson not_le)
  then show "prefix (chunks reads (Suc m)) body"
    using chunks_prefix [of "Suc m" "Suc n" reads] n(2) by (meson Suc_le_mono prefix_order.trans)
  assume "snd (reads m) = Some EndOfBody"
  then have "m = n" using le n(1) by (metis le_neq_implies_less option.distinct(1))
  then show "chunks reads (Suc m) = body" using n(3) \<open>snd (reads m) = Some EndOfBody\<close> by simp
qed

section \<open>Properties\<close>

lemma flushed_after:
  assumes "event_stream T h" and "we_Flusher env"
  shows "rw_Buffer (cs_Writer (copy_after (body_writer T env h) reads n)) = []"
proof (induction n)
  case 0
  show ?case by (simp add: copy_start_def empty_writer_def)
next
  case (Suc n)
  obtain p er where r: "reads (cs_Reads (copy_after (body_writer T env h) reads n)) = (p, er)" by (metis prod.collapse)
  then show ?case using Suc assms
    by (auto simp: copy_after_Suc copy_step_def checked_write_def body_writer_def flushWriter_Write_def writer_Flush_def
        Let_def split: prod.splits)
qed

lemma copy_runs:
  assumes "\<And>w p. we_Write env w p = (length p, None)"
  shows "cs_Done (copy_after (body_writer T env h) reads n) = None \<longleftrightarrow> (\<forall>i<n. snd (reads i) = None)"
proof (induction n)
  case 0
  show ?case by (simp add: copy_start_def)
next
  case (Suc n)
  let ?s = "copy_after (body_writer T env h) reads n"
  have full: "snd (fst (body_writer T env h p w)) = None \<and> fst (fst (body_writer T env h p w)) = length p" for p w
    by (simp add: body_write assms)
  have ok: "fst (snd (checked_write (body_writer T env h) p w)) = None" for p w
    using full [of p w] by (simp add: checked_write_def case_prod_beta Let_def)
  show ?case
  proof (cases "cs_Done ?s = None")
    case True
    then have "cs_Reads ?s = n" using body.copy_inv_after [of T env h reads n] by (simp add: copy_inv_def)
    then have "cs_Done (copy_after (body_writer T env h) reads (Suc n)) = None \<longleftrightarrow> snd (reads n) = None"
      using True ok by (simp add: copy_after_Suc copy_step_def Let_def case_prod_beta split: option.splits read_end.splits)
    then show ?thesis using Suc True by (auto simp: less_Suc_eq)
  next
    case False
    then show ?thesis using Suc by (auto simp: copy_after_Suc copy_step_done less_Suc_eq)
  qed
qed

text \<open>C8. Events are not held back: while an event stream is copied to a server that can flush, nothing stays in the
  server's buffer between two reads. At any time the client has been sent a prefix of what was read, in order and
  nothing twice, and as long as the copy goes on it has been sent all of it, before the next read is
  waited for. Unless a write fails the copy goes on until the body ends or fails, so this holds for a stream that never ends.\<close>

theorem events_reach_client:
  assumes "event_stream T h" and "we_Flusher env"
  shows "let s = copy_after (body_writer T env h) reads n; w = cs_Writer s
    in rw_Buffer w = [] \<and> prefix (rw_Client w) (chunks reads n) \<and>
       (cs_Done s = None \<longrightarrow> rw_Client w = chunks reads n) \<and>
       ((\<forall>w p. we_Write env w p = (length p, None)) \<longrightarrow>
          (cs_Done s = None \<longleftrightarrow> (\<forall>i<n. snd (reads i) = None)))"
proof -
  let ?s = "copy_after (body_writer T env h) reads n"
  have b: "rw_Buffer (cs_Writer ?s) = []" by (rule flushed_after [OF assms])
  then have a: "accepted (cs_Writer ?s) = rw_Client (cs_Writer ?s)" by (simp add: accepted_def)
  note inv = body.copy_inv_after [of T env h reads n, unfolded copy_inv_def a]
  have "prefix (rw_Client (cs_Writer ?s)) (chunks reads n)"
  proof (cases "cs_Done ?s")
    case None
    then show ?thesis using inv by simp
  next
    case (Some err)
    then obtain m where "m < n" "prefix (rw_Client (cs_Writer ?s)) (chunks reads (Suc m))" using inv by auto
    then show ?thesis using chunks_prefix [of "Suc m" n reads] by (meson Suc_leI prefix_order.trans)
  qed
  moreover have "cs_Done ?s = None \<Longrightarrow> rw_Client (cs_Writer ?s) = chunks reads n" using inv by simp
  moreover have "cs_Done ?s = None \<longleftrightarrow> (\<forall>i<n. snd (reads i) = None)" if "\<forall>w p. we_Write env w p = (length p, None)"
    by (rule copy_runs) (simp add: that)
  ultimately show ?thesis using b by (simp add: Let_def)
qed

text \<open>An event stream that never ends: each read is one event.\<close>

definition endless :: body_reads where "endless n = (''data: x'' @ [NL, NL], None)"

definition buffered_server :: writer_env where
  "buffered_server = \<lparr>we_Write = (\<lambda>w p. (length p, None)), we_Spill = (\<lambda>_. 0), we_Flusher = True\<rparr>"

lemma events_reach_client_witness:
  "cs_Done (copy_after (body_writer ascii_tables buffered_server [(''Content-Type'', [''text/event-stream''])]) endless 2) = None \<and>
   rw_Client (cs_Writer (copy_after (body_writer ascii_tables buffered_server [(''Content-Type'', [''text/event-stream''])]) endless 2)) =
     ''data: x'' @ [NL, NL] @ ''data: x'' @ [NL, NL]"
proof -
  have "event_stream ascii_tables [(''Content-Type'', [''text/event-stream''])]"
    by (simp add: event_stream_def go_eval)
  moreover have "we_Flusher buffered_server" "\<forall>w p. we_Write buffered_server w p = (length p, None)"
    by (simp_all add: buffered_server_def)
  ultimately show ?thesis
    using events_reach_client [of ascii_tables "[(''Content-Type'', [''text/event-stream''])]" buffered_server endless 2]
    by (simp add: Let_def endless_def numeral_2_eq_2)
qed

text \<open>Without the \<open>flushWriter\<close> the same server would keep every event to itself.\<close>

lemma plain_copy_holds_back:
  "rw_Client (cs_Writer (copy_after (writer_Write buffered_server) endless n)) = []"
proof (induction n)
  case 0
  show ?case by (simp add: copy_start_def empty_writer_def)
next
  case (Suc n)
  then show ?case
    by (simp add: copy_after_Suc copy_step_def endless_def checked_write_def writer_Write_def buffered_server_def)
qed

lemma copyResponseBody_delivers:
  assumes "delivers reads body" and "bounded_writes wenv"
  obtains written err w where "copyResponseBody T wenv h reads = Some (written, err, w)"
    "accepted w = take written body" "err = None \<Longrightarrow> accepted w = body"
    "event_stream T h \<Longrightarrow> we_Flusher wenv \<Longrightarrow> rw_Buffer w = []"
proof -
  obtain n where "snd (reads n) \<noteq> None"
    using assms(1) unfolding delivers_def by (auto split: option.splits)
  then have d: "cs_Done (copy_after (body_writer T wenv h) reads (Suc n)) \<noteq> None" by (rule body.copy_ends)
  let ?s = "copy_after (body_writer T wenv h) reads (Suc n)"
  obtain err where err: "cs_Done ?s = Some err" using d by blast
  obtain m where m: "\<forall>i<m. snd (reads i) = None"
    "err = None \<longrightarrow> snd (reads m) = Some EndOfBody \<and> accepted (cs_Writer ?s) = chunks reads (Suc m)"
    "cs_Written ?s = length (accepted (cs_Writer ?s))"
    "prefix (accepted (cs_Writer ?s)) (chunks reads (Suc m))"
    using body.copy_inv_after [of T wenv h reads "Suc n"] bounded_body [OF assms(2)] by (auto simp: copy_inv_def err simp del: chunks_simps)
  note p = delivers_prefix [OF assms(1) m(1)]
  have "prefix (accepted (cs_Writer ?s)) body" using m(4) p(1) by (rule prefix_order.trans)
  then have taken: "accepted (cs_Writer ?s) = take (cs_Written ?s) body" by (auto simp: m(3) prefix_def)
  show thesis
  proof (rule that)
    show "copyResponseBody T wenv h reads = Some (cs_Written ?s, err, cs_Writer ?s)"
      using io_Copy_done [OF d] by (simp add: copyResponseBody_def err)
  qed (use taken m p flushed_after [of T h wenv reads "Suc n"] in \<open>auto simp del: chunks_simps\<close>)
qed

text \<open>C16. The copy of the body, read by read, is what the handler's model makes of it in one step: when the
  upstream's reads deliver the body of its response, \<open>copyResponseBody\<close> returns, and what the server has been given is the
  body of the response in the model, for the bytes and the error that were returned; without an error that is
  the whole body, and an event stream has then left the server's buffer.\<close>

theorem copyResponseBody_refines:
  assumes "pe_Sent (transparentProxy T target logger telemetry env r) = Some req" and "ue_Do env req = Inr resp"
    and "delivers reads (hp_Body resp)" and "bounded_writes wenv"
  shows "\<exists>written err w. copyResponseBody T wenv (hp_Header resp) reads = Some (written, err, w) \<and>
    (let eff = transparentProxy T target logger telemetry (env\<lparr>ue_CopyError := map_option (Pair written) err\<rparr>) r
     in hp_Body (pe_Response eff) = rw_Client w @ rw_Buffer w \<and>
        (err = None \<longrightarrow> hp_Body (pe_Response eff) = hp_Body resp) \<and>
        (pe_Flushes eff \<and> we_Flusher wenv \<longrightarrow> hp_Body (pe_Response eff) = rw_Client w))"
proof -
  obtain written err w where c: "copyResponseBody T wenv (hp_Header resp) reads = Some (written, err, w)"
    "accepted w = take written (hp_Body resp)" "err = None \<Longrightarrow> accepted w = hp_Body resp"
    "event_stream T (hp_Header resp) \<Longrightarrow> we_Flusher wenv \<Longrightarrow> rw_Buffer w = []"
    using copyResponseBody_delivers [OF assms(3,4)] by metis
  let ?e = "transparentProxy T target logger telemetry (env\<lparr>ue_CopyError := map_option (Pair written) err\<rparr>) r"
  have "hp_Body (pe_Response ?e) = accepted w" "pe_Flushes ?e = event_stream T (hp_Header resp)"
    using assms(1,2) c(2,3)
    by (auto simp: transparentProxy_def Let_def bad_gateway_def split: option.splits sum.splits)
  then show ?thesis using c by (auto simp: Let_def accepted_def)
qed

definition two_reads :: body_reads where
  "two_reads n = (if n = 0 then (''h'', None) else (''i'', Some EndOfBody))"

lemma copyResponseBody_refines_witness:
  "hp_Body (pe_Response (transparentProxy ascii_tables (zero_url\<lparr>u_Scheme := ''https'', u_Host := ''api''\<rparr>) None None
     calm_upstream calm_request)) = ''hi'' \<and>
   (\<exists>n w. copyResponseBody ascii_tables buffered_server [(''Connection'', [''close''])] two_reads = Some (n, None, w) \<and>
     rw_Client w @ rw_Buffer w = ''hi'')"
proof -
  let ?t = "zero_url\<lparr>u_Scheme := ''https'', u_Host := ''api''\<rparr>"
  let ?h = "[(''Connection'', [''close''])]"
  have "parseTargetBaseURL ''https://api'' = Inr ?t" by (simp add: parseTargetBaseURL_def go_eval)
  moreover have "plain_host (u_Host ?t)" by (simp add: plain_host_def go_eval)
  ultimately have absolute: "absolute_url ?t" by (rule parseTargetBaseURL_absolute)
  have r: "query_safe (hr_RawQuery calm_request)" "hr_Method calm_request \<noteq> []" "list_all header_byte (hr_Method calm_request)"
    by (simp_all add: calm_request_def query_safe_def control_byte_def header_byte_def)
  obtain sent where n: "NewRequest (hr_Method calm_request) (url_String (upstreamURL ?t calm_request)) =
      Some (hr_Method calm_request, sent)"
    using NewRequest_upstream [OF absolute r] by metis
  define resp where "resp = \<lparr>hp_Status = 200, hp_Header = ?h, hp_Body = ''hi''\<rparr>"
  have answered: "ue_Do calm_upstream q = Inr resp" if "ur_Body q = ''hi''" for q
    using that by (simp add: calm_upstream_def resp_def)
  define req where "req = \<lparr>ur_Method = hr_Method calm_request, ur_URL = sent, ur_Host = u_Host (upstreamURL ?t calm_request),
    ur_Header = copyRequestHeaders ascii_tables [] (hr_Header calm_request), ur_Body = ''hi''\<rparr>"
  have req: "ue_Do calm_upstream req = Inr resp" by (rule answered) (simp add: req_def)
  have body: "hr_Body calm_request = ''hi''" by (simp add: calm_request_def)
  have sent: "pe_Sent (transparentProxy ascii_tables ?t None None calm_upstream calm_request) = Some req"
    using req by (simp add: transparentProxy_def n body Let_def req_def)
  have reads: "delivers two_reads (hp_Body resp)"
    unfolding delivers_def by (rule exI [of _ 1]) (simp add: two_reads_def resp_def)
  have "bounded_writes buffered_server" by (simp add: bounded_writes_def buffered_server_def)
  note refined = copyResponseBody_refines [OF sent req reads this]
  have h: "hp_Header resp = ?h" by (simp add: resp_def)
  obtain written err w where
    c: "copyResponseBody ascii_tables buffered_server ?h two_reads = Some (written, err, w)"
      "hp_Body (pe_Response (transparentProxy ascii_tables ?t None None
         (calm_upstream\<lparr>ue_CopyError := map_option (Pair written) err\<rparr>) calm_request)) = rw_Client w @ rw_Buffer w"
    using refined unfolding Let_def h by blast
  have "copyResponseBody ascii_tables buffered_server ?h two_reads = Some (2, None, \<lparr>rw_Client = [], rw_Buffer = ''hi''\<rparr>)"
  proof -
    have "\<not> event_stream ascii_tables ?h" by (simp add: event_stream_def go_eval)
    then have "copy_after (body_writer ascii_tables buffered_server ?h) two_reads 2 =
        \<lparr>cs_Reads = 2, cs_Written = 2, cs_Writer = \<lparr>rw_Client = [], rw_Buffer = ''hi''\<rparr>, cs_Done = Some None\<rparr>"
      by (simp add: numeral_2_eq_2 copy_after_Suc copy_step_def copy_start_def two_reads_def checked_write_def body_writer_def
          writer_Write_def buffered_server_def empty_writer_def)
    then show ?thesis
      using io_Copy_done [of "body_writer ascii_tables buffered_server ?h" two_reads 2]
      by (simp add: copyResponseBody_def)
  qed
  moreover have "calm_upstream\<lparr>ue_CopyError := None\<rparr> = calm_upstream" by (simp add: calm_upstream_def)
  ultimately show ?thesis using c by auto
qed

subsection \<open>When the copy returns\<close>

text \<open>A round after which the loop goes on: the read brings no end, and what it brings is written whole and without
  an error, given what the writer has taken before.\<close>

definition written_whole :: "unicode_tables \<Rightarrow> writer_env \<Rightarrow> header \<Rightarrow> body_reads \<Rightarrow> nat \<Rightarrow> bool" where
  "written_whole T env h reads n \<longleftrightarrow> fst (reads n) = [] \<or>
     we_Write env (cs_Writer (copy_after (body_writer T env h) reads n)) (fst (reads n)) = (length (fst (reads n)), None)"

lemma checked_body_write:
  "fst (snd (checked_write (body_writer T env h) p w)) = None \<longleftrightarrow> p = [] \<or> we_Write env w p = (length p, None)"
proof -
  obtain n err w' where b: "body_writer T env h p w = ((n, err), w')" by (metis prod.collapse)
  then have "we_Write env w p = (n, err)" using body_write [of T env h p w] by simp
  then show ?thesis by (auto simp: checked_write_def b Let_def split: option.split)
qed

lemma copy_step_goes_on:
  assumes "cs_Done s = None"
  shows "cs_Done (copy_step wr reads s) = None \<longleftrightarrow>
      snd (reads (cs_Reads s)) = None \<and> fst (snd (checked_write wr (fst (reads (cs_Reads s))) (cs_Writer s))) = None"
    "cs_Done (copy_step wr reads s) = Some None \<longleftrightarrow>
      snd (reads (cs_Reads s)) = Some EndOfBody \<and> fst (snd (checked_write wr (fst (reads (cs_Reads s))) (cs_Writer s))) = None"
  using assms
  by (auto simp: copy_step_def Let_def split: option.splits read_end.splits prod.splits)

lemma copy_goes_on:
  "cs_Done (copy_after (body_writer T env h) reads n) = None \<longleftrightarrow>
     list_all (\<lambda>i. snd (reads i) = None \<and> written_whole T env h reads i) [0..<n]"
proof (induction n)
  case 0
  show ?case by (simp add: copy_start_def)
next
  case (Suc n)
  let ?s = "copy_after (body_writer T env h) reads n"
  show ?case
  proof (cases "cs_Done ?s = None")
    case True
    then have r: "cs_Reads ?s = n" using body.copy_inv_after [of T env h reads n] by (simp add: copy_inv_def)
    show ?thesis
      using Suc True copy_step_goes_on(1) [OF True, of "body_writer T env h" reads]
      by (simp add: copy_after_Suc r checked_body_write written_whole_def)
  next
    case False
    then show ?thesis using Suc by (simp add: copy_after_Suc copy_step_done)
  qed
qed

text \<open>C19. The copy of a response body returns exactly when it must: it goes on for ever only if no read ever brings the
  end of the body or an error and everything that is read is written whole and without an error. Otherwise it
  returns after the first round in which this is not so, a client that has gone included, and without an error
  exactly when in this round the body has ended and its last bytes were written.\<close>

theorem copyResponseBody_returns:
  "case copyResponseBody T env h reads of
     None \<Rightarrow> (\<forall>n. snd (reads n) = None \<and> written_whole T env h reads n)
   | Some (written, err, w) \<Rightarrow>
       (\<exists>n. list_all (\<lambda>i. snd (reads i) = None \<and> written_whole T env h reads i) [0..<n] \<and>
          \<not> (snd (reads n) = None \<and> written_whole T env h reads n) \<and>
          w = cs_Writer (copy_after (body_writer T env h) reads (Suc n)) \<and>
          (err = None \<longleftrightarrow> snd (reads n) = Some EndOfBody \<and> written_whole T env h reads n))"
proof (cases "\<forall>n. snd (reads n) = None \<and> written_whole T env h reads n")
  case True
  have "copyResponseBody T env h reads = None"
  proof (rule ccontr)
    assume "copyResponseBody T env h reads \<noteq> None"
    then obtain s where "io_Copy (body_writer T env h) reads = Some s" by (auto simp: copyResponseBody_def)
    then obtain n where "cs_Done (copy_after (body_writer T env h) reads n) \<noteq> None" by (rule io_Copy_Some) simp
    then show False using copy_goes_on [of T env h reads n] True by (simp add: list_all_iff)
  qed
  then show ?thesis using True by simp
next
  case False
  let ?last = "\<lambda>n. \<not> (snd (reads n) = None \<and> written_whole T env h reads n)"
  define n where "n = (LEAST n. ?last n)"
  have n: "?last n" unfolding n_def by (rule LeastI_ex) (use False in blast)
  have before: "list_all (\<lambda>i. snd (reads i) = None \<and> written_whole T env h reads i) [0..<n]"
  proof -
    have "snd (reads i) = None \<and> written_whole T env h reads i" if "i < n" for i
      using not_less_Least [of i ?last] that by (simp only: n_def [symmetric] not_not)
    then show ?thesis by (simp add: list_all_iff)
  qed
  let ?s = "copy_after (body_writer T env h) reads n" and ?t = "copy_after (body_writer T env h) reads (Suc n)"
  have go: "cs_Done ?s = None" using before copy_goes_on by blast
  then have r: "cs_Reads ?s = n" using body.copy_inv_after [of T env h reads n] by (simp add: copy_inv_def)
  have "cs_Done ?t \<noteq> None" using copy_goes_on [of T env h reads "Suc n"] n by simp
  then obtain err where err: "cs_Done ?t = Some err" by blast
  have "err = None \<longleftrightarrow> snd (reads n) = Some EndOfBody \<and> written_whole T env h reads n"
    using copy_step_goes_on(2) [OF go, of "body_writer T env h" reads] err
    by (simp add: copy_after_Suc r checked_body_write written_whole_def)
  moreover have "copyResponseBody T env h reads = Some (cs_Written ?t, err, cs_Writer ?t)"
    using io_Copy_done [of "body_writer T env h" reads "Suc n"] err by (simp add: copyResponseBody_def)
  ultimately show ?thesis
    by (simp only: option.case prod.case) (intro exI [of _ n] conjI before n refl; simp only:)
qed

end
