(* ===== verification/Admin_Auth.thy ===== *)
theory Admin_Auth
  imports Go_Crypto Go_Net Go_Http
begin

text \<open>
  \<open>internal/admin/auth.go\<close>: the token that guards the admin interface and the check that it
  listens on a loopback address only. \<open>crypto/rand\<close> is an input of \<open>GenerateToken\<close>: the bytes
  it delivers, or its error.
\<close>

definition TokenHeader :: string where "TokenHeader = ''X-Cachy-Admin-Token''"

section \<open>Tokens\<close>

definition base64url_alphabet :: string where
  "base64url_alphabet = ''ABCDEFGHIJKLMNOPQRSTUVWXYZabcdefghijklmnopqrstuvwxyz0123456789-_''"

definition b64 :: "nat \<Rightarrow> char" where
  "b64 n = base64url_alphabet ! (n mod 64)"

text \<open>\<open>base64.RawURLEncoding\<close>: no padding.\<close>

fun base64_raw_url :: "nat list \<Rightarrow> string" where
  "base64_raw_url (a # b # c # rest) =
     [b64 (a div 4), b64 (a * 16 + b div 16), b64 (b * 4 + c div 64), b64 c] @ base64_raw_url rest"
| "base64_raw_url [a, b] = [b64 (a div 4), b64 (a * 16 + b div 16), b64 (b * 4)]"
| "base64_raw_url [a] = [b64 (a div 4), b64 (a * 16)]"
| "base64_raw_url [] = []"

definition GenerateToken :: "error + nat list \<Rightarrow> error + string" where
  "GenerateToken rand =
     (case rand of
        Inl err \<Rightarrow> Inl (''generate admin token: '' @ err)
      | Inr raw \<Rightarrow> Inr (base64_raw_url raw))"

definition bearerToken :: "string \<Rightarrow> string" where
  "bearerToken value =
     (let fields = Fields value
      in if length fields \<noteq> 2 \<or> \<not> EqualFold (fields ! 0) ''Bearer'' then [] else fields ! 1)"

definition requestTokens :: "header \<Rightarrow> string list" where
  "requestTokens h =
     (if header_Get h TokenHeader \<noteq> [] then [header_Get h TokenHeader] else []) @
     (if bearerToken (header_Get h ''Authorization'') \<noteq> []
      then [bearerToken (header_Get h ''Authorization'')] else [])"

definition tokenEqual :: "string \<Rightarrow> string \<Rightarrow> bool" where
  "tokenEqual got want \<longleftrightarrow> sha256 got = sha256 want"

definition validToken :: "header \<Rightarrow> string \<Rightarrow> bool" where
  "validToken h want \<longleftrightarrow> list_ex (\<lambda>got. tokenEqual got want) (requestTokens h)"

section \<open>The listen address\<close>

definition validateListenAddress :: "string \<Rightarrow> error option" where
  "validateListenAddress address =
     (case SplitHostPort address of
        None \<Rightarrow> Some ''admin listen address must include host and port''
      | Some (host, _) \<Rightarrow>
          if host = [] then Some ''admin listen address must bind to localhost, not all interfaces''
          else if EqualFold host ''localhost'' then None
          else case ParseIP host of
                 None \<Rightarrow> Some ''admin listen address must bind to localhost''
               | Some ip \<Rightarrow>
                   if IsLoopback ip then None else Some ''admin listen address must bind to localhost'')"

section \<open>Facts\<close>

lemma b64_solid: "byte (b64 n) < 128 \<and> \<not> IsSpace (byte (b64 n))"
proof -
  have "list_all (\<lambda>c. 33 \<le> byte c \<and> byte c < 127) base64url_alphabet"
    by (simp add: base64url_alphabet_def)
  then have "\<forall>i < length base64url_alphabet.
      33 \<le> byte (base64url_alphabet ! i) \<and> byte (base64url_alphabet ! i) < 127"
    unfolding list_all_length .
  moreover have "n mod 64 < length base64url_alphabet" by (simp add: base64url_alphabet_def)
  ultimately have "33 \<le> byte (b64 n) \<and> byte (b64 n) < 127" unfolding b64_def by blast
  then show ?thesis by (simp add: IsSpace_def)
qed

lemma base64_solid: "solid (base64_raw_url bs)"
  by (induction bs rule: base64_raw_url.induct) (simp_all add: b64_solid)

lemma base64_length: "length (base64_raw_url bs) = (4 * length bs + 2) div 3"
  by (induction bs rule: base64_raw_url.induct) simp_all

lemma bearerToken_solid:
  assumes "solid t" and "t \<noteq> []"
  shows "bearerToken (''Bearer '' @ t) = t"
proof -
  have "Fields (''Bearer'' @ CHR '' '' # t) = ''Bearer'' # Fields t"
    by (rule Fields_solid_space) (simp_all add: IsSpace_def)
  then have "Fields (''Bearer '' @ t) = [''Bearer'', t]"
    using Fields_solid [OF assms] by simp
  moreover have "EqualFold ''Bearer'' ''Bearer''" by (simp add: EqualFold_ascii)
  ultimately show ?thesis by (simp add: bearerToken_def Let_def)
qed

lemma validToken_iff: "validToken h want \<longleftrightarrow> (\<exists>got \<in> set (requestTokens h). sha256 got = sha256 want)"
  by (simp add: validToken_def tokenEqual_def list_ex_iff)

lemma no_dot_no_v4: "CHR ''.'' \<notin> set s \<Longrightarrow> parseIPv4 s = None"
  by (simp add: parseIPv4_def Split_no_sep)

lemma ParseIP_no_colon:
  assumes "ParseIP host = Some ip" and "CHR '':'' \<notin> set host"
  obtains v4 where "parseIPv4 host = Some v4" "ip = v4_in_6 @ v4"
proof -
  obtain c cs where d: "dropWhile (\<lambda>c. c \<noteq> CHR ''.'' \<and> c \<noteq> CHR '':'' \<and> c \<noteq> CHR ''%'') host = c # cs"
    using assms(1) by (auto simp: ParseIP_def split: list.splits)
  then have "c \<in> set host" by (metis list.set_intros(1) set_dropWhileD)
  then have "c \<noteq> CHR '':''" using assms(2) by auto
  then show thesis using assms(1) d that by (auto simp: ParseIP_def split: if_splits)
qed

section \<open>Which hosts pass as local\<close>

text \<open>A rune below 128 is one byte; the long s is two.\<close>

lemma DecodeRune_small:
  assumes "s \<noteq> []" and "fst (DecodeRune s) < 128"
  shows "\<exists>c t. s = c # t \<and> byte c < 128"
  using assms
  by (auto simp: DecodeRune_def Let_def is_cont_def second_ok_def neq_Nil_conv split: if_splits list.splits)

lemma byte_eqD: "byte c = n \<Longrightarrow> c = char_of n"
  by auto

lemma DecodeRune_long_s:
  assumes "s \<noteq> []" and "fst (DecodeRune s) = 383"
  shows "\<exists>t. s = CHR 0xC5 # CHR 0xBF # t"
proof -
  obtain c cs where s: "s = c # cs" using assms(1) by (cases s) auto
  have b: "194 \<le> byte c" "byte c \<le> 223"
    using assms(2) unfolding s
    by (auto simp: DecodeRune_def Let_def is_cont_def second_ok_def split: if_splits list.splits)
  then obtain c1 t where c1: "cs = c1 # t" "is_cont c1" "(byte c - 192) * 64 + (byte c1 - 128) = 383"
    using assms(2) unfolding s by (auto simp: DecodeRune_def split: if_splits list.splits)
  have "byte c1 - 128 < 64" using c1(2) unfolding is_cont_def by linarith
  then have "byte c - 192 = 5" using c1(3) by presburger
  then have "byte c = 197" using b(1) by simp
  moreover have "byte c1 = 191" using c1(2,3) \<open>byte c - 192 = 5\<close> by (simp add: is_cont_def)
  ultimately have "c = char_of (197 :: nat)" "c1 = char_of (191 :: nat)" by (metis byte_eqD)+
  moreover have "char_of (197 :: nat) = CHR 0xC5" "char_of (191 :: nat) = CHR 0xBF" by (simp_all add: char_of_eq_iff)
  ultimately show ?thesis by (simp add: s c1(1))
qed

lemma EqualFold_step:
  assumes "EqualFold s (c # cs)"
  shows "s \<noteq> []" "fold_match (fst (DecodeRune s)) c" "EqualFold (drop (snd (DecodeRune s)) s) cs"
proof -
  show n: "s \<noteq> []" using assms by (auto simp: EqualFold_def)
  show "fold_match (fst (DecodeRune s)) c" "EqualFold (drop (snd (DecodeRune s)) s) cs"
    using assms by (simp_all add: EqualFold_def runes_step [OF n])
qed

lemma EqualFold_small:
  assumes "EqualFold s (c # cs)" and "fst (DecodeRune s) < 128"
  shows "\<exists>d t. s = d # t \<and> lower_char d = lower_char c \<and> EqualFold t cs"
proof -
  note e = EqualFold_step [OF assms(1)]
  obtain d t where d: "s = d # t" "byte d < 128" using DecodeRune_small [OF e(1) assms(2)] by blast
  have D: "DecodeRune s = (byte d, 1)" unfolding d(1) by (rule DecodeRune_ascii [OF d(2)])
  have "lower_char d = lower_char c" using e(2) d(2) by (simp add: D fold_match_def)
  moreover have "EqualFold t cs" using e(3) unfolding D by (simp add: d(1))
  ultimately show ?thesis using d(1) by blast
qed

lemma EqualFold_letter:
  assumes "EqualFold s (c # cs)" and "lower_char c \<noteq> CHR ''s''" and "lower_char c \<noteq> CHR ''k''"
  shows "\<exists>d t. s = d # t \<and> lower_char d = lower_char c \<and> EqualFold t cs"
  by (rule EqualFold_small [OF assms(1)])
    (use EqualFold_step(2) [OF assms(1)] assms(2,3) in \<open>auto simp: fold_match_def split: if_splits\<close>)

lemma EqualFold_s:
  assumes "EqualFold s (CHR ''s'' # cs)"
  shows "(\<exists>d t. s = d # t \<and> lower_char d = CHR ''s'' \<and> EqualFold t cs) \<or>
    (\<exists>t. s = CHR 0xC5 # CHR 0xBF # t \<and> EqualFold t cs)"
proof -
  note e = EqualFold_step [OF assms]
  have l: "lower_char (CHR ''s'') = CHR ''s''" by (simp add: lower_char_def)
  show ?thesis
  proof (cases "fst (DecodeRune s) < 128")
    case True
    then show ?thesis using EqualFold_small [OF assms True] by (simp add: l)
  next
    case False
    then have "fst (DecodeRune s) = 383" using e(2) by (simp add: fold_match_def l)
    then obtain t where t: "s = CHR 0xC5 # CHR 0xBF # t" using DecodeRune_long_s [OF e(1)] by blast
    have "snd (DecodeRune s) = 2" unfolding t by (simp add: DecodeRune_def is_cont_def)
    then show ?thesis using e(3) t by simp
  qed
qed

text \<open>\<open>localhost\<close> in any letter case, or with a long s.\<close>

lemma EqualFold_localhost:
  assumes "EqualFold host ''localhost''"
  shows "map lower_char host = ''localhost'' \<or>
    (\<exists>a b. host = a @ [CHR 0xC5, CHR 0xBF] @ b \<and> map lower_char a = ''localho'' \<and> map lower_char b = ''t'')"
proof -
  have l: "\<exists>d t. s = d # t \<and> lower_char d = c \<and> EqualFold t cs"
    if "EqualFold s (c # cs)" "c \<noteq> CHR ''s''" "c \<noteq> CHR ''k''" "lower_char c = c" for s c cs
    using EqualFold_letter that by metis
  have same: "lower_char c = c" if "c \<in> set ''localhost''" for c
    using that by (auto simp: lower_char_def)
  obtain h0 t0 where 0: "host = h0 # t0" "lower_char h0 = CHR ''l''" "EqualFold t0 ''ocalhost''"
    using l [OF assms] same by auto
  obtain h1 t1 where 1: "t0 = h1 # t1" "lower_char h1 = CHR ''o''" "EqualFold t1 ''calhost''"
    using l [OF 0(3)] same by auto
  obtain h2 t2 where 2: "t1 = h2 # t2" "lower_char h2 = CHR ''c''" "EqualFold t2 ''alhost''"
    using l [OF 1(3)] same by auto
  obtain h3 t3 where 3: "t2 = h3 # t3" "lower_char h3 = CHR ''a''" "EqualFold t3 ''lhost''"
    using l [OF 2(3)] same by auto
  obtain h4 t4 where 4: "t3 = h4 # t4" "lower_char h4 = CHR ''l''" "EqualFold t4 ''host''"
    using l [OF 3(3)] same by auto
  obtain h5 t5 where 5: "t4 = h5 # t5" "lower_char h5 = CHR ''h''" "EqualFold t5 ''ost''"
    using l [OF 4(3)] same by auto
  obtain h6 t6 where 6: "t5 = h6 # t6" "lower_char h6 = CHR ''o''" "EqualFold t6 ''st''"
    using l [OF 5(3)] same by auto
  have last: "\<exists>d. t = [d] \<and> lower_char d = CHR ''t''" if "EqualFold t ''t''" for t
    using l [OF that] same by (auto simp: EqualFold_def)
  have host: "host = [h0, h1, h2, h3, h4, h5, h6] @ t6" "map lower_char [h0, h1, h2, h3, h4, h5, h6] = ''localho''"
    using 0 1 2 3 4 5 6 by simp_all
  from EqualFold_s [OF 6(3)] show ?thesis
  proof
    assume "\<exists>d t. t6 = d # t \<and> lower_char d = CHR ''s'' \<and> EqualFold t ''t''"
    then obtain d t where t: "t6 = d # t" "lower_char d = CHR ''s''" "EqualFold t ''t''" by blast
    obtain e where "t = [e]" "lower_char e = CHR ''t''" using last [OF t(3)] by blast
    then have "map lower_char t6 = ''st''" using t(1,2) by simp
    then show ?thesis using host by simp
  next
    assume "\<exists>t. t6 = CHR 0xC5 # CHR 0xBF # t \<and> EqualFold t ''t''"
    then obtain t where t: "t6 = CHR 0xC5 # CHR 0xBF # t" "EqualFold t ''t''" by blast
    obtain d where "t = [d]" "lower_char d = CHR ''t''" using last [OF t(2)] by blast
    then have "host = [h0, h1, h2, h3, h4, h5, h6] @ [CHR 0xC5, CHR 0xBF] @ [d]" "map lower_char [d] = ''t''"
      using host(1) t(1) by simp_all
    then show ?thesis using host(2) by (intro disjI2 exI conjI)
  qed
qed

text \<open>An accepted listen address names no host but the local one, up to the long s; the empty host, which would
  listen everywhere, is never accepted.\<close>

lemma validateListenAddress_loopback:
  assumes "validateListenAddress address = None"
  shows "\<exists>host port. SplitHostPort address = Some (host, port) \<and>
    (map lower_char host = ''localhost'' \<or>
     (\<exists>a b. host = a @ [CHR 0xC5, CHR 0xBF] @ b \<and> map lower_char a = ''localho'' \<and> map lower_char b = ''t'') \<or>
     (\<exists>x y z. x \<le> 255 \<and> y \<le> 255 \<and> z \<le> 255 \<and>
        host = ''127.'' @ decimal x @ ''.'' @ decimal y @ ''.'' @ decimal z) \<or>
     (\<exists>ip. CHR '':'' \<in> set host \<and> ParseIP host = Some ip \<and>
        (ip = replicate 15 0 @ [1] \<or> take 12 ip = replicate 10 0 @ [255, 255] \<and> ip ! 12 = 127)))"
proof -
  obtain host port where hp: "SplitHostPort address = Some (host, port)" "host \<noteq> []"
    using assms by (auto simp: validateListenAddress_def split: option.splits if_splits)
  show ?thesis
  proof (cases "EqualFold host ''localhost''")
    case True
    from EqualFold_localhost [OF True] show ?thesis
    proof
      assume "map lower_char host = ''localhost''"
      then show ?thesis using hp(1) by (intro exI conjI disjI1)
    next
      assume "\<exists>a b. host = a @ [CHR 0xC5, CHR 0xBF] @ b \<and> map lower_char a = ''localho'' \<and> map lower_char b = ''t''"
      then show ?thesis using hp(1) 
        by - (rule exI [of _ host], rule exI [of _ port], rule conjI, assumption, rule disjI2, rule disjI1)
    qed
  next
    case False
    then obtain ip where ip: "ParseIP host = Some ip" "IsLoopback ip"
      using assms hp by (auto simp: validateListenAddress_def split: option.splits if_splits)
    have v6: "v4_in_6 = replicate 10 0 @ [255, 255]" by (simp add: v4_in_6_def)
    show ?thesis
    proof (cases "CHR '':'' \<in> set host")
      case True
      have "ip = replicate 15 0 @ [1] \<or> take 12 ip = replicate 10 0 @ [255, 255] \<and> ip ! 12 = 127"
        using ip(2) unfolding IsLoopback_def v6 by (simp split: if_splits)
      then have "\<exists>ip. CHR '':'' \<in> set host \<and> ParseIP host = Some ip \<and>
          (ip = replicate 15 0 @ [1] \<or> take 12 ip = replicate 10 0 @ [255, 255] \<and> ip ! 12 = 127)"
        using True ip(1) by (intro exI [of _ ip] conjI)
      then show ?thesis using hp(1)
        by - (rule exI [of _ host], rule exI [of _ port], rule conjI, assumption, rule disjI2, rule disjI2, rule disjI2)
    next
      case no_colon: False
      then obtain v4 where v4: "parseIPv4 host = Some v4" "ip = v4_in_6 @ v4"
        using ip(1) ParseIP_no_colon by blast
      note v = parseIPv4_decimal [OF v4(1)]
      have "v4 ! 0 = 127" using ip(2) by (simp add: v4(2) IsLoopback_def v4_in_6_def nth_append)
      then obtain x y z where l: "v4 = [127, x, y, z]" using v
        by (auto simp: length_Suc_conv numeral_eq_Suc)
      have "\<forall>n \<in> set v4. n \<le> 255"
        using v4(1) by (auto simp: parseIPv4_def octet_def split: list.splits option.splits if_splits)
      moreover have "decimal 127 = ''127''" by (simp add: decimal.simps digit_def)
      ultimately have "x \<le> 255 \<and> y \<le> 255 \<and> z \<le> 255 \<and>
          host = ''127.'' @ decimal x @ ''.'' @ decimal y @ ''.'' @ decimal z"
        using v l by auto
      then have "\<exists>x y z. x \<le> 255 \<and> y \<le> 255 \<and> z \<le> 255 \<and>
          host = ''127.'' @ decimal x @ ''.'' @ decimal y @ ''.'' @ decimal z"
        by (intro exI [of _ x] exI [of _ y] exI [of _ z])
      then show ?thesis using hp(1)
        by - (rule exI [of _ host], rule exI [of _ port], rule conjI, assumption, rule disjI2, rule disjI2, rule disjI1)
    qed
  qed
qed

section \<open>Properties\<close>

text \<open>A generated token is a usable one: 32 random bytes give 43 characters free of white space
  and control characters, and a request that presents it in the token header, or as a bearer token,
  is accepted.\<close>

theorem GenerateToken_accepted:
  assumes "length raw = 32" and "GenerateToken (Inr raw) = Inr t"
  shows "length t = 43 \<and> solid t \<and>
    validToken [(TokenHeader, [t])] t \<and> validToken [(''Authorization'', [''Bearer '' @ t])] t"
proof -
  have t: "t = base64_raw_url raw" using assms(2) by (simp add: GenerateToken_def)
  have l: "length t = 43" using base64_length [of raw] assms(1) by (simp add: t)
  then have ne: "t \<noteq> []" by auto
  have s: "solid t" unfolding t by (rule base64_solid)
  have k: "CanonicalHeaderKey TokenHeader = TokenHeader" "CanonicalHeaderKey ''Authorization'' = ''Authorization''"
    by (simp_all add: TokenHeader_def go_eval)
  have "t \<in> set (requestTokens [(TokenHeader, [t])])"
    using ne by (simp add: requestTokens_def header_Get_def header_values_def k)
  moreover have "t \<in> set (requestTokens [(''Authorization'', [''Bearer '' @ t])])"
    using ne bearerToken_solid [OF s ne] by (simp add: requestTokens_def header_Get_def header_values_def k)
  ultimately show ?thesis using l s by (auto simp: validToken_iff)
qed

lemma GenerateToken_accepted_witness:
  "validToken [(TokenHeader, [base64_raw_url (replicate 32 7)])] (base64_raw_url (replicate 32 7))"
  using GenerateToken_accepted [of "replicate 32 7"] by (simp add: GenerateToken_def)

end
