(* ===== verification/Platform_Paths.thy ===== *)
theory Platform_Paths
  imports Go_Unicode
begin

text \<open>
  \<open>internal/platform/paths.go\<close>: where the program keeps its configuration, state and cache. The
  host is what the process sees of it: its operating system, its environment (unset variables
  are empty) and the answer of \<open>os.UserHomeDir\<close>.
\<close>

record path_options =
  po_GOOS :: string
  po_HomeDir :: string
  po_Env :: "(string \<Rightarrow> string option) option"

record paths =
  ps_ConfigDir :: string
  ps_StateDir :: string
  ps_CacheDir :: string

record host =
  ho_GOOS :: string
  ho_Getenv :: "string \<Rightarrow> string"
  ho_UserHomeDir :: "error + string"

definition env_var :: "host \<Rightarrow> path_options \<Rightarrow> string \<Rightarrow> string" where
  "env_var host options key =
     (case po_Env options of
        Some m \<Rightarrow> (case m key of None \<Rightarrow> [] | Some v \<Rightarrow> v)
      | None \<Rightarrow> ho_Getenv host key)"

definition home_error :: error where
  "home_error = ''home directory is required to resolve Cachy paths''"

definition homeDir :: "host \<Rightarrow> path_options \<Rightarrow> error + string" where
  "homeDir host options =
     (if po_HomeDir options \<noteq> [] then Inr (po_HomeDir options)
      else if env_var host options ''HOME'' \<noteq> [] then Inr (env_var host options ''HOME'')
      else if env_var host options ''USERPROFILE'' \<noteq> [] then Inr (env_var host options ''USERPROFILE'')
      else case (po_Env options, ho_UserHomeDir host) of
        (None, Inr home) \<Rightarrow> if home \<noteq> [] then Inr home else Inl home_error
      | _ \<Rightarrow> Inl home_error)"

definition path_cut :: string where "path_cut = [CHR ''/'', BACKSLASH]"

definition join_os_path :: "string \<Rightarrow> string list \<Rightarrow> string" where
  "join_os_path goos parts =
     (let separator = (if goos = ''windows'' then [BACKSLASH] else ''/'');
          cleaned = filter (\<lambda>p. p \<noteq> []) (map (\<lambda>p. Trim p path_cut) parts)
      in if cleaned = [] then []
         else let prefix = (if HasPrefix (hd parts) ''/'' \<and> goos \<noteq> ''windows'' then ''/'' else [])
              in prefix @ Join cleaned separator)"

text \<open>A variable, or the fallback below the home directory.\<close>

definition windows_root :: "host \<Rightarrow> path_options \<Rightarrow> string \<Rightarrow> string \<Rightarrow> error + string" where
  "windows_root host options var leaf =
     (if env_var host options var \<noteq> [] then Inr (env_var host options var)
      else case homeDir host options of
        Inl err \<Rightarrow> Inl err
      | Inr home \<Rightarrow> Inr (join_os_path ''windows'' [home, ''AppData'', leaf]))"

definition resolveWindowsPaths :: "host \<Rightarrow> path_options \<Rightarrow> error + paths" where
  "resolveWindowsPaths host options =
     (case windows_root host options ''APPDATA'' ''Roaming'' of
        Inl err \<Rightarrow> Inl err
      | Inr roaming \<Rightarrow>
          (case windows_root host options ''LOCALAPPDATA'' ''Local'' of
             Inl err \<Rightarrow> Inl err
           | Inr loc \<Rightarrow>
               Inr \<lparr>ps_ConfigDir = join_os_path ''windows'' [roaming, ''Cachy''],
                    ps_StateDir = join_os_path ''windows'' [loc, ''Cachy''],
                    ps_CacheDir = join_os_path ''windows'' [loc, ''Cachy'', ''cache'']\<rparr>))"

definition resolveDarwinPaths :: "host \<Rightarrow> path_options \<Rightarrow> error + paths" where
  "resolveDarwinPaths host options =
     (case homeDir host options of
        Inl err \<Rightarrow> Inl err
      | Inr home \<Rightarrow>
          let appSupport = join_os_path ''darwin'' [home, ''Library'', ''Application Support'', ''Cachy'']
          in Inr \<lparr>ps_ConfigDir = appSupport, ps_StateDir = appSupport,
                  ps_CacheDir = join_os_path ''darwin'' [home, ''Library'', ''Caches'', ''Cachy'']\<rparr>)"

definition unix_root :: "host \<Rightarrow> path_options \<Rightarrow> string \<Rightarrow> string \<Rightarrow> string list \<Rightarrow> string" where
  "unix_root host options home var leaves =
     (if env_var host options var \<noteq> [] then env_var host options var
      else join_os_path ''linux'' (home # leaves))"

definition resolveUnixPaths :: "host \<Rightarrow> path_options \<Rightarrow> error + paths" where
  "resolveUnixPaths host options =
     (case homeDir host options of
        Inl err \<Rightarrow> Inl err
      | Inr home \<Rightarrow>
          let configRoot = unix_root host options home ''XDG_CONFIG_HOME'' [''.config''];
              stateRoot = unix_root host options home ''XDG_STATE_HOME'' [''.local'', ''state''];
              cacheRoot = unix_root host options home ''XDG_CACHE_HOME'' [''.cache'']
          in Inr \<lparr>ps_ConfigDir = join_os_path ''linux'' [configRoot, ''cachy''],
                  ps_StateDir = join_os_path ''linux'' [stateRoot, ''cachy''],
                  ps_CacheDir = join_os_path ''linux'' [cacheRoot, ''cachy'']\<rparr>)"

definition ResolvePaths :: "host \<Rightarrow> path_options \<Rightarrow> error + paths" where
  "ResolvePaths host options =
     (let goos = (if po_GOOS options = [] then ho_GOOS host else po_GOOS options)
      in if goos = ''windows'' then resolveWindowsPaths host options
         else if goos = ''darwin'' then resolveDarwinPaths host options
         else resolveUnixPaths host options)"

section \<open>Facts\<close>

lemma join_os_path_absolute:
  "goos \<noteq> ''windows'' \<Longrightarrow> parts \<noteq> [] \<Longrightarrow> HasPrefix (hd parts) ''/'' \<Longrightarrow>
     p \<in> set parts \<Longrightarrow> Trim p path_cut \<noteq> [] \<Longrightarrow> HasPrefix (join_os_path goos parts) ''/''"
  by (auto simp: join_os_path_def Let_def HasPrefix_single filter_empty_conv)

lemma Trim_id: "s = [] \<or> hd s \<notin> set cs \<and> last s \<notin> set cs \<Longrightarrow> Trim s cs = s"
  by (auto simp: Trim_def TrimLeft_id TrimRight_id)

lemma join_os_path_last:
  assumes "plain_leaf \<noteq> []" and "hd plain_leaf \<notin> set path_cut" and "last plain_leaf \<notin> set path_cut"
  shows "HasSuffix (join_os_path goos (parts @ [plain_leaf])) plain_leaf"
proof -
  have t: "Trim plain_leaf path_cut = plain_leaf" using assms by (intro Trim_id) simp
  have "HasSuffix (Join (xs @ [plain_leaf]) sep) plain_leaf" for xs sep
    by (cases "xs = []") (auto simp: Join_append HasSuffix_iff)
  then have "HasSuffix (p @ Join (xs @ [plain_leaf]) sep) plain_leaf" for p xs sep
    unfolding HasSuffix_iff by (metis append.assoc)
  then show ?thesis using assms(1) by (simp add: join_os_path_def Let_def t)
qed

lemma home_error_nonempty: "home_error \<noteq> []"
  by (simp add: home_error_def)

text \<open>The home directory an outcome rests on.\<close>

definition absolute :: "string \<Rightarrow> bool" where
  "absolute p \<longleftrightarrow> HasPrefix p ''/''"

lemma join_leaf_absolute:
  assumes "goos \<noteq> ''windows''" and "absolute root" and "leaf \<noteq> []"
    and "hd leaf \<notin> set path_cut" and "last leaf \<notin> set path_cut"
  shows "absolute (join_os_path goos (root # leaf # leaves))"
proof -
  have "Trim leaf path_cut \<noteq> []" using assms by (simp add: Trim_id)
  then show ?thesis
    using assms unfolding absolute_def by (intro join_os_path_absolute [where p = leaf]) simp_all
qed

section \<open>Properties\<close>

text \<open>On Linux, macOS and the other Unixes, when the home directory and the XDG variables that
  are set are absolute, all three directories are absolute and belong to the program by name; and
  resolving fails exactly when no home directory is known.\<close>

theorem ResolvePaths_unix:
  assumes "(if po_GOOS options = [] then ho_GOOS host else po_GOOS options) \<noteq> ''windows''"
    and "\<forall>v \<in> set [''XDG_CONFIG_HOME'', ''XDG_STATE_HOME'', ''XDG_CACHE_HOME''].
      env_var host options v = [] \<or> absolute (env_var host options v)"
    and "\<forall>home. homeDir host options = Inr home \<longrightarrow> absolute home"
  shows "(is_ok (ResolvePaths host options) \<longleftrightarrow> is_ok (homeDir host options)) \<and>
    (\<forall>p. ResolvePaths host options = Inr p \<longrightarrow>
       list_all (\<lambda>d. absolute d \<and> (HasSuffix d ''cachy'' \<or> HasSuffix d ''Cachy''))
         [ps_ConfigDir p, ps_StateDir p, ps_CacheDir p])"
proof -
  have sfx: "HasSuffix (join_os_path goos (ps @ [''cachy''])) ''cachy''"
    "HasSuffix (join_os_path goos (ps @ [''Cachy''])) ''Cachy''" for goos ps
    by (rule join_os_path_last; simp add: path_cut_def)+
  have root: "absolute (join_os_path goos (home # leaf # leaves))"
    if "goos \<noteq> ''windows''" "absolute home" "leaf \<in> {''cachy'', ''Library'', ''.config'', ''.local'', ''.cache''}"
    for goos home leaf leaves
    by (rule join_leaf_absolute) (use that in \<open>auto simp: path_cut_def\<close>)
  show ?thesis
  proof (cases "homeDir host options")
    case (Inl e)
    then show ?thesis
      using assms(1) by (simp add: ResolvePaths_def resolveUnixPaths_def resolveDarwinPaths_def Let_def)
  next
    case (Inr home)
    then have h: "absolute home" using assms(3) by blast
    have "absolute (unix_root host options home v (leaf # leaves))"
      if "v \<in> set [''XDG_CONFIG_HOME'', ''XDG_STATE_HOME'', ''XDG_CACHE_HOME'']"
        "leaf \<in> {''.config'', ''.local'', ''.cache''}" for v leaf leaves
      using assms(2) that h by (auto simp: unix_root_def intro!: root)
    note unix = this
    show ?thesis
      using assms(1) Inr h sfx(1) [of _ "[_]"] sfx(2) [of _ "[_, _, _]"] sfx(2) [of _ "[_, _]"]
      by (auto simp: ResolvePaths_def resolveUnixPaths_def resolveDarwinPaths_def Let_def
          intro!: root unix)
  qed
qed

lemma ResolvePaths_unix_witness:
  "is_ok (ResolvePaths \<lparr>ho_GOOS = ''linux'', ho_Getenv = (\<lambda>_. []), ho_UserHomeDir = Inl []\<rparr>
     \<lparr>po_GOOS = [], po_HomeDir = ''/home/alex'', po_Env = Some (\<lambda>_. None)\<rparr>)"
proof -
  let ?h = "\<lparr>ho_GOOS = ''linux'', ho_Getenv = (\<lambda>_. []), ho_UserHomeDir = Inl []\<rparr>"
  let ?o = "\<lparr>po_GOOS = [], po_HomeDir = ''/home/alex'', po_Env = Some (\<lambda>_. None)\<rparr>"
  have "homeDir ?h ?o = Inr ''/home/alex''" by (simp add: homeDir_def)
  then show ?thesis
    using ResolvePaths_unix [of ?o ?h] by (simp add: env_var_def absolute_def HasPrefix_single)
qed

text \<open>
  On Windows the leading backslashes of a redirected profile are cut off: a share becomes a path
  relative to the current directory.
\<close>

lemma windows_share_becomes_relative:
  "join_os_path ''windows'' [[BACKSLASH, BACKSLASH] @ ''srv'' @ [BACKSLASH] @ ''profiles'', ''Cachy''] =
     ''srv'' @ [BACKSLASH] @ ''profiles'' @ [BACKSLASH] @ ''Cachy''"
  by (simp add: join_os_path_def Trim_def TrimLeft_def TrimRight_def path_cut_def)

end
