(* ===== verification/Admin_Server.thy ===== *)
theory Admin_Server
  imports Admin_Auth Proxy Platform_Paths Go_Json_Decode
begin

text \<open>
  \<open>internal/admin/server.go\<close> and the handlers of \<open>auth.go\<close>: the admin interface behind its token.
  A handler maps a request and the server to a reply and the server after it; a reply's JSON body
  is the value handed to the encoder. The telemetry snapshot at the time of the request is an input, \<open>None\<close> for a nil source.
\<close>

record runtime_config =
  rc_ProxyListenAddress :: string
  rc_TargetBaseURL :: string
  rc_ProviderCredential :: string

record proxy_status =
  px_ListenAddress :: string
  px_TargetConfigured :: bool

record status_response =
  sr_Status :: string
  sr_Version :: string
  sr_Proxy :: proxy_status
  sr_Paths :: paths

record metrics_response =
  mr_RequestsTotal :: int
  mr_ErrorsTotal :: int
  mr_AverageLatencyMS :: int
  mr_StatusCounts :: "(string \<times> int) list"
  mr_FailureCategories :: "(string \<times> int) list"

record diagnostics_response =
  dr_Health :: string
  dr_Paths :: paths
  dr_ProxyListenAddress :: string
  dr_AdminListenAddress :: string
  dr_FailureCategories :: "(string \<times> int) list"

record server =
  sv_version :: string
  sv_paths :: paths
  sv_config :: runtime_config
  sv_admin :: string

record server_config =
  sc_ListenAddress :: string
  sc_Token :: string
  sc_Version :: string
  sc_Paths :: paths
  sc_RuntimeConfig :: runtime_config

datatype reply_body =
    TextBody string
  | RedirectBody string
  | StatusBody status_response
  | ConfigBody runtime_config
  | MetricsBody metrics_response
  | DiagnosticsBody diagnostics_response

record reply =
  ry_Status :: int
  ry_Body :: reply_body

section \<open>Metrics\<close>

fun count_up :: "string \<Rightarrow> (string \<times> int) list \<Rightarrow> (string \<times> int) list" where
  "count_up k [] = [(k, 1)]"
| "count_up k ((q, n) # m) = (if q = k then (q, wrap64 (n + 1)) # m else (q, n) # count_up k m)"

definition counted :: "(string \<times> int) list \<Rightarrow> string \<Rightarrow> int" where
  "counted m k = (case map_of m k of None \<Rightarrow> 0 | Some n \<Rightarrow> n)"

definition is_failure :: "request_telemetry \<Rightarrow> bool" where
  "is_failure r \<longleftrightarrow> rt_ErrorKind r \<noteq> [] \<and> rt_ErrorKind r \<noteq> ErrorKindNone"

definition count_record :: "request_telemetry \<Rightarrow> metrics_response \<times> int \<Rightarrow> metrics_response \<times> int" where
  "count_record r acc =
     (let m = fst acc;
          m = m\<lparr>mr_RequestsTotal := wrap64 (mr_RequestsTotal m + 1)\<rparr>;
          latencyTotal = wrap64 (snd acc + Milliseconds (rt_Latency r));
          m = m\<lparr>mr_StatusCounts := count_up (Itoa (rt_Status r)) (mr_StatusCounts m)\<rparr>;
          m = (if is_failure r
               then m\<lparr>mr_ErrorsTotal := wrap64 (mr_ErrorsTotal m + 1),
                      mr_FailureCategories := count_up (rt_ErrorKind r) (mr_FailureCategories m)\<rparr>
               else m)
      in (m, latencyTotal))"

definition empty_metrics :: metrics_response where
  "empty_metrics = \<lparr>mr_RequestsTotal = 0, mr_ErrorsTotal = 0, mr_AverageLatencyMS = 0,
     mr_StatusCounts = [], mr_FailureCategories = []\<rparr>"

definition metricsFromTelemetry :: "request_telemetry list \<Rightarrow> metrics_response" where
  "metricsFromTelemetry records =
     (let acc = fold count_record records (empty_metrics, 0)
      in if 0 < mr_RequestsTotal (fst acc)
         then (fst acc)\<lparr>mr_AverageLatencyMS := wrap64 (quot (snd acc) (mr_RequestsTotal (fst acc)))\<rparr>
         else fst acc)"

definition failureCategories :: "request_telemetry list \<Rightarrow> (string \<times> int) list" where
  "failureCategories records = mr_FailureCategories (metricsFromTelemetry records)"

definition telemetrySnapshot :: "request_telemetry list option \<Rightarrow> request_telemetry list" where
  "telemetrySnapshot snap = (case snap of None \<Rightarrow> [] | Some rs \<Rightarrow> rs)"

section \<open>Configuration\<close>

definition Redacted :: string where "Redacted = ''<redacted>''"

definition redactedConfigResponse :: "runtime_config \<Rightarrow> runtime_config" where
  "redactedConfigResponse config =
     \<lparr>rc_ProxyListenAddress = rc_ProxyListenAddress config, rc_TargetBaseURL = rc_TargetBaseURL config,
      rc_ProviderCredential = (if rc_ProviderCredential config \<noteq> [] then Redacted else [])\<rparr>"

definition validateTargetBaseURL :: "string \<Rightarrow> error option" where
  "validateTargetBaseURL raw =
     (if raw = [] then Some ''target base URL is required''
      else case url_Parse raw of
        None \<Rightarrow> Some ''target base URL must include scheme and host''
      | Some target \<Rightarrow>
          if u_Scheme target = [] \<or> u_Host target = []
          then Some ''target base URL must include scheme and host'' else None)"

text \<open>An unknown field is an error; a known one is a string or null.\<close>

definition update_field :: "string \<Rightarrow> string \<Rightarrow> string \<Rightarrow> string option" where
  "update_field key raw prev =
     (if EqualFold key ''target_base_url'' then decode_string prev raw else None)"

definition decode_update :: "string \<Rightarrow> string option" where
  "decode_update body =
     (case first_value scan_init [] body of
        None \<Rightarrow> None
      | Some v \<Rightarrow> decode_struct update_field [] v)"

section \<open>Handlers\<close>

definition text_reply :: "string \<Rightarrow> int \<Rightarrow> reply" where
  "text_reply msg status = \<lparr>ry_Status = status, ry_Body = TextBody (msg @ [NL])\<rparr>"

definition writeJSON :: "int \<Rightarrow> reply_body \<Rightarrow> reply" where
  "writeJSON status body = \<lparr>ry_Status = status, ry_Body = body\<rparr>"

definition methodNotAllowed :: reply where
  "methodNotAllowed = text_reply (''method not allowed'' @ [NL]) 405"

definition handleStatus :: "http_request \<Rightarrow> server \<Rightarrow> reply" where
  "handleStatus r s =
     (if hr_Method r \<noteq> ''GET'' then methodNotAllowed
      else writeJSON 200 (StatusBody \<lparr>sr_Status = ''ok'', sr_Version = sv_version s,
        sr_Proxy = \<lparr>px_ListenAddress = rc_ProxyListenAddress (sv_config s),
                    px_TargetConfigured = (rc_TargetBaseURL (sv_config s) \<noteq> [])\<rparr>,
        sr_Paths = sv_paths s\<rparr>))"

definition handleMetrics :: "request_telemetry list option \<Rightarrow> http_request \<Rightarrow> reply" where
  "handleMetrics snap r =
     (if hr_Method r \<noteq> ''GET'' then methodNotAllowed
      else writeJSON 200 (MetricsBody (metricsFromTelemetry (telemetrySnapshot snap))))"

definition handleDiagnostics :: "request_telemetry list option \<Rightarrow> http_request \<Rightarrow> server \<Rightarrow> reply" where
  "handleDiagnostics snap r s =
     (if hr_Method r \<noteq> ''GET'' then methodNotAllowed
      else writeJSON 200 (DiagnosticsBody \<lparr>dr_Health = ''ok'', dr_Paths = sv_paths s,
        dr_ProxyListenAddress = rc_ProxyListenAddress (sv_config s), dr_AdminListenAddress = sv_admin s,
        dr_FailureCategories = failureCategories (telemetrySnapshot snap)\<rparr>))"

definition handleGetConfig :: "server \<Rightarrow> reply" where
  "handleGetConfig s = writeJSON 200 (ConfigBody (redactedConfigResponse (sv_config s)))"

definition handlePutConfig :: "http_request \<Rightarrow> server \<Rightarrow> reply \<times> server" where
  "handlePutConfig r s =
     (case decode_update (hr_Body r) of
        None \<Rightarrow> (text_reply (''invalid config'' @ [NL]) 400, s)
      | Some raw \<Rightarrow>
          let target = TrimRight raw ''/''
          in if validateTargetBaseURL target \<noteq> None
             then (text_reply (''invalid target_base_url'' @ [NL]) 400, s)
             else let s' = s\<lparr>sv_config := (sv_config s)\<lparr>rc_TargetBaseURL := target\<rparr>\<rparr>
                  in (writeJSON 200 (ConfigBody (redactedConfigResponse (sv_config s'))), s'))"

definition handleConfig :: "http_request \<Rightarrow> server \<Rightarrow> reply \<times> server" where
  "handleConfig r s =
     (if hr_Method r = ''GET'' then (handleGetConfig s, s)
      else if hr_Method r = ''PUT'' then handlePutConfig r s
      else (methodNotAllowed, s))"

datatype admin_route = StatusRoute | ConfigRoute | MetricsRoute | DiagnosticsRoute

definition admin_routes :: "http_request \<Rightarrow> admin_route route" where
  "admin_routes = ServeMux
     [(''/admin/v1/status'', StatusRoute), (''/admin/v1/config'', ConfigRoute),
      (''/admin/v1/metrics'', MetricsRoute), (''/admin/v1/diagnostics'', DiagnosticsRoute)] None"

definition admin_mux ::
  "request_telemetry list option \<Rightarrow> http_request \<Rightarrow> server \<Rightarrow> reply \<times> server" where
  "admin_mux snap r s =
     (case admin_routes r of
        MuxHandler StatusRoute \<Rightarrow> (handleStatus r s, s)
      | MuxHandler ConfigRoute \<Rightarrow> handleConfig r s
      | MuxHandler MetricsRoute \<Rightarrow> (handleMetrics snap r, s)
      | MuxHandler DiagnosticsRoute \<Rightarrow> (handleDiagnostics snap r s, s)
      | MuxRedirect location \<Rightarrow> (\<lparr>ry_Status = 301, ry_Body = RedirectBody location\<rparr>, s)
      | MuxNotFound \<Rightarrow> (text_reply ''404 page not found'' 404, s))"

definition requireToken ::
  "string \<Rightarrow> (http_request \<Rightarrow> 's \<Rightarrow> reply \<times> 's) \<Rightarrow> http_request \<Rightarrow> 's \<Rightarrow> reply \<times> 's" where
  "requireToken token handler r s =
     (if \<not> validToken (hr_Header r) token
      then (\<lparr>ry_Status = 401, ry_Body = TextBody (''unauthorized'' @ [NL])\<rparr>, s)
      else handler r s)"

text \<open>\<open>New\<close>: a handler, or the reason the configuration is refused.\<close>

definition New ::
  "string \<Rightarrow> string \<Rightarrow> (http_request \<Rightarrow> 's \<Rightarrow> reply \<times> 's) \<Rightarrow>
   error + (http_request \<Rightarrow> 's \<Rightarrow> reply \<times> 's)" where
  "New listen token handler =
     (case validateListenAddress listen of
        Some err \<Rightarrow> Inl err
      | None \<Rightarrow> if token = [] then Inl ''admin token is required'' else Inr (requireToken token handler))"

definition NewServer ::
  "request_telemetry list option \<Rightarrow> server_config \<Rightarrow>
   error + (server \<times> (http_request \<Rightarrow> server \<Rightarrow> reply \<times> server))" where
  "NewServer snap config =
     (case validateTargetBaseURL (rc_TargetBaseURL (sc_RuntimeConfig config)) of
        Some err \<Rightarrow> Inl err
      | None \<Rightarrow>
          let s = \<lparr>sv_version = sc_Version config, sv_paths = sc_Paths config,
                   sv_config = sc_RuntimeConfig config, sv_admin = sc_ListenAddress config\<rparr>
          in (case New (sc_ListenAddress config) (sc_Token config) (admin_mux snap) of
                Inl err \<Rightarrow> Inl err
              | Inr h \<Rightarrow> Inr (s, h)))"

section \<open>Counting\<close>

lemma counted_count_up: "counted (count_up k m) q = (if q = k then wrap64 (counted m q + 1) else counted m q)"
  by (induction k m rule: count_up.induct) (auto simp: counted_def wrap64_def)

lemma count_records:
  "let acc = fold count_record rs (empty_metrics, 0)
   in mr_RequestsTotal (fst acc) = wrap64 (int (length rs)) \<and>
      mr_ErrorsTotal (fst acc) = wrap64 (int (length (filter is_failure rs))) \<and>
      counted (mr_StatusCounts (fst acc)) k = wrap64 (int (length (filter (\<lambda>r. Itoa (rt_Status r) = k) rs))) \<and>
      counted (mr_FailureCategories (fst acc)) k =
        wrap64 (int (length (filter (\<lambda>r. is_failure r \<and> rt_ErrorKind r = k) rs))) \<and>
      mr_AverageLatencyMS (fst acc) = 0 \<and>
      snd acc = wrap64 (\<Sum>r\<leftarrow>rs. Milliseconds (rt_Latency r))"
proof (induction rs rule: rev_induct)
  case Nil
  show ?case by (simp add: Let_def empty_metrics_def counted_def)
next
  case (snoc r rs)
  then show ?case
    by (cases "is_failure r")
      (auto simp: Let_def count_record_def counted_count_up wrap64_collapse add.commute)
qed

section \<open>Properties\<close>

text \<open>The metrics summarize the records, as 64-bit numbers: how many there are, how many failed,
  how many had each status and each failure kind, and the mean latency in milliseconds.\<close>

theorem metricsFromTelemetry_summary:
  "(let m = metricsFromTelemetry rs; n = wrap64 (int (length rs))
    in mr_RequestsTotal m = n \<and>
       mr_ErrorsTotal m = wrap64 (int (length (filter is_failure rs))) \<and>
       (\<forall>k. counted (mr_StatusCounts m) k = wrap64 (int (length (filter (\<lambda>r. Itoa (rt_Status r) = k) rs)))) \<and>
       (\<forall>k. counted (mr_FailureCategories m) k =
         wrap64 (int (length (filter (\<lambda>r. is_failure r \<and> rt_ErrorKind r = k) rs)))) \<and>
       mr_AverageLatencyMS m =
         (if 0 < n then wrap64 (quot (wrap64 (\<Sum>r\<leftarrow>rs. Milliseconds (rt_Latency r))) n) else 0))"
  using count_records [of rs] by (simp add: metricsFromTelemetry_def Let_def)

lemma NewServer_Inr:
  assumes "NewServer snap config = Inr (s, h)"
  shows "h = requireToken (sc_Token config) (admin_mux snap) \<and> sc_Token config \<noteq> [] \<and>
    validateListenAddress (sc_ListenAddress config) = None \<and>
    validateTargetBaseURL (rc_TargetBaseURL (sc_RuntimeConfig config)) = None \<and>
    s = \<lparr>sv_version = sc_Version config, sv_paths = sc_Paths config,
         sv_config = sc_RuntimeConfig config, sv_admin = sc_ListenAddress config\<rparr>"
  using assms by (auto simp: NewServer_def New_def Let_def split: option.splits sum.splits if_splits)

text \<open>The tokens a request presents, as the interface describes them.\<close>

lemma requestTokens_iff:
  "t \<in> set (requestTokens h) \<longleftrightarrow> t \<noteq> [] \<and> (t = header_Get h ''X-Cachy-Admin-Token'' \<or>
     (\<exists>scheme. Fields (header_Get h ''Authorization'') = [scheme, t] \<and> EqualFold scheme ''Bearer''))"
  by (auto simp: requestTokens_def TokenHeader_def bearerToken_def Let_def length_Suc_conv numeral_2_eq_2 split: if_splits)

text \<open>C14. The admin interface exists only with a token and on an address whose host is \<open>localhost\<close> in some letter
  case, an IPv4 loopback address \<open>127.x.y.z\<close>, an IPv6 text of such an address or of \<open>::1\<close>, or, because of the
  Unicode folding of \<open>EqualFold\<close>, \<open>localhost\<close> spelled with the two bytes of a long s (U+017F). A request whose
  token header and whose bearer token in the authorization header both do not hash like the token is answered
  with status 401 and \<open>unauthorized\<close> and changes nothing; any other request reaches the routes.\<close>

theorem admin_requires_token:
  assumes "NewServer snap config = Inr (s0, h)"
  shows "sc_Token config \<noteq> [] \<and>
    (\<exists>host port. SplitHostPort (sc_ListenAddress config) = Some (host, port) \<and>
      (map lower_char host = ''localhost'' \<or>
       (\<exists>a b. host = a @ [CHR 0xC5, CHR 0xBF] @ b \<and> map lower_char a = ''localho'' \<and> map lower_char b = ''t'') \<or>
       (\<exists>x y z. x \<le> 255 \<and> y \<le> 255 \<and> z \<le> 255 \<and>
          host = ''127.'' @ decimal x @ ''.'' @ decimal y @ ''.'' @ decimal z) \<or>
       (\<exists>ip. CHR '':'' \<in> set host \<and> ParseIP host = Some ip \<and>
          (ip = replicate 15 0 @ [1] \<or> take 12 ip = replicate 10 0 @ [255, 255] \<and> ip ! 12 = 127)))) \<and>
    (if \<exists>t. t \<noteq> [] \<and> sha256 t = sha256 (sc_Token config) \<and>
        (t = header_Get (hr_Header r) ''X-Cachy-Admin-Token'' \<or>
         (\<exists>scheme. Fields (header_Get (hr_Header r) ''Authorization'') = [scheme, t] \<and> EqualFold scheme ''Bearer''))
     then h r s = admin_mux snap r s
     else h r s = (\<lparr>ry_Status = 401, ry_Body = TextBody (''unauthorized'' @ [NL])\<rparr>, s))"
proof -
  note n = NewServer_Inr [OF assms]
  have "validToken (hr_Header r) (sc_Token config) \<longleftrightarrow> (\<exists>t. t \<noteq> [] \<and> sha256 t = sha256 (sc_Token config) \<and>
      (t = header_Get (hr_Header r) ''X-Cachy-Admin-Token'' \<or>
       (\<exists>scheme. Fields (header_Get (hr_Header r) ''Authorization'') = [scheme, t] \<and> EqualFold scheme ''Bearer'')))"
    unfolding validToken_iff Bex_def requestTokens_iff by blast
  then have "if \<exists>t. t \<noteq> [] \<and> sha256 t = sha256 (sc_Token config) \<and>
        (t = header_Get (hr_Header r) ''X-Cachy-Admin-Token'' \<or>
         (\<exists>scheme. Fields (header_Get (hr_Header r) ''Authorization'') = [scheme, t] \<and> EqualFold scheme ''Bearer''))
     then h r s = admin_mux snap r s
     else h r s = (\<lparr>ry_Status = 401, ry_Body = TextBody (''unauthorized'' @ [NL])\<rparr>, s)"
    using n by (simp only: requireToken_def) simp
  then show ?thesis
    by (intro conjI validateListenAddress_loopback) (use n in blast)+
qed

text \<open>The configuration the witnesses run.\<close>

definition demo_config :: server_config where
  "demo_config = \<lparr>sc_ListenAddress = ''localhost:1'', sc_Token = ''t'', sc_Version = ''v'',
     sc_Paths = \<lparr>ps_ConfigDir = [], ps_StateDir = [], ps_CacheDir = []\<rparr>,
     sc_RuntimeConfig = \<lparr>rc_ProxyListenAddress = [], rc_TargetBaseURL = ''http://a'',
       rc_ProviderCredential = ''k''\<rparr>\<rparr>"

definition demo_server :: server where
  "demo_server = \<lparr>sv_version = ''v'', sv_paths = sc_Paths demo_config,
     sv_config = sc_RuntimeConfig demo_config, sv_admin = ''localhost:1''\<rparr>"

lemma demo_NewServer:
  "NewServer None demo_config = Inr (demo_server, requireToken ''t'' (admin_mux None))"
proof -
  have "SplitHostPort ''localhost:1'' = Some (''localhost'', ''1'')" by (simp add: go_eval)
  then have "validateListenAddress ''localhost:1'' = None"
    by (simp add: validateListenAddress_def EqualFold_ascii)
  moreover have "validateTargetBaseURL ''http://a'' = None"
    by (simp add: validateTargetBaseURL_def go_eval)
  ultimately show ?thesis
    by (simp add: NewServer_def New_def demo_config_def demo_server_def)
qed

lemma admin_requires_token_witness:
  "snd (requireToken ''t'' (admin_mux None)
     \<lparr>hr_Method = ''PUT'', hr_Path = ''/admin/v1/config'', hr_RawPath = [], hr_RawQuery = [], hr_Header = [], hr_Body = []\<rparr>
     demo_server) = demo_server"
  using admin_requires_token [OF demo_NewServer,
      of "\<lparr>hr_Method = ''PUT'', hr_Path = ''/admin/v1/config'', hr_RawPath = [], hr_RawQuery = [], hr_Header = [], hr_Body = []\<rparr>" demo_server]
  by (simp add: requestTokens_def header_Get_def header_values_def bearerToken_def Fields_def FieldsFunc_def
      split: if_splits)

section \<open>Reachable servers\<close>

text \<open>The servers that requests, with whatever snapshots, lead to.\<close>

inductive admin_reach :: "string \<Rightarrow> server \<Rightarrow> server \<Rightarrow> bool" for token s0 where
  init: "admin_reach token s0 s0"
| serve: "admin_reach token s0 s \<Longrightarrow>
     requireToken token (admin_mux snap) r s = (rep, s') \<Longrightarrow> admin_reach token s0 s'"

inductive_cases admin_reach_cases: "admin_reach token s0 s"

lemma handlePutConfig_state:
  "snd (handlePutConfig r s) = s \<or>
   (\<exists>u. validateTargetBaseURL u = None \<and>
      snd (handlePutConfig r s) = s\<lparr>sv_config := (sv_config s)\<lparr>rc_TargetBaseURL := u\<rparr>\<rparr>)"
  by (auto simp: handlePutConfig_def Let_def split: option.split)

lemma requireToken_mux_state:
  "snd (requireToken token (admin_mux snap) r s) = s \<or>
   (\<exists>u. validateTargetBaseURL u = None \<and>
      snd (requireToken token (admin_mux snap) r s) =
        s\<lparr>sv_config := (sv_config s)\<lparr>rc_TargetBaseURL := u\<rparr>\<rparr>)"
proof -
  have "snd (handleConfig r s) = s \<or>
    (\<exists>u. validateTargetBaseURL u = None \<and>
       snd (handleConfig r s) = s\<lparr>sv_config := (sv_config s)\<lparr>rc_TargetBaseURL := u\<rparr>\<rparr>)"
    using handlePutConfig_state [of r s] by (auto simp: handleConfig_def)
  then show ?thesis
    by (cases "validToken (hr_Header r) token")
      (simp_all add: requireToken_def admin_mux_def split: route.split admin_route.split)
qed

text \<open>C27. Through any sequence of requests the server's target stays a URL with scheme and host, and
  its provider credential, listen addresses, version and paths stay what they were configured as:
  the target is all the admin interface can change.\<close>

theorem admin_reach_invariant:
  assumes "NewServer snap config = Inr (s0, h)" and "admin_reach (sc_Token config) s0 s"
  shows "validateTargetBaseURL (rc_TargetBaseURL (sv_config s)) = None \<and>
    s\<lparr>sv_config := (sv_config s)\<lparr>rc_TargetBaseURL := rc_TargetBaseURL (sc_RuntimeConfig config)\<rparr>\<rparr> = s0"
  using assms(2)
proof (induction rule: admin_reach.induct)
  case init
  then show ?case using NewServer_Inr [OF assms(1)] by simp
next
  case (serve s snap r rep s')
  then have "s' = snd (requireToken (sc_Token config) (admin_mux snap) r s)" by simp
  then show ?case using serve.IH requireToken_mux_state [of "sc_Token config" snap r s] by auto
qed

definition put_request :: http_request where
  "put_request = \<lparr>hr_Method = ''PUT'', hr_Path = ''/admin/v1/config'', hr_RawPath = [], hr_RawQuery = [],
     hr_Header = [(''Authorization'', [''Bearer t''])],
     hr_Body = ''{'' @ QUOTE # ''target_base_url'' @ QUOTE # '':'' @ QUOTE # ''http://b/'' @ QUOTE # ''}''\<rparr>"

lemma put_request_decoded: "decode_update (hr_Body put_request) = Some ''http://b/''"
  by (simp add: decode_update_def put_request_def update_field_def go_eval)

lemma put_request_served:
  "snd (requireToken ''t'' (admin_mux None) put_request demo_server) =
     demo_server\<lparr>sv_config := (sv_config demo_server)\<lparr>rc_TargetBaseURL := ''http://b''\<rparr>\<rparr>"
proof -
  have "''t'' \<in> set (requestTokens (hr_Header put_request))"
    by (simp add: put_request_def requestTokens_def header_Get_def header_values_def bearerToken_def go_eval)
  then have "validToken (hr_Header put_request) ''t''" by (auto simp: validToken_iff)
  moreover have "admin_routes put_request = MuxHandler ConfigRoute"
    by (simp add: admin_routes_def put_request_def go_eval)
  moreover have "TrimRight ''http://b/'' ''/'' = ''http://b''" by (simp add: go_eval)
  moreover have "validateTargetBaseURL ''http://b'' = None" by (simp add: validateTargetBaseURL_def go_eval)
  moreover have "hr_Method put_request = ''PUT''" by (simp add: put_request_def)
  ultimately show ?thesis
    using put_request_decoded
    by (simp add: requireToken_def admin_mux_def handleConfig_def handlePutConfig_def Let_def)
qed

lemma admin_reach_invariant_witness:
  "snd (requireToken ''t'' (admin_mux None) put_request demo_server) \<noteq> demo_server \<and>
   validateTargetBaseURL (rc_TargetBaseURL (sv_config
     (snd (requireToken ''t'' (admin_mux None) put_request demo_server)))) = None"
proof -
  have t: "sc_Token demo_config = ''t''" by (simp add: demo_config_def)
  have "admin_reach (sc_Token demo_config) demo_server
      (snd (requireToken ''t'' (admin_mux None) put_request demo_server))"
    unfolding t by (rule admin_reach.serve [OF admin_reach.init]) (rule prod.collapse [symmetric])
  from admin_reach_invariant [OF demo_NewServer this] put_request_served show ?thesis
    by (simp add: demo_server_def demo_config_def)
qed

text \<open>C28. No reply depends on the provider credential: two servers that differ only in which
  credential they hold answer every request alike, so nothing of it but its presence is disclosed.\<close>

theorem admin_hides_credential:
  assumes "rc_ProviderCredential (sv_config s) \<noteq> []" and "c \<noteq> []"
  shows "fst (requireToken token (admin_mux snap) r
      (s\<lparr>sv_config := (sv_config s)\<lparr>rc_ProviderCredential := c\<rparr>\<rparr>)) =
    fst (requireToken token (admin_mux snap) r s)"
  using assms
  by (simp add: requireToken_def admin_mux_def handleStatus_def handleConfig_def handleGetConfig_def
      handlePutConfig_def handleDiagnostics_def redactedConfigResponse_def Let_def
      split: option.split route.split admin_route.split)

lemma admin_hides_credential_witness:
  "fst (requireToken ''t'' (admin_mux None)
      \<lparr>hr_Method = ''GET'', hr_Path = ''/admin/v1/config'', hr_RawPath = [], hr_RawQuery = [],
        hr_Header = [(''Authorization'', [''Bearer t''])], hr_Body = []\<rparr>
      (demo_server\<lparr>sv_config := (sv_config demo_server)\<lparr>rc_ProviderCredential := ''other''\<rparr>\<rparr>)) =
   fst (requireToken ''t'' (admin_mux None)
      \<lparr>hr_Method = ''GET'', hr_Path = ''/admin/v1/config'', hr_RawPath = [], hr_RawQuery = [],
        hr_Header = [(''Authorization'', [''Bearer t''])], hr_Body = []\<rparr> demo_server)"
  by (rule admin_hides_credential) (simp_all add: demo_server_def demo_config_def)

end
