(* ===== verification/Proxy_Admin.thy ===== *)
theory Proxy_Admin
  imports Admin_Server
begin

text \<open>
  The proxy and the admin interface at work together (\<open>internal/proxy\<close>, \<open>internal/observability\<close>, \<open>internal/admin\<close>): the requests
  the proxy answers, one after another, with the one logger and telemetry store they share, and the metrics that the
  admin server then computes from a snapshot of the store.
\<close>

section \<open>A session of the proxy\<close>

text \<open>Each exchange is a request and what the network does in it.\<close>

fun proxy_session ::
  "unicode_tables \<Rightarrow> url \<Rightarrow> proxy_config \<Rightarrow> (upstream_env \<times> http_request) list \<Rightarrow> proxy_config \<times> proxy_effect list"
where
  "proxy_session T target c [] = (c, [])"
| "proxy_session T target c (x # xs) =
     (let eff = serve_proxy T target c (fst x) (snd x);
          (c', effs) = proxy_session T target (c\<lparr>pc_Logger := pe_Logger eff, pc_Telemetry := pe_Telemetry eff\<rparr>) xs
      in (c', eff # effs))"

text \<open>The upstream answered, but its body broke off.\<close>

definition broken_copy :: "upstream_env \<Rightarrow> proxy_effect \<Rightarrow> bool" where
  "broken_copy env eff \<longleftrightarrow> ue_CopyError env \<noteq> None \<and>
     (case pe_Sent eff of None \<Rightarrow> False | Some req \<Rightarrow> (case ue_Do env req of Inl _ \<Rightarrow> False | Inr _ \<Rightarrow> True))"

definition failed_exchange :: "(upstream_env \<times> http_request) \<times> proxy_effect \<Rightarrow> bool" where
  "failed_exchange xe \<longleftrightarrow> 500 \<le> hp_Status (pe_Response (snd xe)) \<or> broken_copy (fst (fst xe)) (snd xe)"

definition forwarded :: "(upstream_env \<times> http_request) \<times> proxy_effect \<Rightarrow> bool" where
  "forwarded xe \<longleftrightarrow> proxy_mux (snd (fst xe)) = MuxHandler TransparentRoute"

text \<open>What a record says of the exchange it was made for.\<close>

definition records_exchange :: "request_telemetry \<Rightarrow> (upstream_env \<times> http_request) \<times> proxy_effect \<Rightarrow> bool" where
  "records_exchange rt xe \<longleftrightarrow> rt_Status rt = hp_Status (pe_Response (snd xe)) \<and>
     (is_failure rt \<longleftrightarrow> failed_exchange xe) \<and> rt_Latency rt = ue_Latency (fst (fst xe))"

lemma Build_failure:
  "is_failure (BuildRequestTelemetry req status latency started kind) \<longleftrightarrow> kind \<noteq> [] \<and> kind \<noteq> ErrorKindNone"
  "rt_Status (BuildRequestTelemetry req status latency started kind) = status"
  "rt_Latency (BuildRequestTelemetry req status latency started kind) = latency"
  by (auto simp: is_failure_def BuildRequestTelemetry_def Let_def split: option.split)

lemma ErrorKinds: "ErrorKindProxyError \<noteq> []" "ErrorKindProxyError \<noteq> ErrorKindNone"
  "ErrorKindUpstreamStatus \<noteq> []" "ErrorKindUpstreamStatus \<noteq> ErrorKindNone"
  by (simp_all add: ErrorKindProxyError_def ErrorKindUpstreamStatus_def ErrorKindNone_def)

lemma record_scrubbed:
  "(BuildRequestTelemetry (Some r) s l a k)\<lparr>rt_PromptPreview := [], rt_CredentialHint := []\<rparr> =
     BuildRequestTelemetry (Some r) s l a k"
  by (simp add: BuildRequestTelemetry_def Let_def)

lemmas effect_defs = transparentProxy_def Let_def bad_gateway_def recordTelemetry_def LogRequest_def log_request_of_def
  Record_def http_Error_def record_scrubbed records_exchange_def Build_failure failed_exchange_def broken_copy_def
  ClassifyProxyError_def ErrorKinds

lemma transparent_records:
  assumes "eff = transparentProxy T target (Some out) (Some st) env r"
  shows "\<exists>e rt. pe_Logger eff = Some (out @ [e]) \<and> pe_Telemetry eff = Some (st\<lparr>ts_records := ts_records st @ [rt]\<rparr>) \<and>
    records_exchange rt ((env, r), eff)"
proof (cases "NewRequest (hr_Method r) (url_String (upstreamURL target r))")
  case None
  show ?thesis
    by (rule exI [of _ "last (the (pe_Logger eff))"], rule exI [of _ "BuildRequestTelemetry (Some r) 502 (ue_Latency env) (ue_Started env) ErrorKindProxyError"])
      (simp add: assms None effect_defs)
next
  case (Some ms)
  obtain mth sent where ms: "ms = (mth, sent)" by (metis prod.collapse)
  let ?req = "\<lparr>ur_Method = mth, ur_URL = sent, ur_Host = u_Host (upstreamURL target r),
                ur_Header = copyRequestHeaders T [] (hr_Header r), ur_Body = hr_Body r\<rparr>"
  show ?thesis
  proof (cases "ue_Do env ?req")
    case (Inl err)
    show ?thesis
      by (rule exI [of _ "last (the (pe_Logger eff))"], rule exI [of _ "BuildRequestTelemetry (Some r) 502 (ue_Latency env) (ue_Started env) ErrorKindProxyError"])
        (simp add: assms Some ms Inl effect_defs)
  next
    case (Inr resp)
    show ?thesis
      by (rule exI [of _ "last (the (pe_Logger eff))"], rule exI [of _ "BuildRequestTelemetry (Some r) (hp_Status resp) (ue_Latency env) (ue_Started env) (ClassifyProxyError (hp_Status resp) (map_option snd (ue_CopyError env)))"])
        (simp add: assms Some ms Inr effect_defs)
  qed
qed

lemma serve_records:
  assumes "pc_Logger c = Some out" and "pc_Telemetry c = Some st" and "eff = serve_proxy T target c env r"
  shows "if forwarded ((env, r), eff)
    then \<exists>e rt. pe_Logger eff = Some (out @ [e]) \<and> pe_Telemetry eff = Some (st\<lparr>ts_records := ts_records st @ [rt]\<rparr>) \<and>
      records_exchange rt ((env, r), eff)
    else pe_Logger eff = Some out \<and> pe_Telemetry eff = Some st"
proof (cases "proxy_mux r = MuxHandler TransparentRoute")
  case True
  then have "eff = transparentProxy T target (Some out) (Some st) env r"
    using assms by (simp add: serve_proxy_def Let_def)
  from transparent_records [OF this] True show ?thesis by (simp add: forwarded_def)
next
  case False
  then have "pe_Logger eff = Some out \<and> pe_Telemetry eff = Some st"
    using assms by (auto simp: serve_proxy_def Let_def local_effect_def split: route.split proxy_route.split)
  then show ?thesis using False by (simp add: forwarded_def)
qed

lemma session_records:
  assumes "pc_Logger c = Some out" and "pc_Telemetry c = Some st" and "proxy_session T target c xs = (c', effs)"
  shows "length effs = length xs \<and>
    (\<exists>es rts. pc_Logger c' = Some (out @ es) \<and> pc_Telemetry c' = Some (st\<lparr>ts_records := ts_records st @ rts\<rparr>) \<and>
      length es = length rts \<and> list_all2 records_exchange rts (filter forwarded (zip xs effs)))"
  using assms
proof (induction xs arbitrary: c out st c' effs)
  case Nil
  then show ?case by (auto intro!: exI [of _ "[]"])
next
  case (Cons x xs)
  obtain env r where x: "x = (env, r)" by (metis prod.collapse)
  define eff where "eff = serve_proxy T target c env r"
  let ?c = "c\<lparr>pc_Logger := pe_Logger eff, pc_Telemetry := pe_Telemetry eff\<rparr>"
  obtain effs' where s: "proxy_session T target ?c xs = (c', effs')" "effs = eff # effs'"
    using Cons.prems(3) by (auto simp: x eff_def Let_def split: prod.splits)
  note one = serve_records [OF Cons.prems(1,2) eff_def]
  show ?case
  proof (cases "forwarded ((env, r), eff)")
    case True
    then obtain e rt where o: "pe_Logger eff = Some (out @ [e])"
      "pe_Telemetry eff = Some (st\<lparr>ts_records := ts_records st @ [rt]\<rparr>)" "records_exchange rt ((env, r), eff)"
      using one by auto
    then have "pc_Logger ?c = Some (out @ [e])" "pc_Telemetry ?c = Some (st\<lparr>ts_records := ts_records st @ [rt]\<rparr>)"
      by simp_all
    from Cons.IH [OF this s(1)] obtain es rts where "length effs' = length xs" "pc_Logger c' = Some ((out @ [e]) @ es)"
      "pc_Telemetry c' = Some (st\<lparr>ts_records := (ts_records st @ [rt]) @ rts\<rparr>)" "length es = length rts"
      "list_all2 records_exchange rts (filter forwarded (zip xs effs'))" by auto
    then show ?thesis using True o(3)
      by (intro conjI exI [of _ "e # es"] exI [of _ "rt # rts"]) (simp_all add: s(2) x)
  next
    case False
    then have "pc_Logger ?c = Some out" "pc_Telemetry ?c = Some st" using one by simp_all
    from Cons.IH [OF this s(1)] show ?thesis using False by (auto simp: s(2) x)
  qed
qed

section \<open>Properties\<close>

lemma list_all2_filter_length:
  "list_all2 R xs ys \<Longrightarrow> (\<And>x y. R x y \<Longrightarrow> P x \<longleftrightarrow> Q y) \<Longrightarrow> length (filter P xs) = length (filter Q ys)"
  by (induction rule: list_all2_induct) auto

text \<open>C5. What the proxy did is what the admin interface reports: after any session of a proxy with an empty log and
  an empty telemetry store, whatever the network does in it, the log has one entry for each request that was forwarded, and
  none for another, and an authorized request for the metrics is answered with, as 64-bit sums, the number of forwarded
  requests, of those answered with each status, and of the failed ones, which are those answered with 500 or
  more and those whose body broke off.\<close>

theorem proxy_traffic_in_metrics:
  assumes "pc_Logger c = Some []" and "pc_Telemetry c = Some st" and "ts_records st = []"
    and "proxy_session T target c xs = (c', effs)"
    and "NewServer (Some (Snapshot (pc_Telemetry c'))) config = Inr (s0, h)"
    and "validToken (hr_Header q) (sc_Token config)" and "hr_Method q = ''GET''" and "admin_routes q = MuxHandler MetricsRoute"
  shows "\<exists>m log. let served = filter forwarded (zip xs effs) in
    length effs = length xs \<and> pc_Logger c' = Some log \<and> length log = length served \<and>
    fst (h q s) = \<lparr>ry_Status = 200, ry_Body = MetricsBody m\<rparr> \<and>
    mr_RequestsTotal m = wrap64 (int (length served)) \<and>
    mr_ErrorsTotal m = wrap64 (int (length (filter failed_exchange served))) \<and>
    counted (mr_StatusCounts m) k =
      wrap64 (int (length (filter (\<lambda>xe. Itoa (hp_Status (pe_Response (snd xe))) = k) served)))"
proof -
  let ?served = "filter forwarded (zip xs effs)"
  obtain es rts where r: "length effs = length xs" "pc_Logger c' = Some es"
    "pc_Telemetry c' = Some (st\<lparr>ts_records := rts\<rparr>)" "length es = length rts" "list_all2 records_exchange rts ?served"
    using session_records [OF assms(1,2,4)] assms(3) by auto
  have n: "length rts = length ?served" by (rule list_all2_lengthD [OF r(5)])
  have f: "length (filter is_failure rts) = length (filter failed_exchange ?served)"
    by (rule list_all2_filter_length [OF r(5)]) (simp add: records_exchange_def)
  have k: "length (filter (\<lambda>rt. Itoa (rt_Status rt) = k) rts) =
      length (filter (\<lambda>xe. Itoa (hp_Status (pe_Response (snd xe))) = k) ?served)"
    by (rule list_all2_filter_length [OF r(5)]) (simp add: records_exchange_def)
  have "h = requireToken (sc_Token config) (admin_mux (Some rts))"
    using NewServer_Inr [OF assms(5)] by (simp add: r(3) Snapshot_def)
  then have "fst (h q s) = \<lparr>ry_Status = 200, ry_Body = MetricsBody (metricsFromTelemetry rts)\<rparr>"
    using assms(6-8) by (simp add: requireToken_def admin_mux_def handleMetrics_def writeJSON_def telemetrySnapshot_def)
  moreover have "mr_RequestsTotal (metricsFromTelemetry rts) = wrap64 (int (length ?served)) \<and>
    mr_ErrorsTotal (metricsFromTelemetry rts) = wrap64 (int (length (filter failed_exchange ?served))) \<and>
    counted (mr_StatusCounts (metricsFromTelemetry rts)) k =
      wrap64 (int (length (filter (\<lambda>xe. Itoa (hp_Status (pe_Response (snd xe))) = k) ?served)))"
    using metricsFromTelemetry_summary [of rts] by (simp add: Let_def n f k)
  ultimately show ?thesis using r(1,2,4) n by (auto simp: Let_def)
qed

definition refusing :: upstream_env where
  "refusing = calm_upstream\<lparr>ue_Do := \<lambda>_. Inl ''refused''\<rparr>"

definition health_request :: http_request where
  "health_request = calm_request\<lparr>hr_Method := ''GET'', hr_Path := ''/healthz''\<rparr>"

definition metrics_request :: http_request where
  "metrics_request = \<lparr>hr_Method = ''GET'', hr_Path = ''/admin/v1/metrics'', hr_RawPath = [], hr_RawQuery = [],
     hr_Header = [(''Authorization'', [''Bearer t''])], hr_Body = []\<rparr>"

lemma demo_NewServer_snapshot:
  "NewServer snap demo_config = Inr (demo_server, requireToken ''t'' (admin_mux snap))"
proof -
  have "validateListenAddress ''localhost:1'' = None" "validateTargetBaseURL ''http://a'' = None" "sc_Token demo_config = ''t''"
    using NewServer_Inr [OF demo_NewServer] by (simp_all add: demo_config_def)
  then show ?thesis by (simp add: NewServer_def New_def demo_config_def demo_server_def)
qed

text \<open>A health check, which is not forwarded, and a request that the upstream refuses.\<close>

lemma proxy_traffic_in_metrics_witness:
  "\<exists>c' effs m. proxy_session ascii_tables (zero_url\<lparr>u_Scheme := ''https'', u_Host := ''api''\<rparr>)
      (calm_config\<lparr>pc_Logger := Some [], pc_Telemetry := Some (NewMemoryTelemetryStore [])\<rparr>)
      [(calm_upstream, health_request), (refusing, calm_request)] = (c', effs) \<and>
    fst (requireToken ''t'' (admin_mux (Some (Snapshot (pc_Telemetry c')))) metrics_request demo_server) =
      \<lparr>ry_Status = 200, ry_Body = MetricsBody m\<rparr> \<and>
    mr_RequestsTotal m = 1 \<and> mr_ErrorsTotal m = 1"
proof -
  let ?t = "zero_url\<lparr>u_Scheme := ''https'', u_Host := ''api''\<rparr>"
  let ?c = "calm_config\<lparr>pc_Logger := Some [], pc_Telemetry := Some (NewMemoryTelemetryStore [])\<rparr>"
  let ?xs = "[(calm_upstream, health_request), (refusing, calm_request)]"
  obtain c' effs where s: "proxy_session ascii_tables ?t ?c ?xs = (c', effs)" by (metis prod.collapse)
  have c: "pc_Logger ?c = Some []" "pc_Telemetry ?c = Some (NewMemoryTelemetryStore [])" by simp_all
  have e: "ts_records (NewMemoryTelemetryStore []) = []" by (simp add: NewMemoryTelemetryStore_def)
  have v: "validToken (hr_Header metrics_request) (sc_Token demo_config)"
    by (simp add: validToken_iff metrics_request_def demo_config_def requestTokens_def header_Get_def header_values_def
        bearerToken_def go_eval)
  have g: "hr_Method metrics_request = ''GET''" "admin_routes metrics_request = MuxHandler MetricsRoute"
    by (simp_all add: metrics_request_def admin_routes_def go_eval)
  have routes: "proxy_mux health_request = MuxHandler HealthRoute" "proxy_mux calm_request = MuxHandler TransparentRoute"
    by (simp_all add: proxy_mux_def health_request_def calm_request_def go_eval)
  obtain e1 e2 where effs: "effs = [e1, e2]" "\<exists>l st. e2 = transparentProxy ascii_tables ?t l st refusing calm_request"
    using s by (auto simp: Let_def serve_proxy_def routes)
  have "hp_Status (pe_Response e2) = 502"
    using effs(2) by (auto simp: transparentProxy_def Let_def bad_gateway_def http_Error_def refusing_def split: option.split)
  then have served: "filter forwarded (zip ?xs effs) = [((refusing, calm_request), e2)]" "failed_exchange ((refusing, calm_request), e2)"
    by (simp_all add: effs(1) forwarded_def routes failed_exchange_def)
  show ?thesis
    using proxy_traffic_in_metrics [OF c e s demo_NewServer_snapshot v g, of demo_server "[]"] s served
    by (auto simp: Let_def wrap64_def)
qed

end
