(* ===== verification/Plugin_Manifest.thy ===== *)
theory Plugin_Manifest
  imports Go_Os Go_Unicode
begin

text \<open>
  \<open>internal/plugin/manifest.go\<close>: the manifest of a plugin and its validation. The two regular
  expressions are written out as recognizers. The decoder of TOML files comes from a package
  outside the repository: it is the parameter \<open>decode\<close> of \<open>LoadManifest\<close>. A problem is a value;
  the text it is printed as is not modelled.
\<close>

definition SupportedAPIVersion :: string where "SupportedAPIVersion = ''v1''"
definition MinTimeoutMS :: int where "MinTimeoutMS = 1"
definition MaxTimeoutMS :: int where "MaxTimeoutMS = 1000"
definition MinMemoryMB :: int where "MinMemoryMB = 1"
definition MaxMemoryMB :: int where "MaxMemoryMB = 128"
definition MinInputBytes :: int where "MinInputBytes = 1"
definition MaxInputBytes :: int where "MaxInputBytes = 2 ^ 20"
definition MinOutputBytes :: int where "MinOutputBytes = 1"
definition MaxOutputBytes :: int where "MaxOutputBytes = 512 * 2 ^ 10"

lemmas limit_defs = MinTimeoutMS_def MaxTimeoutMS_def MinMemoryMB_def MaxMemoryMB_def
  MinInputBytes_def MaxInputBytes_def MinOutputBytes_def MaxOutputBytes_def

record capabilities =
  ca_Compress :: "string list"
  ca_Classify :: "string list"
  ca_Redact :: "string list"

record limits =
  li_TimeoutMS :: int
  li_MemoryMB :: int
  li_MaxInputBytes :: int
  li_MaxOutputBytes :: int

record manifest =
  mf_Name :: string
  mf_Version :: string
  mf_APIVersion :: string
  mf_Description :: string
  mf_Capabilities :: capabilities
  mf_Limits :: limits

definition supportedCompressCapabilities :: "string list" where
  "supportedCompressCapabilities = [''code'', ''diff'', ''json'', ''log'', ''text'']"

section \<open>The regular expressions\<close>

definition lower_or_digit :: "char \<Rightarrow> bool" where
  "lower_or_digit c \<longleftrightarrow> is_digit c \<or> (97 \<le> byte c \<and> byte c \<le> 122)"

definition name_char :: "char \<Rightarrow> bool" where
  "name_char c \<longleftrightarrow> lower_or_digit c \<or> c = CHR ''.'' \<or> c = CHR ''_'' \<or> c = CHR ''-''"

text \<open>\<open>^[a-z0-9][a-z0-9._-]{1,62}[a-z0-9]$\<close>\<close>

definition manifestNameRE :: "string \<Rightarrow> bool" where
  "manifestNameRE s \<longleftrightarrow>
     3 \<le> length s \<and> length s \<le> 64 \<and> lower_or_digit (hd s) \<and> lower_or_digit (last s) \<and>
     list_all name_char (butlast (tl s))"

definition alphanumeric :: "char \<Rightarrow> bool" where
  "alphanumeric c \<longleftrightarrow> lower_or_digit c \<or> (65 \<le> byte c \<and> byte c \<le> 90)"

definition suffix_char :: "char \<Rightarrow> bool" where
  "suffix_char c \<longleftrightarrow> alphanumeric c \<or> c = CHR ''.'' \<or> c = CHR ''-''"

definition version_suffix :: "string \<Rightarrow> bool" where
  "version_suffix s \<longleftrightarrow>
     s = [] \<or> ((hd s = CHR ''-'' \<or> hd s = CHR ''+'') \<and> tl s \<noteq> [] \<and> list_all suffix_char (tl s))"

text \<open>A number and a dot, leaving the rest.\<close>

definition number_dot :: "string \<Rightarrow> string option" where
  "number_dot s =
     (let rest = dropWhile is_digit s
      in if s \<noteq> [] \<and> is_digit (hd s) \<and> rest \<noteq> [] \<and> hd rest = CHR ''.'' then Some (tl rest) else None)"

text \<open>\<open>^[0-9]+\.[0-9]+\.[0-9]+(?:[-+][0-9A-Za-z.-]+)?$\<close>\<close>

definition versionRE :: "string \<Rightarrow> bool" where
  "versionRE s \<longleftrightarrow>
     (case Option.bind (number_dot s) number_dot of
        None \<Rightarrow> False
      | Some t \<Rightarrow> t \<noteq> [] \<and> is_digit (hd t) \<and> version_suffix (dropWhile is_digit t))"

section \<open>Validation\<close>

datatype problem =
    NameRequired
  | NameForm
  | VersionRequired
  | VersionForm
  | UnsupportedAPI string
  | NoCapability
  | UnsupportedCompress string
  | ClassifyUnsupported
  | RedactUnsupported
  | LimitRange string int int
  | OutputExceedsInput

definition appendLimitProblem :: "problem list \<Rightarrow> string \<Rightarrow> int \<Rightarrow> int \<Rightarrow> int \<Rightarrow> problem list" where
  "appendLimitProblem problems name v lo hi =
     (if v < lo \<or> hi < v then problems @ [LimitRange name lo hi] else problems)"

definition name_problems :: "manifest \<Rightarrow> problem list" where
  "name_problems m =
     (if TrimSpace (mf_Name m) = [] then [NameRequired]
      else if \<not> manifestNameRE (mf_Name m) then [NameForm] else []) @
     (if TrimSpace (mf_Version m) = [] then [VersionRequired]
      else if \<not> versionRE (mf_Version m) then [VersionForm] else []) @
     (if mf_APIVersion m \<noteq> SupportedAPIVersion then [UnsupportedAPI (mf_APIVersion m)] else [])"

definition capability_problems :: "capabilities \<Rightarrow> problem list" where
  "capability_problems c =
     (if ca_Compress c = [] \<and> ca_Classify c = [] \<and> ca_Redact c = [] then [NoCapability] else []) @
     map UnsupportedCompress (filter (\<lambda>k. k \<notin> set supportedCompressCapabilities) (ca_Compress c)) @
     (if ca_Classify c \<noteq> [] then [ClassifyUnsupported] else []) @
     (if ca_Redact c \<noteq> [] then [RedactUnsupported] else [])"

definition manifest_problems :: "manifest \<Rightarrow> problem list" where
  "manifest_problems m =
     (let l = mf_Limits m;
          problems = name_problems m @ capability_problems (mf_Capabilities m);
          problems = appendLimitProblem problems ''timeout_ms'' (li_TimeoutMS l) MinTimeoutMS MaxTimeoutMS;
          problems = appendLimitProblem problems ''memory_mb'' (li_MemoryMB l) MinMemoryMB MaxMemoryMB;
          problems = appendLimitProblem problems ''max_input_bytes'' (li_MaxInputBytes l) MinInputBytes MaxInputBytes;
          problems = appendLimitProblem problems ''max_output_bytes'' (li_MaxOutputBytes l) MinOutputBytes MaxOutputBytes
      in if 0 < li_MaxOutputBytes l \<and> 0 < li_MaxInputBytes l \<and> li_MaxInputBytes l < li_MaxOutputBytes l
         then problems @ [OutputExceedsInput] else problems)"

datatype manifest_error = ManifestParse error | ManifestInvalid "problem list"

definition ValidateManifest :: "manifest \<Rightarrow> manifest_error option" where
  "ValidateManifest m =
     (if manifest_problems m \<noteq> [] then Some (ManifestInvalid (manifest_problems m)) else None)"

text \<open>Reading the file is part of the decoder; its errors too are wrapped as text.\<close>

definition LoadManifest :: "(string \<Rightarrow> error + manifest) \<Rightarrow> os_error + string \<Rightarrow> manifest_error + manifest" where
  "LoadManifest decode file_text =
     (case file_text of
        Inl _ \<Rightarrow> Inl (ManifestParse ''open'')
      | Inr toml \<Rightarrow>
          (case decode toml of
             Inl err \<Rightarrow> Inl (ManifestParse err)
           | Inr m \<Rightarrow> (case ValidateManifest m of Some err \<Rightarrow> Inl err | None \<Rightarrow> Inr m)))"

section \<open>Facts\<close>

lemma name_char_plain: "name_char c \<Longrightarrow> c \<noteq> CHR ''/'' \<and> byte c < 128 \<and> \<not> IsSpace (byte c)"
  by (auto simp: name_char_def lower_or_digit_def is_digit_def IsSpace_def)

lemma manifestNameRE_chars: "manifestNameRE s \<Longrightarrow> list_all name_char s"
proof -
  assume m: "manifestNameRE s"
  obtain c t where s: "s = c # t" using m by (cases s) (simp_all add: manifestNameRE_def)
  then have t: "t \<noteq> []" using m by (auto simp: manifestNameRE_def)
  then have e: "s = c # butlast t @ [last t]" using s by simp
  have "name_char c" "name_char (last t)" "list_all name_char (butlast t)"
    using m s t by (auto simp: manifestNameRE_def name_char_def)
  then show ?thesis by (subst e) simp
qed

lemma manifestNameRE_plain: "manifestNameRE s \<Longrightarrow> plain s"
proof -
  assume m: "manifestNameRE s"
  then have "CHR ''/'' \<notin> set s"
    using manifestNameRE_chars [OF m] name_char_plain by (auto simp: list_all_iff)
  moreover have "hd s \<noteq> CHR ''.''" using m by (auto simp: manifestNameRE_def lower_or_digit_def is_digit_def)
  ultimately show ?thesis using m by (auto simp: plain_def manifestNameRE_def)
qed

lemma TrimSpace_digit:
  "s \<noteq> [] \<Longrightarrow> lower_or_digit (hd s) \<Longrightarrow> TrimSpace s \<noteq> []"
  by (cases s)
    (auto simp: TrimSpace_eq_Nil runes_ascii_Cons space_chunk_def lower_or_digit_def is_digit_def IsSpace_def)

lemma appendLimitProblem_Nil:
  "appendLimitProblem ps n v lo hi = [] \<longleftrightarrow> ps = [] \<and> lo \<le> v \<and> v \<le> hi"
  by (auto simp: appendLimitProblem_def)

lemma manifestNameRE_not_blank: "manifestNameRE s \<Longrightarrow> TrimSpace s \<noteq> []"
  by (rule TrimSpace_digit) (auto simp: manifestNameRE_def)

lemma versionRE_not_blank: "versionRE s \<Longrightarrow> TrimSpace s \<noteq> []"
  by (rule TrimSpace_digit)
    (auto simp: versionRE_def number_dot_def lower_or_digit_def Let_def split: if_splits)

lemma name_problems_Nil:
  "name_problems m = [] \<longleftrightarrow>
     manifestNameRE (mf_Name m) \<and> versionRE (mf_Version m) \<and> mf_APIVersion m = ''v1''"
  using manifestNameRE_not_blank [of "mf_Name m"] versionRE_not_blank [of "mf_Version m"]
  by (auto simp: name_problems_def SupportedAPIVersion_def)

lemma capability_problems_Nil:
  "capability_problems c = [] \<longleftrightarrow>
     ca_Compress c \<noteq> [] \<and> set (ca_Compress c) \<subseteq> set supportedCompressCapabilities \<and>
     ca_Classify c = [] \<and> ca_Redact c = []"
  by (auto simp: capability_problems_def filter_empty_conv)

lemma manifest_problems_Nil:
  "manifest_problems m = [] \<longleftrightarrow>
      name_problems m = [] \<and> capability_problems (mf_Capabilities m) = [] \<and>
      li_TimeoutMS (mf_Limits m) \<in> {1..1000} \<and> li_MemoryMB (mf_Limits m) \<in> {1..128} \<and>
      li_MaxInputBytes (mf_Limits m) \<in> {1..1048576} \<and> li_MaxOutputBytes (mf_Limits m) \<in> {1..524288} \<and>
      li_MaxOutputBytes (mf_Limits m) \<le> li_MaxInputBytes (mf_Limits m)"
  by (auto simp: manifest_problems_def Let_def appendLimitProblem_Nil limit_defs split: if_splits)

lemma ValidateManifest_None:
  assumes "ValidateManifest m = None"
  shows "manifestNameRE (mf_Name m)" "li_TimeoutMS (mf_Limits m) \<in> {1..1000}"
    "li_MemoryMB (mf_Limits m) \<in> {1..128}" "li_MaxInputBytes (mf_Limits m) \<in> {1..1048576}"
    "li_MaxOutputBytes (mf_Limits m) \<in> {1..524288}"
    "li_MaxOutputBytes (mf_Limits m) \<le> li_MaxInputBytes (mf_Limits m)"
  using assms by (auto simp: ValidateManifest_def manifest_problems_Nil name_problems_Nil split: if_splits)

section \<open>Properties\<close>

text \<open>A manifest passes validation exactly when its name and version have their forms, it is for
  this API version, it claims compression of known content types and nothing else, and every limit
  is in its range with the output no larger than the input; and then its name is a single path
  element of 3 to 64 characters.\<close>

theorem ValidateManifest_accepts:
  "(ValidateManifest m = None \<longleftrightarrow>
     manifestNameRE (mf_Name m) \<and> versionRE (mf_Version m) \<and> mf_APIVersion m = ''v1'' \<and>
     ca_Compress (mf_Capabilities m) \<noteq> [] \<and>
     set (ca_Compress (mf_Capabilities m)) \<subseteq> set [''code'', ''diff'', ''json'', ''log'', ''text''] \<and>
     ca_Classify (mf_Capabilities m) = [] \<and> ca_Redact (mf_Capabilities m) = [] \<and>
     li_TimeoutMS (mf_Limits m) \<in> {1..1000} \<and> li_MemoryMB (mf_Limits m) \<in> {1..128} \<and>
     li_MaxInputBytes (mf_Limits m) \<in> {1..1048576} \<and> li_MaxOutputBytes (mf_Limits m) \<in> {1..524288} \<and>
     li_MaxOutputBytes (mf_Limits m) \<le> li_MaxInputBytes (mf_Limits m)) \<and>
   (if manifestNameRE (mf_Name m) then plain (mf_Name m) \<and> length (mf_Name m) \<in> {3..64} else True)"
  using manifestNameRE_plain [of "mf_Name m"]
  by (simp add: ValidateManifest_def manifest_problems_Nil name_problems_Nil capability_problems_Nil
      supportedCompressCapabilities_def) (auto simp: manifestNameRE_def)

lemmas manifest_eval [go_eval] = lower_or_digit_def name_char_def manifestNameRE_def alphanumeric_def
  suffix_char_def version_suffix_def number_dot_def versionRE_def

end
