(* ===== verification/Plugin_Host.thy ===== *)
theory Plugin_Host
  imports Plugin_Manifest Go_Json_Decode
begin

text \<open>
  \<open>internal/plugin/host.go\<close>: running a WASM module on one block. The WASM engine is a package from
  outside the repository: it is the parameter \<open>engine\<close>, which for a module, the limits and the
  input the host offers it says how the run went: the errors at each stage, whether the module
  exports \<open>run\<close>, and the calls of \<open>output_write\<close> it made, each with the number of bytes and what
  reading the module's memory gave. The host's side of these calls is \<open>output_write\<close>.
  A confidence is kept as the number literal it was given as.
\<close>

record block_input =
  bi_ID :: string
  bi_Role :: string
  bi_Text :: string

record run_input =
  ri_APIVersion :: string
  ri_RequestID :: string
  ri_Provider :: string
  ri_Model :: string
  ri_ContentType :: string
  ri_Block :: block_input
  ri_Metadata :: "(string \<times> string) list"

record plugin_output =
  ot_Action :: string
  ot_Text :: string
  ot_Summary :: string
  ot_Confidence :: string
  ot_Lossiness :: string

datatype run_error =
    RunManifest manifest_error
  | InputTooLarge
  | HostImports error
  | InstantiateModule error
  | NoRunFunction
  | RunFailed error
  | NoOutput
  | OutputTooLarge
  | OutputInvalidUTF8
  | OutputDecode
  | UnsupportedAction string

record engine_outcome =
  eo_HostError :: "error option"
  eo_ModuleError :: "error option"
  eo_HasRun :: bool
  eo_RunError :: "error option"
  eo_Writes :: "(nat \<times> string option) list"

record engine_limits =
  el_Pages :: int
  el_Timeout :: duration
  el_Input :: string

type_synonym wasm_engine = "string \<Rightarrow> engine_limits \<Rightarrow> engine_outcome"

section \<open>The envelope\<close>

definition marshal_block :: "block_input \<Rightarrow> string" where
  "marshal_block b = json_object [(''id'', json_quote (bi_ID b)), (''role'', json_quote (bi_Role b)),
     (''text'', json_quote (bi_Text b))]"

text \<open>The metadata of every caller are strings, listed by key; an empty map is left out.\<close>

definition marshal_input :: "run_input \<Rightarrow> string" where
  "marshal_input i = json_object
     ([(''api_version'', json_quote (ri_APIVersion i)), (''request_id'', json_quote (ri_RequestID i)),
       (''provider'', json_quote (ri_Provider i)), (''model'', json_quote (ri_Model i)),
       (''content_type'', json_quote (ri_ContentType i)), (''block'', marshal_block (ri_Block i))] @
      (if ri_Metadata i = [] then []
       else [(''metadata'', json_object (map (\<lambda>kv. (fst kv, json_quote (snd kv))) (ri_Metadata i)))]))"

section \<open>The host\<close>

text \<open>
  The product wraps around; it is a multiple of \<open>2 ^ 20\<close>, so that the conversion to a float and the
  division are exact and \<open>math.Ceil\<close> changes nothing.
\<close>

definition memoryPages :: "int \<Rightarrow> int" where
  "memoryPages memoryMB = (wrap64 (memoryMB * 1024 * 1024) div 65536) mod 2 ^ 32"

definition output_write :: "int \<Rightarrow> string \<Rightarrow> nat \<times> string option \<Rightarrow> string" where
  "output_write maxOutput output call =
     (if maxOutput mod 2 ^ 32 < int (fst call) then output
      else case snd call of None \<Rightarrow> output | Some payload \<Rightarrow> payload)"

definition output_field :: "string \<Rightarrow> string \<Rightarrow> plugin_output \<Rightarrow> plugin_output option" where
  "output_field key raw o' =
     (if EqualFold key ''action'' then map_option (\<lambda>v. o'\<lparr>ot_Action := v\<rparr>) (decode_string (ot_Action o') raw)
      else if EqualFold key ''text'' then map_option (\<lambda>v. o'\<lparr>ot_Text := v\<rparr>) (decode_string (ot_Text o') raw)
      else if EqualFold key ''summary''
      then map_option (\<lambda>v. o'\<lparr>ot_Summary := v\<rparr>) (decode_string (ot_Summary o') raw)
      else if EqualFold key ''confidence''
      then map_option (\<lambda>v. o'\<lparr>ot_Confidence := v\<rparr>) (decode_float (ot_Confidence o') raw)
      else if EqualFold key ''lossiness''
      then map_option (\<lambda>v. o'\<lparr>ot_Lossiness := v\<rparr>) (decode_string (ot_Lossiness o') raw)
      else None)"

definition zero_output :: plugin_output where
  "zero_output = \<lparr>ot_Action = [], ot_Text = [], ot_Summary = [], ot_Confidence = ''0'', ot_Lossiness = []\<rparr>"

definition decode_output :: "string \<Rightarrow> plugin_output option" where
  "decode_output bytes =
     (case first_value scan_init [] bytes of
        None \<Rightarrow> None
      | Some v \<Rightarrow> decode_struct output_field zero_output v)"

definition plugin_actions :: "string list" where
  "plugin_actions = [''keep'', ''replace'', ''annotate'', ''reject'']"

definition validatePluginOutput :: "plugin_output \<Rightarrow> run_error option" where
  "validatePluginOutput o' =
     (if ot_Action o' \<in> set plugin_actions then None else Some (UnsupportedAction (ot_Action o')))"

text \<open>What the host makes of the bytes the module left in the output buffer.\<close>

definition accept_output :: "int \<Rightarrow> string \<Rightarrow> run_error + plugin_output" where
  "accept_output maxOutput output =
     (if output = [] then Inl NoOutput
      else if maxOutput < int (length output) then Inl OutputTooLarge
      else if \<not> ValidString output then Inl OutputInvalidUTF8
      else case decode_output output of
        None \<Rightarrow> Inl OutputDecode
      | Some o' \<Rightarrow> (case validatePluginOutput o' of Some err \<Rightarrow> Inl err | None \<Rightarrow> Inr o'))"

definition RunWASM :: "wasm_engine \<Rightarrow> manifest \<Rightarrow> string \<Rightarrow> run_input \<Rightarrow> run_error + plugin_output" where
  "RunWASM engine m wasm input =
     (case ValidateManifest m of
        Some err \<Rightarrow> Inl (RunManifest err)
      | None \<Rightarrow>
          let input = (if ri_APIVersion input = [] then input\<lparr>ri_APIVersion := SupportedAPIVersion\<rparr> else input);
              inputPayload = marshal_input input
          in if li_MaxInputBytes (mf_Limits m) < int (length inputPayload) then Inl InputTooLarge
             else let run = engine wasm \<lparr>el_Pages = memoryPages (li_MemoryMB (mf_Limits m)),
                        el_Timeout = li_TimeoutMS (mf_Limits m) * 1000000, el_Input = inputPayload\<rparr>;
                      output = foldl (output_write (li_MaxOutputBytes (mf_Limits m))) [] (eo_Writes run)
                  in case eo_HostError run of Some err \<Rightarrow> Inl (HostImports err)
                     | None \<Rightarrow> (case eo_ModuleError run of Some err \<Rightarrow> Inl (InstantiateModule err)
                     | None \<Rightarrow> if \<not> eo_HasRun run then Inl NoRunFunction
                     else (case eo_RunError run of Some err \<Rightarrow> Inl (RunFailed err)
                     | None \<Rightarrow> accept_output (li_MaxOutputBytes (mf_Limits m)) output)))"

section \<open>Facts\<close>

text \<open>
  What the host relies on: reading a module's memory gives as many bytes as were asked for.
\<close>

definition honest_engine :: "wasm_engine \<Rightarrow> bool" where
  "honest_engine engine \<longleftrightarrow>
     (\<forall>wasm lim n payload. (n, Some payload) \<in> set (eo_Writes (engine wasm lim)) \<longrightarrow> length payload = n)"

lemma memoryPages_valid: "mb \<in> {1..128} \<Longrightarrow> memoryPages mb = 16 * mb"
proof -
  assume mb: "mb \<in> {1..128}"
  then have "wrap64 (mb * 1024 * 1024) = mb * 1024 * 1024" by (intro wrap64_id) (simp add: in_int64_def)
  moreover have "mb * 1024 * 1024 div 65536 = 16 * mb" by simp
  ultimately show ?thesis using mb by (simp add: memoryPages_def)
qed

lemma output_write_bound:
  assumes "\<forall>n payload. (n, Some payload) \<in> set calls \<longrightarrow> length payload = n" and "0 \<le> m" and "m < 2 ^ 32"
    and "int (length buf) \<le> m"
  shows "int (length (foldl (output_write m) buf calls)) \<le> m"
  using assms
proof (induction calls arbitrary: buf)
  case (Cons c calls)
  have "int (length (output_write m buf c)) \<le> m"
    using Cons.prems by (cases c; cases "snd c") (auto simp: output_write_def)
  then show ?case using Cons by simp
qed simp

lemma decode_struct_inv:
  assumes "\<And>key r q q'. fld key r q = Some q' \<Longrightarrow> P q \<Longrightarrow> P q'"
  shows "decode_struct fld p raw = Some p' \<Longrightarrow> P p \<Longrightarrow> P p'"
proof -
  have "decode_fields fld kvs q = Some q' \<Longrightarrow> P q \<Longrightarrow> P q'" for kvs q q'
    by (induction kvs arbitrary: q) (auto split: option.splits dest: assms)
  then show "decode_struct fld p raw = Some p' \<Longrightarrow> P p \<Longrightarrow> P p'"
    by (auto simp: decode_struct_def split: json_shape.splits)
qed

lemma output_field_text:
  "output_field key raw q = Some q' \<Longrightarrow> ValidString (ot_Text q) \<Longrightarrow> ValidString (ot_Text q')"
  by (auto simp: output_field_def dest: decode_string_valid split: if_splits)

lemma decode_output_text: "decode_output bytes = Some o' \<Longrightarrow> ValidString (ot_Text o')"
  using decode_struct_inv [of output_field "\<lambda>q. ValidString (ot_Text q)" zero_output _ o'] output_field_text
  by (auto simp: decode_output_def zero_output_def split: option.splits)

lemma accept_output_Inr:
  "accept_output m out = Inr o' \<Longrightarrow>
     out \<noteq> [] \<and> int (length out) \<le> m \<and> ValidString out \<and> decode_output out = Some o' \<and>
     ot_Action o' \<in> set plugin_actions"
  by (auto simp: accept_output_def validatePluginOutput_def split: if_splits option.splits)

lemma RunWASM_Inr:
  assumes "RunWASM engine m wasm input = Inr o'"
  obtains input' run where "ValidateManifest m = None"
    "int (length (marshal_input input')) \<le> li_MaxInputBytes (mf_Limits m)"
    "run = engine wasm \<lparr>el_Pages = memoryPages (li_MemoryMB (mf_Limits m)),
       el_Timeout = li_TimeoutMS (mf_Limits m) * 1000000, el_Input = marshal_input input'\<rparr>"
    "ri_Block input' = ri_Block input" "eo_RunError run = None"
    "accept_output (li_MaxOutputBytes (mf_Limits m))
       (foldl (output_write (li_MaxOutputBytes (mf_Limits m))) [] (eo_Writes run)) = Inr o'"
proof -
  define input' where "input' =
    (if ri_APIVersion input = [] then input\<lparr>ri_APIVersion := SupportedAPIVersion\<rparr> else input)"
  have "ri_Block input' = ri_Block input" by (simp add: input'_def)
  then show thesis
    using assms that [of input' "engine wasm \<lparr>el_Pages = memoryPages (li_MemoryMB (mf_Limits m)),
       el_Timeout = li_TimeoutMS (mf_Limits m) * 1000000, el_Input = marshal_input input'\<rparr>"]
    unfolding RunWASM_def Let_def input'_def [symmetric] by (auto split: option.splits if_splits)
qed

section \<open>Properties\<close>

text \<open>The limits the host may run a module under.\<close>

definition sandboxed :: "engine_limits \<Rightarrow> bool" where
  "sandboxed lim \<longleftrightarrow>
     el_Pages lim \<in> {16..2048} \<and> el_Timeout lim \<in> {1000000..1000000000} \<and>
     length (el_Input lim) \<le> 2 ^ 20"

lemma RunWASM_limits:
  assumes "ValidateManifest m = None" and "int (length payload) \<le> li_MaxInputBytes (mf_Limits m)"
  shows "sandboxed \<lparr>el_Pages = memoryPages (li_MemoryMB (mf_Limits m)),
    el_Timeout = li_TimeoutMS (mf_Limits m) * 1000000, el_Input = payload\<rparr>"
proof -
  note v = ValidateManifest_None [OF assms(1)]
  have "memoryPages (li_MemoryMB (mf_Limits m)) = 16 * li_MemoryMB (mf_Limits m)"
    using v by (intro memoryPages_valid) simp
  then show ?thesis
    using v assms(2) by (simp add: sandboxed_def)
qed

lemma honest_engine_never_too_large:
  assumes "honest_engine engine" and "ValidateManifest m = None"
  shows "int (length (foldl (output_write (li_MaxOutputBytes (mf_Limits m))) []
    (eo_Writes (engine wasm lim)))) \<le> li_MaxOutputBytes (mf_Limits m)"
proof (rule output_write_bound)
  show "\<forall>n payload. (n, Some payload) \<in> set (eo_Writes (engine wasm lim)) \<longrightarrow> length payload = n"
    using assms(1) by (auto simp: honest_engine_def)
qed (use ValidateManifest_None [OF assms(2)] in simp_all)

text \<open>The decoder stops after the first value: a prefix of what it is given, valid on its own.\<close>

lemma first_value_prefix:
  "first_value sc acc s = Some v \<Longrightarrow> \<exists>first rest w. s = first @ rest \<and> compact_from sc first = Some w \<and> v = acc @ w"
proof (induction sc acc s rule: first_value.induct)
  case (1 sc acc)
  then have "compact_from sc [] = Some [] \<and> v = acc @ []" by (simp split: if_splits)
  then show ?case by blast
next
  case (2 sc acc c cs)
  obtain sc' op where st: "scan_step sc c = (sc', op)" by (cases "scan_step sc c")
  have top: "scan_eof sc'" if "fst sc' = EndTop" using that by (simp add: scan_eof_def)
  show ?case
  proof (cases op)
    case KeepByte
    show ?thesis
    proof (cases "fst sc' = EndTop")
      case True
      then have "c # cs = [c] @ cs \<and> compact_from sc [c] = Some [c] \<and> v = acc @ [c]"
        using "2.prems" top [OF True] by (simp add: st KeepByte compact_from.simps)
      then show ?thesis by blast
    next
      case False
      then have "first_value sc' (acc @ [c]) cs = Some v" using "2.prems" by (simp add: st KeepByte)
      then obtain first rest w where "cs = first @ rest" "compact_from sc' first = Some w" "v = (acc @ [c]) @ w"
        using "2.IH"(2) by (fastforce simp: st KeepByte False)
      then have "c # cs = (c # first) @ rest \<and> compact_from sc (c # first) = Some (c # w) \<and> v = acc @ (c # w)"
        by (simp add: st KeepByte compact_from.simps)
      then show ?thesis by blast
    qed
  next
    case DropSpace
    show ?thesis
    proof (cases "fst sc' = EndTop")
      case True
      then have "c # cs = [c] @ cs \<and> compact_from sc [c] = Some [] \<and> v = acc @ []"
        using "2.prems" top [OF True] by (simp add: st DropSpace compact_from.simps)
      then show ?thesis by blast
    next
      case False
      then have "first_value sc' acc cs = Some v" using "2.prems" by (simp add: st DropSpace)
      then obtain first rest w where "cs = first @ rest" "compact_from sc' first = Some w" "v = acc @ w"
        using "2.IH"(1) by (fastforce simp: st DropSpace False)
      then have "c # cs = (c # first) @ rest \<and> compact_from sc (c # first) = Some w \<and> v = acc @ w"
        by (simp add: st DropSpace compact_from.simps)
      then show ?thesis by blast
    qed
  next
    case ScanError
    then have "sc = (EndValue, [])" "v = acc" using "2.prems" by (auto simp: st prod_eq_iff split: if_splits)
    then have "c # cs = [] @ (c # cs) \<and> compact_from sc [] = Some [] \<and> v = acc @ []"
      by (simp add: scan_eof_def json_space_def)
    then show ?thesis by blast
  qed
qed

lemma decode_fields_known:
  "decode_fields f kvs x = Some y \<Longrightarrow> (\<And>k r q q'. f k r q = Some q' \<Longrightarrow> P k) \<Longrightarrow> list_all (\<lambda>kv. P (fst kv)) kvs"
  by (induction kvs arbitrary: x) (auto split: option.splits)

lemma decode_output_object:
  assumes "decode_output raw = Some out" and "ot_Action out \<noteq> []"
  shows "\<exists>first rest v kvs. raw = first @ rest \<and> json_Compact first = Some v \<and> shape_of v = ShObject kvs \<and>
    list_all (\<lambda>kv. list_ex (EqualFold (fst kv)) [''action'', ''text'', ''summary'', ''confidence'', ''lossiness'']) kvs \<and>
    decode_fields output_field kvs zero_output = Some out"
proof -
  obtain v where v: "first_value scan_init [] raw = Some v" "decode_struct output_field zero_output v = Some out"
    using assms(1) by (auto simp: decode_output_def split: option.splits)
  obtain first rest where f: "raw = first @ rest" "json_Compact first = Some v"
    using first_value_prefix [OF v(1)] by (auto simp: json_Compact_def)
  obtain kvs where k: "shape_of v = ShObject kvs" "decode_fields output_field kvs zero_output = Some out"
    using v(2) assms(2) by (auto simp: decode_struct_def zero_output_def split: json_shape.splits)
  have "list_all (\<lambda>kv. list_ex (EqualFold (fst kv)) [''action'', ''text'', ''summary'', ''confidence'', ''lossiness'']) kvs"
    by (rule decode_fields_known [OF k(2)]) (auto simp: output_field_def split: if_splits)
  then show ?thesis using f k by blast
qed

text \<open>C25. A module only ever runs in its sandbox: whatever the manifest and the engine, the host offers it at most
  2048 pages of memory, at most a second and at most a MiB of input, so that how the engine would behave outside
  these limits has no influence. An output is only accepted when the manifest is valid and what the module has
  written under these limits is not empty, within the manifest's limit, valid UTF-8 and begins with a valid JSON
  object that has no fields but the five known ones; the result is decoded from this object, has one of the
  four actions and a text that is valid UTF-8. What follows the object is not looked at, so that the whole need
  not be valid JSON.\<close>

theorem RunWASM_sandboxed:
  "RunWASM (\<lambda>w lim. if sandboxed lim then engine w lim else junk w lim) m wasm input =
     RunWASM engine m wasm input \<and>
   (case RunWASM engine m wasm input of Inl _ \<Rightarrow> True
    | Inr out \<Rightarrow>
        ValidateManifest m = None \<and> ot_Action out \<in> {''keep'', ''replace'', ''annotate'', ''reject''} \<and>
        ValidString (ot_Text out) \<and>
        (\<exists>lim raw first rest v kvs. sandboxed lim \<and>
           raw = foldl (output_write (li_MaxOutputBytes (mf_Limits m))) [] (eo_Writes (engine wasm lim)) \<and>
           raw \<noteq> [] \<and> int (length raw) \<le> li_MaxOutputBytes (mf_Limits m) \<and> ValidString raw \<and>
           raw = first @ rest \<and> json_Compact first = Some v \<and> shape_of v = ShObject kvs \<and>
           list_all (\<lambda>kv. list_ex (EqualFold (fst kv)) [''action'', ''text'', ''summary'', ''confidence'', ''lossiness'']) kvs \<and>
           decode_fields output_field kvs zero_output = Some out))"
proof (rule conjI)
  show "RunWASM (\<lambda>w lim. if sandboxed lim then engine w lim else junk w lim) m wasm input =
      RunWASM engine m wasm input"
    by (simp add: RunWASM_def Let_def RunWASM_limits linorder_not_less split: option.splits)
  show "case RunWASM engine m wasm input of Inl _ \<Rightarrow> True
    | Inr out \<Rightarrow>
        ValidateManifest m = None \<and> ot_Action out \<in> {''keep'', ''replace'', ''annotate'', ''reject''} \<and>
        ValidString (ot_Text out) \<and>
        (\<exists>lim raw first rest v kvs. sandboxed lim \<and>
           raw = foldl (output_write (li_MaxOutputBytes (mf_Limits m))) [] (eo_Writes (engine wasm lim)) \<and>
           raw \<noteq> [] \<and> int (length raw) \<le> li_MaxOutputBytes (mf_Limits m) \<and> ValidString raw \<and>
           raw = first @ rest \<and> json_Compact first = Some v \<and> shape_of v = ShObject kvs \<and>
           list_all (\<lambda>kv. list_ex (EqualFold (fst kv)) [''action'', ''text'', ''summary'', ''confidence'', ''lossiness'']) kvs \<and>
           decode_fields output_field kvs zero_output = Some out)"
  proof (cases "RunWASM engine m wasm input")
    case (Inr out)
    obtain input' run where r: "ValidateManifest m = None"
      "int (length (marshal_input input')) \<le> li_MaxInputBytes (mf_Limits m)"
      "run = engine wasm \<lparr>el_Pages = memoryPages (li_MemoryMB (mf_Limits m)),
         el_Timeout = li_TimeoutMS (mf_Limits m) * 1000000, el_Input = marshal_input input'\<rparr>"
      "accept_output (li_MaxOutputBytes (mf_Limits m))
         (foldl (output_write (li_MaxOutputBytes (mf_Limits m))) [] (eo_Writes run)) = Inr out"
      using Inr by (elim RunWASM_Inr) blast
    note a = accept_output_Inr [OF r(4)]
    have act: "ot_Action out \<in> {''keep'', ''replace'', ''annotate'', ''reject''}" "ot_Action out \<noteq> []"
      using a by (auto simp: plugin_actions_def)
    have t: "ValidString (ot_Text out)" using a decode_output_text by blast
    have d: "\<exists>first rest v kvs. foldl (output_write (li_MaxOutputBytes (mf_Limits m))) [] (eo_Writes run) = first @ rest \<and>
        json_Compact first = Some v \<and> shape_of v = ShObject kvs \<and>
        list_all (\<lambda>kv. list_ex (EqualFold (fst kv)) [''action'', ''text'', ''summary'', ''confidence'', ''lossiness'']) kvs \<and>
        decode_fields output_field kvs zero_output = Some out"
      by (rule decode_output_object [OF _ act(2)]) (use a in blast)
    show ?thesis
      unfolding Inr sum.case
      by (rule conjI [OF r(1) conjI [OF act(1) conjI [OF t]]])
        (rule exI, rule exI, use RunWASM_limits [OF r(1,2)] a d in \<open>unfold r(3), blast\<close>)
  qed simp
qed

end
