(* ===== verification/Plugin_Lifecycle.thy ===== *)
theory Plugin_Lifecycle
  imports Plugin_Host
begin

text \<open>
  \<open>internal/plugin/lifecycle.go\<close>: the registry of plugins is a directory with a directory for each
  plugin: its manifest, its module and, while it is enabled, a marker file. \<open>faults\<close> is what the
  environment does to the calls of the operating system, \<open>decode\<close> the TOML decoder, and \<open>en_Cut\<close> says which
  write to an open file fails on the way; they come together in an environment record. \<open>sort.Slice\<close> is a parameter with the contract \<open>slice_sort\<close>.
\<close>

definition ManifestFileName :: string where "ManifestFileName = ''manifest.toml''"
definition WASMFileName :: string where "WASMFileName = ''plugin.wasm''"
definition EnabledFileName :: string where "EnabledFileName = ''enabled''"

record info =
  in_Manifest :: manifest
  in_Dir :: string
  in_Enabled :: bool

datatype plugin_error =
    PluginOs os_error
  | PluginManifest manifest_error
  | NameMismatch string string
  | PluginNotFound
  | PluginDisabled
  | PluginRun run_error

type_synonym host_runner = "manifest \<Rightarrow> string \<Rightarrow> run_input \<Rightarrow> run_error + plugin_output"

record plugin_env =
  en_Faults :: fault
  en_Cut :: short_write
  en_Decode :: "string \<Rightarrow> error + manifest"

record test_options =
  to_RootDir :: string
  to_Name :: string
  to_FixturePath :: string
  to_Runner :: "host_runner option"

record test_result =
  tr_Plugin :: info
  tr_Output :: plugin_output

section \<open>Operations\<close>

definition inspectPluginDir :: "plugin_env \<Rightarrow> string \<Rightarrow> fs \<Rightarrow> plugin_error + info" where
  "inspectPluginDir env dir fs =
     (let manifestPath = path_Join [dir, ManifestFileName];
          stat = os_Stat (en_Faults env)
      in case stat manifestPath fs of Some err \<Rightarrow> Inl (PluginOs err)
         | None \<Rightarrow>
             (case LoadManifest (en_Decode env) (os_ReadFile (en_Faults env) manifestPath fs) of
                Inl err \<Rightarrow> Inl (PluginManifest err)
              | Inr m \<Rightarrow>
                  (case stat (path_Join [dir, EnabledFileName]) fs of
                     None \<Rightarrow> Inr \<lparr>in_Manifest = m, in_Dir = dir, in_Enabled = True\<rparr>
                   | Some err \<Rightarrow>
                       if err = OsNotExist then Inr \<lparr>in_Manifest = m, in_Dir = dir, in_Enabled = False\<rparr>
                       else Inl (PluginOs err))))"

definition InspectPlugin :: "plugin_env \<Rightarrow> string \<Rightarrow> string \<Rightarrow> fs \<Rightarrow> plugin_error + info" where
  "InspectPlugin env root name fs =
     (if \<not> manifestNameRE name then Inl PluginNotFound
      else case inspectPluginDir env (path_Join [root, name]) fs of
        Inl err \<Rightarrow> Inl (if err = PluginOs OsNotExist then PluginNotFound else err)
      | Inr info \<Rightarrow>
          if mf_Name (in_Manifest info) \<noteq> name then Inl (NameMismatch (mf_Name (in_Manifest info)) name)
          else Inr info)"

fun inspect_entries ::
  "plugin_env \<Rightarrow> string \<Rightarrow> fs \<Rightarrow> (string \<times> bool) list \<Rightarrow> info list \<Rightarrow> plugin_error + info list" where
  "inspect_entries env root fs [] plugins = Inr plugins"
| "inspect_entries env root fs ((name, is_dir) # rest) plugins =
     (if \<not> is_dir then inspect_entries env root fs rest plugins
      else case inspectPluginDir env (path_Join [root, name]) fs of
        Inl err \<Rightarrow>
          if err = PluginOs OsNotExist then inspect_entries env root fs rest plugins else Inl err
      | Inr info \<Rightarrow> inspect_entries env root fs rest (plugins @ [info]))"

definition plugin_name :: "info \<Rightarrow> string" where
  "plugin_name i = mf_Name (in_Manifest i)"

definition ListPlugins ::
  "(info list \<Rightarrow> info list) \<Rightarrow> plugin_env \<Rightarrow> string \<Rightarrow> fs \<Rightarrow> plugin_error + info list" where
  "ListPlugins sort_by_name env root fs =
     (case os_ReadDir (en_Faults env) root fs of
        Inl err \<Rightarrow> if err = OsNotExist then Inr [] else Inl (PluginOs err)
      | Inr entries \<Rightarrow>
          (case inspect_entries env root fs entries [] of
             Inl err \<Rightarrow> Inl err
           | Inr plugins \<Rightarrow> Inr (sort_by_name plugins)))"

definition SetEnabled ::
  "plugin_env \<Rightarrow> time \<Rightarrow> string \<Rightarrow> string \<Rightarrow> bool \<Rightarrow> fs \<Rightarrow> plugin_error option \<times> fs" where
  "SetEnabled env now root name enabled fs =
     (case InspectPlugin env root name fs of
        Inl err \<Rightarrow> (Some err, fs)
      | Inr info \<Rightarrow>
          let marker = path_Join [in_Dir info, EnabledFileName]
          in if enabled
             then (let (err, fs') = os_WriteFile (en_Faults env) (en_Cut env) now marker (''enabled'' @ [NL]) fs
                   in (map_option PluginOs err, fs'))
             else (let (err, fs') = os_Remove (en_Faults env) marker fs
                   in (if err = Some OsNotExist then None else map_option PluginOs err, fs')))"

definition firstCompressCapability :: "manifest \<Rightarrow> string" where
  "firstCompressCapability m =
     (case ca_Compress (mf_Capabilities m) of [] \<Rightarrow> ''text'' | c # _ \<Rightarrow> c)"

definition fixture_input :: "manifest \<Rightarrow> string \<Rightarrow> run_input" where
  "fixture_input m fixture =
     \<lparr>ri_APIVersion = [], ri_RequestID = ''plugin-test'', ri_Provider = ''fixture'', ri_Model = ''fixture'',
      ri_ContentType = firstCompressCapability m,
      ri_Block = \<lparr>bi_ID = ''fixture'', bi_Role = ''tool'', bi_Text = fixture\<rparr>,
      ri_Metadata = [(''source'', ''fixture'')]\<rparr>"

definition TestPlugin ::
  "wasm_engine \<Rightarrow> plugin_env \<Rightarrow> test_options \<Rightarrow> fs \<Rightarrow> plugin_error + test_result" where
  "TestPlugin engine env options fs =
     (case InspectPlugin env (to_RootDir options) (to_Name options) fs of
        Inl err \<Rightarrow> Inl err
      | Inr info \<Rightarrow>
          if \<not> in_Enabled info then Inl PluginDisabled
          else case os_ReadFile (en_Faults env) (to_FixturePath options) fs of
            Inl err \<Rightarrow> Inl (PluginOs err)
          | Inr fixture \<Rightarrow>
              (case os_ReadFile (en_Faults env) (path_Join [in_Dir info, WASMFileName]) fs of
                 Inl err \<Rightarrow> Inl (PluginOs err)
               | Inr wasm \<Rightarrow>
                   (let runner = (case to_Runner options of None \<Rightarrow> RunWASM engine | Some r \<Rightarrow> r)
                    in case runner (in_Manifest info) wasm (fixture_input (in_Manifest info) fixture) of
                         Inl err \<Rightarrow> Inl (PluginRun err)
                       | Inr out \<Rightarrow> Inr \<lparr>tr_Plugin = info, tr_Output = out\<rparr>)))"

section \<open>Facts\<close>

abbreviation plugin_dir :: "string \<Rightarrow> string \<Rightarrow> string" where
  "plugin_dir root name \<equiv> path_Join [root, name]"

definition files_below :: "string \<Rightarrow> fs \<Rightarrow> fs" where
  "files_below dir fs = filter (\<lambda>pf. below dir (fst pf)) fs"

lemma file_names_plain: "plain ManifestFileName" "plain WASMFileName" "plain EnabledFileName"
  by (simp_all add: ManifestFileName_def WASMFileName_def EnabledFileName_def plain_def)

lemma plugin_paths:
  assumes "directory d"
  shows "path_Join [d, ManifestFileName] = d @ ''/manifest.toml''"
    "path_Join [d, WASMFileName] = d @ ''/plugin.wasm''"
    "path_Join [d, EnabledFileName] = d @ ''/enabled''"
  using path_Join_directory [OF assms] file_names_plain
  by (simp_all add: ManifestFileName_def WASMFileName_def EnabledFileName_def)

lemma directory_plugin: "manifestNameRE name \<Longrightarrow> directory (plugin_dir root name)"
  by (intro directory_path_Join manifestNameRE_plain)

lemma Base_plugin_dir:
  assumes "manifestNameRE name"
  shows "Base (plugin_dir root name) = name"
  using manifestNameRE_plain [OF assms] Base_path_Join [of root "[]" name]
  by (cases "root = []") (simp_all add: path_Join_nil Base_plain)

lemma lookup_files_below: "below d p \<Longrightarrow> fs_lookup (files_below d fs) p = fs_lookup fs p"
  by (induction fs) (auto simp: fs_lookup_def files_below_def)

lemma exists_files_below: "below d p \<Longrightarrow> path_exists (files_below d fs) p = path_exists fs p"
proof -
  assume d: "below d p"
  have "list_ex (\<lambda>pf. below p (fst pf)) (files_below d fs) = list_ex (\<lambda>pf. below p (fst pf)) fs"
    unfolding list_ex_iff files_below_def set_filter using below_trans [OF d] by blast
  then show ?thesis by (simp add: path_exists_def lookup_files_below [OF d])
qed

lemma os_files_below:
  assumes "below d p"
  shows "os_Stat faults p (files_below d fs) = os_Stat faults p fs"
    "os_ReadFile faults p (files_below d fs) = os_ReadFile faults p fs"
  by (simp_all only: os_Stat_def os_ReadFile_def lookup_files_below [OF assms] exists_files_below [OF assms])

lemma inspect_files_below:
  assumes "directory d"
  shows "inspectPluginDir env d (files_below d fs) = inspectPluginDir env d fs"
  by (simp only: inspectPluginDir_def Let_def plugin_paths [OF assms] append_Cons os_files_below [OF below_append])

lemma LoadManifest_valid: "LoadManifest decode f = Inr m \<Longrightarrow> ValidateManifest m = None"
  by (auto simp: LoadManifest_def split: sum.splits option.splits)

lemma inspectPluginDir_Inr:
  assumes "inspectPluginDir env d fs = Inr i"
  shows "in_Dir i = d" "ValidateManifest (in_Manifest i) = None"
    "in_Enabled i \<longleftrightarrow> os_Stat (en_Faults env) (path_Join [d, EnabledFileName]) fs = None"
  using assms LoadManifest_valid
  by (auto simp: inspectPluginDir_def Let_def split: option.splits sum.splits if_splits)

lemma InspectPlugin_Inr:
  "InspectPlugin env root name fs = Inr i \<longleftrightarrow>
     manifestNameRE name \<and> inspectPluginDir env (plugin_dir root name) fs = Inr i \<and> plugin_name i = name"
  by (auto simp: InspectPlugin_def plugin_name_def split: sum.splits)

lemma inspectPluginDir_iff:
  assumes "directory d"
  shows "inspectPluginDir env d fs = Inr i \<longleftrightarrow>
    en_Faults env (d @ ''/manifest.toml'') = None \<and>
    (\<exists>f. fs_lookup fs (d @ ''/manifest.toml'') = Some f \<and>
       LoadManifest (en_Decode env) (Inr (f_Content f)) = Inr (in_Manifest i)) \<and>
    in_Dir i = d \<and>
    os_Stat (en_Faults env) (d @ ''/enabled'') fs = (if in_Enabled i then None else Some OsNotExist)"
  by (cases i) (auto simp: inspectPluginDir_def Let_def plugin_paths [OF assms] os_Stat_def [of _ "d @ ''/manifest.toml''"]
      os_ReadFile_def LoadManifest_def path_exists_def [of _ "d @ ''/manifest.toml''"]
      split: option.splits sum.splits if_splits)

lemma SetEnabled_frame:
  assumes "SetEnabled env now root name en fs = (r, fs')" and "manifestNameRE name"
    and "q \<noteq> plugin_dir root name @ ''/enabled''"
  shows "fs_lookup fs' q = fs_lookup fs q"
proof -
  have "os_WriteFile flt cuts now p c fs = (e, fs'') \<Longrightarrow> p \<noteq> q \<Longrightarrow> fs_lookup fs'' q = fs_lookup fs q"
    "os_Remove flt p fs = (e, fs'') \<Longrightarrow> p \<noteq> q \<Longrightarrow> fs_lookup fs'' q = fs_lookup fs q" for flt cuts p c e fs''
    by (auto simp: os_Remove_def dest: os_WriteFile_frame split: option.splits if_splits)
  then show ?thesis
    using assms inspectPluginDir_Inr(1) plugin_paths(3) [OF directory_plugin [OF assms(2), of root]]
    by (fastforce simp: SetEnabled_def InspectPlugin_Inr Let_def split: sum.splits if_splits prod.splits)
qed

lemma files_below_write: "\<not> below d p \<Longrightarrow> files_below d (fs_write p f fs) = files_below d fs"
  by (induction p f fs rule: fs_write.induct) (auto simp: files_below_def)

lemma files_below_delete: "\<not> below d p \<Longrightarrow> files_below d (fs_delete p fs) = files_below d fs"
  by (induction fs) (auto simp: files_below_def fs_delete_def)

lemma SetEnabled_success:
  assumes "SetEnabled env now root name en fs = (None, fs')"
  obtains i where "InspectPlugin env root name fs = Inr i" "manifestNameRE name"
    "if en then (\<exists>f. fs' = fs_write (plugin_dir root name @ ''/enabled'') f fs) \<and>
         en_Faults env (plugin_dir root name @ ''/enabled'') = None
     else (fs' = fs \<and> os_Stat (en_Faults env) (plugin_dir root name @ ''/enabled'') fs = Some OsNotExist) \<or>
       (fs' = fs_delete (plugin_dir root name @ ''/enabled'') fs \<and>
        en_Faults env (plugin_dir root name @ ''/enabled'') = None \<and>
        fs_lookup fs (plugin_dir root name @ ''/enabled'') \<noteq> None)"
proof -
  obtain i where i: "InspectPlugin env root name fs = Inr i" 
    using assms by (auto simp: SetEnabled_def split: sum.splits)
  then have n: "manifestNameRE name" and d: "in_Dir i = plugin_dir root name"
    using inspectPluginDir_Inr(1) by (auto simp: InspectPlugin_Inr)
  show thesis
    using that [OF i n] assms
    unfolding SetEnabled_def i
    by (simp add: Let_def d plugin_paths(3) [OF directory_plugin [OF n]] split: if_splits prod.splits)
      (auto simp: os_Remove_def os_Stat_def dest!: os_WriteFile_cases(1) split: option.splits if_splits)
qed

text \<open>
  A call that fails has changed nothing, unless it was to enable the plugin and the write to the marker failed
  on the way: the marker is there then, whatever is in it.
\<close>

lemma SetEnabled_failure:
  assumes "SetEnabled env now root name en fs = (Some err, fs')"
  shows "fs' = fs \<or> en \<and> (\<exists>i n e. InspectPlugin env root name fs = Inr i \<and> err = PluginOs e \<and>
    en_Cut env (plugin_dir root name @ ''/enabled'') = Some (n, e) \<and>
    en_Faults env (plugin_dir root name @ ''/enabled'') = None \<and>
    fs' = fs_write (plugin_dir root name @ ''/enabled'') \<lparr>f_Content = take n (''enabled'' @ [NL]), f_ModTime = now\<rparr> fs)"
proof (cases "InspectPlugin env root name fs")
  case (Inl e)
  then show ?thesis using assms by (simp add: SetEnabled_def)
next
  case (Inr i)
  then have n: "manifestNameRE name" and d: "in_Dir i = plugin_dir root name"
    using inspectPluginDir_Inr(1) by (auto simp: InspectPlugin_Inr)
  note s = assms [unfolded SetEnabled_def Inr sum.case Let_def d plugin_paths(3) [OF directory_plugin [OF n]]]
  show ?thesis
  proof (cases en)
    case True
    then show ?thesis
      using s Inr by (auto simp: split: prod.splits dest!: os_WriteFile_cases(2))
  next
    case False
    then show ?thesis
      using s by (auto simp: os_Remove_def split: prod.splits option.splits if_splits)
  qed
qed

lemma not_exists_deleted:
  assumes "files_only fs" and "fs_lookup fs p \<noteq> None"
  shows "\<not> path_exists (fs_delete p fs) p"
proof -
  obtain f where "(p, f) \<in> set fs" using assms(2) by (auto simp: fs_lookup_def dest: map_of_SomeD)
  then have "\<not> below p (fst qg)" if "qg \<in> set fs" for qg
    using assms(1) that by (fastforce simp: files_only_def list_all_iff list_ex_iff)
  then have "\<not> list_ex (\<lambda>pf. below p (fst pf)) (fs_delete p fs)"
    by (auto simp: list_ex_iff fs_delete_def)
  then show ?thesis by (simp add: path_exists_def)
qed

lemma InspectPlugin_sibling:
  assumes "SetEnabled env now root name en fs = (None, fs')" and "n \<noteq> name"
  shows "InspectPlugin env root n fs' = InspectPlugin env root n fs"
proof (cases "manifestNameRE n")
  case True
  obtain i where s: "manifestNameRE name" "if en
      then (\<exists>f. fs' = fs_write (plugin_dir root name @ ''/enabled'') f fs)
      else fs' = fs \<or> fs' = fs_delete (plugin_dir root name @ ''/enabled'') fs"
    by (rule SetEnabled_success [OF assms(1)]) (auto split: if_splits)
  have "\<not> below (plugin_dir root n) (plugin_dir root name @ ''/enabled'')"
    using below_sibling [OF manifestNameRE_plain [OF True] manifestNameRE_plain [OF s(1)]] assms(2) by auto
  then have "files_below (plugin_dir root n) fs' = files_below (plugin_dir root n) fs"
    using s(2) by (auto simp: files_below_write files_below_delete split: if_splits)
  then have "inspectPluginDir env (plugin_dir root n) fs' = inspectPluginDir env (plugin_dir root n) fs"
    using inspect_files_below [OF directory_plugin [OF True]] by metis
  then show ?thesis by (simp add: InspectPlugin_def)
qed (simp add: InspectPlugin_def)

text \<open>Once the marker is there the plugin is reported as enabled.\<close>

lemma InspectPlugin_marked:
  assumes "InspectPlugin env root name fs = Inr i" and "en_Faults env (plugin_dir root name @ ''/enabled'') = None"
  shows "InspectPlugin env root name (fs_write (plugin_dir root name @ ''/enabled'') f fs) = Inr (i\<lparr>in_Enabled := True\<rparr>)"
proof -
  have n: "manifestNameRE name" using assms by (simp add: InspectPlugin_Inr)
  have "os_Stat (en_Faults env) (plugin_dir root name @ ''/enabled'')
      (fs_write (plugin_dir root name @ ''/enabled'') f fs) = None"
    by (simp add: os_Stat_def path_exists_def assms(2))
  then show ?thesis
    using assms(1)
    by (auto simp: InspectPlugin_Inr plugin_name_def inspectPluginDir_iff [OF directory_plugin [OF n, of root]])
qed

lemma InspectPlugin_after:
  assumes "SetEnabled env now root name en fs = (None, fs')" and "files_only fs"
  shows "\<exists>i. InspectPlugin env root name fs = Inr i \<and> InspectPlugin env root name fs' = Inr (i\<lparr>in_Enabled := en\<rparr>)"
proof -
  let ?m = "plugin_dir root name @ ''/enabled''"
  obtain i where i: "InspectPlugin env root name fs = Inr i" "manifestNameRE name"
    and e: "if en then (\<exists>f. fs' = fs_write ?m f fs) \<and> en_Faults env ?m = None
     else (fs' = fs \<and> os_Stat (en_Faults env) ?m fs = Some OsNotExist) \<or>
       (fs' = fs_delete ?m fs \<and> en_Faults env ?m = None \<and> fs_lookup fs ?m \<noteq> None)"
    by (rule SetEnabled_success [OF assms(1)])
  note d = directory_plugin [OF i(2), of root]
  have "os_Stat (en_Faults env) ?m fs' = (if en then None else Some OsNotExist)"
    using e not_exists_deleted [OF assms(2), of ?m]
    by (auto simp: os_Stat_def path_exists_def [of "fs_write _ _ _"] split: if_splits)
  moreover have "fs_lookup fs' (plugin_dir root name @ ''/manifest.toml'') =
      fs_lookup fs (plugin_dir root name @ ''/manifest.toml'')"
    by (rule SetEnabled_frame [OF assms(1) i(2)]) simp
  ultimately have "inspectPluginDir env (plugin_dir root name) fs' = Inr (i\<lparr>in_Enabled := en\<rparr>)"
    using i by (auto simp: InspectPlugin_Inr inspectPluginDir_iff [OF d])
  then show ?thesis using i by (auto simp: InspectPlugin_Inr plugin_name_def)
qed

definition entry_plugin :: "plugin_env \<Rightarrow> string \<Rightarrow> fs \<Rightarrow> string \<times> bool \<Rightarrow> info option" where
  "entry_plugin env root fs entry =
     (if snd entry then case inspectPluginDir env (plugin_dir root (fst entry)) fs of
        Inl _ \<Rightarrow> None | Inr i \<Rightarrow> Some i else None)"

lemma inspect_entries_Inr:
  "inspect_entries env root fs es acc = Inr ps \<Longrightarrow> ps = acc @ List.map_filter (entry_plugin env root fs) es"
proof (induction es arbitrary: acc)
  case (Cons e es)
  obtain n b where e: "e = (n, b)" by (cases e)
  show ?case
    using Cons.prems
    by (cases "inspectPluginDir env (plugin_dir root n) fs")
      (auto simp: e entry_plugin_def List.map_filter_simps dest!: Cons.IH split: if_splits)
qed (simp add: List.map_filter_simps)

lemma in_map_filter: "y \<in> set (List.map_filter f xs) \<longleftrightarrow> (\<exists>x \<in> set xs. f x = Some y)"
  by (force simp: List.map_filter_def)

lemma ListPlugins_set:
  assumes "slice_sort plugin_name sort_by_name" and "ListPlugins sort_by_name env root fs = Inr plugins"
    and "root \<noteq> []" and "en_Faults env root = None"
  shows "sorted (map plugin_name plugins)"
    "set plugins = {i. \<exists>e \<in> set (dir_entries root fs). entry_plugin env root fs e = Some i}"
proof -
  consider (none) "plugins = []" "dir_entries root fs = []"
    | (some) ps where "inspect_entries env root fs (dir_entries root fs) [] = Inr ps"
      "plugins = sort_by_name ps"
  proof (cases "dir_entries root fs = []")
    case False
    then show ?thesis
      using assms(2-4) some
      by (cases "fs_lookup fs (Clean root)"; cases "inspect_entries env root fs (dir_entries root fs) []")
        (simp_all add: ListPlugins_def os_ReadDir_def)
  next
    case True
    then show ?thesis
      using assms(2-4) none
      by (cases "fs_lookup fs (Clean root)") (simp_all add: ListPlugins_def os_ReadDir_def)
  qed
  then have "sorted (map plugin_name plugins) \<and>
    set plugins = {i. \<exists>e \<in> set (dir_entries root fs). entry_plugin env root fs e = Some i}"
  proof cases
    case some
    then show ?thesis
      using slice_sort.ascending [OF assms(1)] slice_sort.set_sort [OF assms(1)]
        inspect_entries_Inr [OF some(1)] by (auto simp: in_map_filter)
  qed simp
  then show "sorted (map plugin_name plugins)"
    "set plugins = {i. \<exists>e \<in> set (dir_entries root fs). entry_plugin env root fs e = Some i}"
    by blast+
qed

lemma InspectPlugin_entry:
  assumes "InspectPlugin env root name fs = Inr i"
  shows "(name, True) \<in> set (dir_entries root fs)" "entry_plugin env root fs (name, True) = Some i"
proof -
  have i: "manifestNameRE name" "inspectPluginDir env (plugin_dir root name) fs = Inr i"
    using assms by (simp_all add: InspectPlugin_Inr)
  obtain f where "fs_lookup fs (plugin_dir root name @ CHR ''/'' # ''manifest.toml'') = Some f"
    using i(2) unfolding inspectPluginDir_iff [OF directory_plugin [OF i(1)]] by auto
  then show "(name, True) \<in> set (dir_entries root fs)"
    by (rule dir_entries_subdirectory [OF manifestNameRE_plain [OF i(1)]])
  show "entry_plugin env root fs (name, True) = Some i" using i by (simp add: entry_plugin_def)
qed

interpretation stable_names: slice_sort plugin_name "sort_key plugin_name"
  by unfold_locales simp_all

section \<open>Properties\<close>

text \<open>C26. Whatever name is asked for, inspecting a plugin looks at nothing but the files below the
  directory of that name in the plugin root; what it reports is in this directory, bears this name,
  has a valid manifest, and is enabled exactly when its marker file can be seen.\<close>

theorem InspectPlugin_contained:
  "InspectPlugin env root name fs =
     InspectPlugin env root name (filter (\<lambda>pf. below (path_Join [root, name]) (fst pf)) fs) \<and>
   (case InspectPlugin env root name fs of Inl _ \<Rightarrow> True
    | Inr i \<Rightarrow>
        in_Dir i = path_Join [root, name] \<and> Base (in_Dir i) = name \<and> mf_Name (in_Manifest i) = name \<and>
        ValidateManifest (in_Manifest i) = None \<and>
        in_Enabled i = (os_Stat (en_Faults env) (in_Dir i @ ''/enabled'') fs = None))"
proof (cases "manifestNameRE name")
  case True
  have "inspectPluginDir env (plugin_dir root name)
      (filter (\<lambda>pf. below (path_Join [root, name]) (fst pf)) fs) =
    inspectPluginDir env (plugin_dir root name) fs"
    using inspect_files_below [OF directory_plugin [OF True]] by (simp only: files_below_def)
  then show ?thesis
    using inspectPluginDir_Inr [of env "plugin_dir root name" fs] Base_plugin_dir [OF True, of root]
      plugin_paths(3) [OF directory_plugin [OF True, of root]]
    by (auto simp: InspectPlugin_def split: sum.splits)
qed (simp add: InspectPlugin_def)

text \<open>C24. Enabling and disabling take effect and touch nothing else: on success the plugin is reported
  as before but for its state, now the one asked for; every other plugin is reported as before; every
  file but the marker is as before; a disabled plugin is not run by a test. On an error nothing has
  changed, with one exception: when the plugin was to be enabled and the write to its marker failed
  on the way, the marker is there with what was written of it, so the plugin is on although the call
  has failed.\<close>

theorem SetEnabled_takes_effect:
  assumes "files_only fs"
  shows "case SetEnabled env now root name en fs of
      (Some err, fs') \<Rightarrow> fs' = fs \<or>
        (en \<and> (\<exists>i n e. en_Cut env (path_Join [root, name] @ ''/enabled'') = Some (n, e) \<and> err = PluginOs e \<and>
           fs' = fs_write (path_Join [root, name] @ ''/enabled'')
             \<lparr>f_Content = take n (''enabled'' @ [NL]), f_ModTime = now\<rparr> fs \<and>
           InspectPlugin env root name fs = Inr i \<and>
           InspectPlugin env root name fs' = Inr (i\<lparr>in_Enabled := True\<rparr>)))
    | (None, fs') \<Rightarrow>
        (\<exists>i. InspectPlugin env root name fs = Inr i \<and>
           InspectPlugin env root name fs' = Inr (i\<lparr>in_Enabled := en\<rparr>)) \<and>
        (\<forall>n. n \<noteq> name \<longrightarrow> InspectPlugin env root n fs' = InspectPlugin env root n fs) \<and>
        (\<forall>q. q \<noteq> path_Join [root, name] @ ''/enabled'' \<longrightarrow> fs_lookup fs' q = fs_lookup fs q) \<and>
        (en \<or> TestPlugin engine env \<lparr>to_RootDir = root, to_Name = name, to_FixturePath = fixture,
                 to_Runner = runner\<rparr> fs' = Inl PluginDisabled)"
proof (cases "SetEnabled env now root name en fs")
  case (Pair r fs')
  show ?thesis
  proof (cases r)
    case None
    note s = Pair [unfolded None]
    obtain i where i: "InspectPlugin env root name fs = Inr i"
      "InspectPlugin env root name fs' = Inr (i\<lparr>in_Enabled := en\<rparr>)"
      using InspectPlugin_after [OF s assms] by blast
    have "manifestNameRE name" using i by (simp add: InspectPlugin_Inr)
    then show ?thesis
      using i SetEnabled_frame [OF s] InspectPlugin_sibling [OF s] by (simp add: s TestPlugin_def)
  next
    case (Some err)
    show ?thesis
      using SetEnabled_failure [OF Pair [unfolded Some]] InspectPlugin_marked [of env root name fs]
      unfolding Pair Some prod.case option.case by blast
  qed
qed

definition example_manifest :: manifest where
  "example_manifest = \<lparr>mf_Name = ''abc'', mf_Version = ''1.0.0'', mf_APIVersion = ''v1'', mf_Description = [],
     mf_Capabilities = \<lparr>ca_Compress = [''text''], ca_Classify = [], ca_Redact = []\<rparr>,
     mf_Limits = \<lparr>li_TimeoutMS = 10, li_MemoryMB = 1, li_MaxInputBytes = 1000, li_MaxOutputBytes = 1000\<rparr>\<rparr>"

definition example_env :: plugin_env where
  "example_env = \<lparr>en_Faults = (\<lambda>_. None), en_Cut = Map.empty, en_Decode = (\<lambda>_. Inr example_manifest)\<rparr>"

definition example_files :: fs where
  "example_files = [(''p/abc/manifest.toml'', \<lparr>f_Content = [], f_ModTime = 0\<rparr>)]"

lemma example_valid: "ValidateManifest example_manifest = None"
  by (simp add: ValidateManifest_def manifest_problems_Nil name_problems_Nil capability_problems_Nil
      supportedCompressCapabilities_def example_manifest_def go_eval)

lemma example_inspect:
  "InspectPlugin example_env ''p'' ''abc'' example_files =
     Inr \<lparr>in_Manifest = example_manifest, in_Dir = ''p/abc'', in_Enabled = False\<rparr>"
proof -
  have n: "manifestNameRE ''abc''" by (simp add: go_eval)
  have d: "path_Join [''p'', ''abc''] = ''p/abc''" by (simp add: go_eval)
  have "LoadManifest (\<lambda>_. Inr example_manifest) (Inr []) = Inr example_manifest"
    by (simp add: LoadManifest_def example_valid)
  then have "inspectPluginDir example_env ''p/abc'' example_files =
      Inr \<lparr>in_Manifest = example_manifest, in_Dir = ''p/abc'', in_Enabled = False\<rparr>"
    using directory_plugin [OF n, of "''p''"]
    by (simp add: inspectPluginDir_iff d)
      (simp add: example_env_def example_files_def fs_lookup_def os_Stat_def path_exists_def below_def HasPrefix_def)
  then show ?thesis using n by (simp add: InspectPlugin_Inr d plugin_name_def) (simp add: example_manifest_def)
qed

lemma SetEnabled_takes_effect_witness:
  "case SetEnabled example_env 0 ''p'' ''abc'' True example_files of (r, fs') \<Rightarrow>
     r = None \<and> InspectPlugin example_env ''p'' ''abc'' fs' =
       Inr \<lparr>in_Manifest = example_manifest, in_Dir = ''p/abc'', in_Enabled = True\<rparr>"
proof -
  have "files_only example_files" by (simp add: files_only_def example_files_def below_def HasPrefix_def)
  note t = SetEnabled_takes_effect [OF this, where env = example_env and now = 0 and root = "''p''"
        and name = "''abc''" and en = True]
  have "path_Join [''p/abc'', EnabledFileName] = ''p/abc/enabled''" by (simp add: EnabledFileName_def go_eval)
  then have "fst (SetEnabled example_env 0 ''p'' ''abc'' True example_files) = None"
    by (simp add: SetEnabled_def example_inspect)
      (simp add: example_env_def os_WriteFile_def os_Create_def example_files_def fs_lookup_def path_exists_def below_def HasPrefix_def)
  then show ?thesis using t by (auto simp: example_inspect split: prod.splits)
qed

text \<open>A listing of an existing plugin root is complete and in order of the names: the listed plugins
  whose name is that of their directory are exactly those that can be inspected.\<close>

theorem ListPlugins_complete:
  assumes "\<And>xs. mset (sort_by_name xs) = mset xs" and "\<And>xs. sorted (map plugin_name (sort_by_name xs))"
    and "root \<noteq> []" and "en_Faults env root = None"
    and "ListPlugins sort_by_name env root fs = Inr plugins"
  shows "sorted (map plugin_name plugins) \<and>
    {i \<in> set plugins. in_Dir i = path_Join [root, plugin_name i] \<and> manifestNameRE (plugin_name i)} =
      {i. \<exists>name. InspectPlugin env root name fs = Inr i}"
proof -
  have s: "slice_sort plugin_name sort_by_name" using assms(1,2) by (intro slice_sort.intro)
  have p: "set plugins = {i. \<exists>e \<in> set (dir_entries root fs). entry_plugin env root fs e = Some i}"
    using ListPlugins_set(2) [OF s assms(5,3,4)] .
  have "i \<in> set plugins \<and> in_Dir i = plugin_dir root (plugin_name i) \<and> manifestNameRE (plugin_name i)"
    if "InspectPlugin env root name fs = Inr i" for name i
    using InspectPlugin_entry [OF that] that inspectPluginDir_Inr(1)
    by (auto simp: p InspectPlugin_Inr)
  moreover have "InspectPlugin env root (plugin_name i) fs = Inr i"
    if i: "i \<in> set plugins" "in_Dir i = plugin_dir root (plugin_name i)" "manifestNameRE (plugin_name i)" for i
  proof -
    obtain e where e: "entry_plugin env root fs e = Some i" using i(1) unfolding p by blast
    obtain n where "inspectPluginDir env (plugin_dir root n) fs = Inr i"
      using e by (cases "inspectPluginDir env (plugin_dir root (fst e)) fs")
        (auto simp: entry_plugin_def split: if_splits)
    then show ?thesis
      using i inspectPluginDir_Inr(1) [of env "plugin_dir root n" fs i] by (simp add: InspectPlugin_Inr)
  qed
  ultimately show ?thesis using ListPlugins_set(1) [OF s assms(5,3,4)] by blast
qed

lemma ListPlugins_complete_witness:
  "plugin_name ` {i. \<exists>name. InspectPlugin example_env ''p'' name example_files = Inr i} = {''abc''}"
proof -
  have d: "dir_entries ''p'' example_files = [(''abc'', True)]"
    by (simp add: dir_entries_def example_files_def rel_path_def dir_entry_def dir_prefix_def go_eval
        List.map_filter_simps)
  have "ListPlugins (sort_key plugin_name) example_env ''p'' example_files =
      Inr [\<lparr>in_Manifest = example_manifest, in_Dir = ''p/abc'', in_Enabled = False\<rparr>]"
    using example_inspect d
    by (simp add: ListPlugins_def os_ReadDir_def InspectPlugin_Inr)
      (simp add: example_env_def example_files_def fs_lookup_def go_eval)
  from ListPlugins_complete [OF _ _ _ _ this]
  have "{i. \<exists>name. InspectPlugin example_env ''p'' name example_files = Inr i} \<subseteq>
      {\<lparr>in_Manifest = example_manifest, in_Dir = ''p/abc'', in_Enabled = False\<rparr>}"
    by (auto simp: example_env_def)
  then have "{i. \<exists>name. InspectPlugin example_env ''p'' name example_files = Inr i} =
      {\<lparr>in_Manifest = example_manifest, in_Dir = ''p/abc'', in_Enabled = False\<rparr>}"
    using example_inspect by blast
  then show ?thesis by (simp add: plugin_name_def) (simp add: example_manifest_def)
qed

end
