(* ===== verification/Wasm_Compressor.thy ===== *)
theory Wasm_Compressor
  imports Plugin_Lifecycle Pipeline
begin

text \<open>
  \<open>internal/plugin/wasm_compressor.go\<close>: the enabled plugins as a compressor of the pipeline. The
  interface of compressors carries errors as text: \<open>render\<close> gives the text of an error.
\<close>

type_synonym read_wasm = "info \<Rightarrow> plugin_error + string"

record wasm_compressor =
  wc_Plugins :: "info list"
  wc_Runner :: "host_runner option"
  wc_ReadWASM :: "read_wasm option"
  wc_RequestID :: string
  wc_Model :: string

definition loaded_compressor :: "info list \<Rightarrow> wasm_compressor" where
  "loaded_compressor plugins =
     \<lparr>wc_Plugins = plugins, wc_Runner = None, wc_ReadWASM = None, wc_RequestID = [], wc_Model = []\<rparr>"

definition LoadWASMCompressor ::
  "(info list \<Rightarrow> info list) \<Rightarrow> plugin_env \<Rightarrow> string \<Rightarrow> fs \<Rightarrow> plugin_error + wasm_compressor" where
  "LoadWASMCompressor sort_by_name env root fs =
     (case ListPlugins sort_by_name env root fs of
        Inl err \<Rightarrow> Inl err
      | Inr plugins \<Rightarrow> Inr (loaded_compressor (filter in_Enabled plugins)))"

definition canPluginCompress :: "info \<Rightarrow> string \<Rightarrow> bool" where
  "canPluginCompress i contentType \<longleftrightarrow>
     in_Enabled i \<and> list_ex (\<lambda>capability. capability = contentType) (ca_Compress (mf_Capabilities (in_Manifest i)))"

definition readPluginWASM :: "plugin_env \<Rightarrow> fs \<Rightarrow> read_wasm" where
  "readPluginWASM env fs i =
     (case os_ReadFile (en_Faults env) (path_Join [in_Dir i, WASMFileName]) fs of
        Inl err \<Rightarrow> Inl (PluginOs err) | Inr wasm \<Rightarrow> Inr wasm)"

definition block_run_input :: "wasm_compressor \<Rightarrow> block \<Rightarrow> run_input" where
  "block_run_input c b =
     \<lparr>ri_APIVersion = SupportedAPIVersion, ri_RequestID = wc_RequestID c, ri_Provider = bl_Provider b,
      ri_Model = wc_Model c, ri_ContentType = bl_ContentType b,
      ri_Block = \<lparr>bi_ID = bl_ID b, bi_Role = bl_Role b, bi_Text = bl_Text b\<rparr>,
      ri_Metadata = [(''path'', bl_Path b), (''source'', bl_Source b), (''stability'', bl_Stability b)]\<rparr>"

fun try_plugins ::
  "host_runner \<Rightarrow> read_wasm \<Rightarrow> wasm_compressor \<Rightarrow> block \<Rightarrow> info list \<Rightarrow> plugin_error + proposal" where
  "try_plugins runner readWASM c b [] = Inr (text_proposal (bl_Text b))"
| "try_plugins runner readWASM c b (i # rest) =
     (if \<not> canPluginCompress i (bl_ContentType b) then try_plugins runner readWASM c b rest
      else case readWASM i of
        Inl err \<Rightarrow> Inl err
      | Inr wasm \<Rightarrow>
          (case runner (in_Manifest i) wasm (block_run_input c b) of
             Inl err \<Rightarrow> Inl (PluginRun err)
           | Inr out \<Rightarrow>
               if ot_Action out = ''replace'' then Inr (text_proposal (ot_Text out))
               else Inr (text_proposal (bl_Text b))))"

definition Compress_wasm ::
  "wasm_engine \<Rightarrow> plugin_env \<Rightarrow> fs \<Rightarrow> wasm_compressor \<Rightarrow> block \<Rightarrow> plugin_error + proposal" where
  "Compress_wasm engine env fs c b =
     (let runner = (case wc_Runner c of None \<Rightarrow> RunWASM engine | Some r \<Rightarrow> r);
          readWASM = (case wc_ReadWASM c of None \<Rightarrow> readPluginWASM env fs | Some r \<Rightarrow> r)
      in try_plugins runner readWASM c b (wc_Plugins c))"

definition as_compressor :: "(plugin_error \<Rightarrow> error) \<Rightarrow> (block \<Rightarrow> plugin_error + proposal) \<Rightarrow> compressor" where
  "as_compressor render compress b =
     (case compress b of Inl err \<Rightarrow> Inl (render err) | Inr p \<Rightarrow> Inr p)"

section \<open>Facts\<close>

text \<open>Why a proposal is what it is: the first plugin that can compress the block has answered.\<close>

lemma try_plugins_Inr:
  "try_plugins runner readWASM c b plugins = Inr pr \<Longrightarrow>
     pr_Bytes pr = None \<and>
     (pr_Text pr = bl_Text b \<or>
      (\<exists>i wasm out. find (\<lambda>i. canPluginCompress i (bl_ContentType b)) plugins = Some i \<and> readWASM i = Inr wasm \<and>
         runner (in_Manifest i) wasm (block_run_input c b) = Inr out \<and> ot_Action out = ''replace'' \<and>
         pr_Text pr = ot_Text out))"
  by (induction plugins) (auto simp: text_proposal_def split: if_splits sum.splits)

lemma find_mem: "find P xs = Some x \<Longrightarrow> x \<in> set xs \<and> P x"
  by (auto simp: find_Some_iff)

lemma RunWASM_text:
  assumes "RunWASM engine m wasm input = Inr out"
  shows "ValidString (ot_Text out)" "ValidateManifest m = None"
  using assms accept_output_Inr decode_output_text by (blast elim!: RunWASM_Inr)+

interpretation wasm: utf8_safe_compressor
  "as_compressor render (Compress_wasm engine env fs (loaded_compressor plugins))" for render engine env fs plugins
proof unfold_locales
  fix b pr
  assume v: "ValidString (bl_Text b)"
    and "as_compressor render (Compress_wasm engine env fs (loaded_compressor plugins)) b = Inr pr"
  then have "try_plugins (RunWASM engine) (readPluginWASM env fs) (loaded_compressor plugins) b plugins = Inr pr"
    by (auto simp: as_compressor_def Compress_wasm_def loaded_compressor_def split: sum.splits)
  from try_plugins_Inr [OF this] show "proposalText pr \<noteq> None"
    using v RunWASM_text(1) by (auto simp: proposalText_def)
qed

lemma LoadWASMCompressor_plugins:
  assumes "LoadWASMCompressor sort_by_name env root fs = Inr c" and "slice_sort plugin_name sort_by_name"
    and "root \<noteq> []" and "en_Faults env root = None" and "i \<in> set (wc_Plugins c)"
  shows "in_Enabled i \<and> (\<exists>n. inspectPluginDir env (path_Join [root, n]) fs = Inr i)"
proof -
  obtain plugins where p: "ListPlugins sort_by_name env root fs = Inr plugins"
    and c: "c = loaded_compressor (filter in_Enabled plugins)"
    using assms(1) by (auto simp: LoadWASMCompressor_def split: sum.splits)
  have i: "i \<in> set plugins" "in_Enabled i" using assms(5) by (auto simp: c loaded_compressor_def)
  then obtain e where "entry_plugin env root fs e = Some i"
    using ListPlugins_set(2) [OF assms(2) p assms(3,4)] by blast
  then have "inspectPluginDir env (path_Join [root, fst e]) fs = Inr i"
    by (cases "inspectPluginDir env (path_Join [root, fst e]) fs") (auto simp: entry_plugin_def split: if_splits)
  then show ?thesis using i(2) by blast
qed

section \<open>Properties\<close>

text \<open>C23. End to end from the plugin directory to the rewritten block: where a pipeline with the plugins
  of a root changes the text of a block, the block was selected and live, and some plugin directly in
  the root, with a valid manifest that claims the block's type of content and with its enabled marker in
  place, has answered \<open>replace\<close> in the sandbox with this new text, which is valid UTF-8.\<close>

theorem plugin_rewrites_need_enabled_plugin:
  assumes "\<And>xs. mset (sort_by_name xs) = mset xs" and "\<And>xs. sorted (map plugin_name (sort_by_name xs))"
    and "LoadWASMCompressor sort_by_name env root fs = Inr c" and "root \<noteq> []" and "en_Faults env root = None"
    and "pl_compressors p = [as_compressor render (Compress_wasm engine env fs c)]"
    and "i < length bs" and "bl_Text (res_Blocks (Apply T p bs) ! i) \<noteq> bl_Text (bs ! i)"
  shows "bl_Selected (bs ! i) \<and> bl_Stability (bs ! i) = StabilityLive \<and>
    (\<exists>info n wasm input out.
       inspectPluginDir env (path_Join [root, n]) fs = Inr info \<and> ValidateManifest (in_Manifest info) = None \<and>
       bl_ContentType (bs ! i) \<in> set (ca_Compress (mf_Capabilities (in_Manifest info))) \<and>
       os_Stat (en_Faults env) (path_Join [in_Dir info, EnabledFileName]) fs = None \<and>
       RunWASM engine (in_Manifest info) wasm input = Inr out \<and>
       bi_Text (ri_Block input) = bl_Text (bs ! i) \<and> ot_Action out = ''replace'' \<and>
       bl_Text (res_Blocks (Apply T p bs) ! i) = ot_Text out \<and> ValidString (ot_Text out))"
proof -
  define b where "b = bs ! i"
  have ch: "bl_Text (fst (apply_block T p b)) \<noteq> bl_Text b"
    and n: "res_Blocks (Apply T p bs) ! i = fst (apply_block T p b)"
    using assms(7,8) by (simp_all add: Apply_Blocks b_def)
  obtain plugins where c: "c = loaded_compressor plugins"
    using assms(3) by (auto simp: LoadWASMCompressor_def split: sum.splits)
  obtain t pr where "live_zone b" and pr: "as_compressor render (Compress_wasm engine env fs c) b = Inr pr"
    "proposalText pr = Some t" and t: "fst (apply_block T p b) = b\<lparr>bl_Text := t\<rparr>"
    using apply_block_changed [OF ch] assms(6) by (auto elim!: apply_block_applied)
  have "try_plugins (RunWASM engine) (readPluginWASM env fs) c b plugins = Inr pr"
    using pr(1) by (auto simp: as_compressor_def Compress_wasm_def c loaded_compressor_def split: sum.splits)
  from try_plugins_Inr [OF this] pr(2) t ch obtain info wasm out where
    i: "find (\<lambda>i. canPluginCompress i (bl_ContentType b)) plugins = Some info"
    and r: "RunWASM engine (in_Manifest info) wasm (block_run_input c b) = Inr out"
      "ot_Action out = ''replace''" "t = ot_Text out"
    by (auto simp: proposalText_def split: if_splits)
  have "info \<in> set (wc_Plugins c)" using find_mem [OF i] by (simp add: c loaded_compressor_def)
  moreover have "slice_sort plugin_name sort_by_name" using assms(1,2) by (intro slice_sort.intro)
  ultimately obtain n where n': "inspectPluginDir env (path_Join [root, n]) fs = Inr info" "in_Enabled info"
    using LoadWASMCompressor_plugins [OF assms(3)] assms(4,5) by blast
  have "bl_ContentType b \<in> set (ca_Compress (mf_Capabilities (in_Manifest info)))"
    using find_mem [OF i] by (auto simp: canPluginCompress_def list_ex_iff)
  moreover have "bi_Text (ri_Block (block_run_input c b)) = bl_Text b" by (simp add: block_run_input_def)
  moreover have "os_Stat (en_Faults env) (path_Join [in_Dir info, EnabledFileName]) fs = None"
    using inspectPluginDir_Inr [OF n'(1)] n'(2) by simp
  moreover have "bl_Text (b\<lparr>bl_Text := t\<rparr>) = ot_Text out" using r(3) by simp
  moreover note n'(1) r(1,2) RunWASM_text [OF r(1)]
  ultimately show ?thesis
    using \<open>live_zone b\<close> unfolding n t b_def [symmetric] live_zone_def StabilityLive_def by blast
qed

text \<open>An engine whose modules answer \<open>replace\<close> with the text \<open>aa\<close>.\<close>

definition example_answer :: string where
  "example_answer = json_object [(''action'', json_quote ''replace''), (''text'', json_quote ''aa'')]"

definition example_engine :: wasm_engine where
  "example_engine wasm lim = \<lparr>eo_HostError = None, eo_ModuleError = None, eo_HasRun = True, eo_RunError = None,
     eo_Writes = [(length example_answer, Some example_answer)]\<rparr>"

definition enabled_files :: fs where
  "enabled_files = [(''p/abc/enabled'', \<lparr>f_Content = [], f_ModTime = 0\<rparr>),
     (''p/abc/manifest.toml'', \<lparr>f_Content = [], f_ModTime = 0\<rparr>),
     (''p/abc/plugin.wasm'', \<lparr>f_Content = [], f_ModTime = 0\<rparr>)]"

definition enabled_info :: info where
  "enabled_info = \<lparr>in_Manifest = example_manifest, in_Dir = ''p/abc'', in_Enabled = True\<rparr>"

definition plugin_pipeline :: pipeline where
  "plugin_pipeline = demo_pipeline\<lparr>pl_compressors := [as_compressor (\<lambda>_. [])
     (Compress_wasm example_engine example_env enabled_files (loaded_compressor [enabled_info]))]\<rparr>"

lemma example_load:
  "LoadWASMCompressor (sort_key plugin_name) example_env ''p'' enabled_files = Inr (loaded_compressor [enabled_info])"
proof -
  have n: "manifestNameRE ''abc''" by (simp add: go_eval)
  have d: "path_Join [''p'', ''abc''] = ''p/abc''" by (simp add: go_eval)
  have "LoadManifest (\<lambda>_. Inr example_manifest) (Inr []) = Inr example_manifest"
    by (simp add: LoadManifest_def example_valid)
  then have "inspectPluginDir example_env ''p/abc'' enabled_files = Inr enabled_info"
    using directory_plugin [OF n, of "''p''"]
    by (simp add: inspectPluginDir_iff d)
      (simp add: example_env_def enabled_files_def enabled_info_def fs_lookup_def os_Stat_def path_exists_def)
  moreover have "dir_entries ''p'' enabled_files = [(''abc'', True)]"
    by (simp add: dir_entries_def enabled_files_def rel_path_def dir_entry_def dir_prefix_def go_eval
        List.map_filter_simps)
  ultimately have "ListPlugins (sort_key plugin_name) example_env ''p'' enabled_files = Inr [enabled_info]"
    by (simp add: ListPlugins_def os_ReadDir_def d)
      (simp add: example_env_def enabled_files_def fs_lookup_def go_eval)
  then show ?thesis by (simp add: LoadWASMCompressor_def enabled_info_def)
qed

lemma example_output:
  "accept_output 1000 example_answer = Inr (zero_output\<lparr>ot_Action := ''replace'', ot_Text := ''aa''\<rparr>)"
proof -
  have e: "example_answer = ''{'' @ QUOTE # ''action'' @ QUOTE # '':'' @ QUOTE # ''replace'' @ QUOTE # '','' @
      QUOTE # ''text'' @ QUOTE # '':'' @ QUOTE # ''aa'' @ QUOTE # ''}''"
    by (simp add: example_answer_def json_object_def json_quote_def quote_chunk_def bad_chunk_def Let_def go_eval)
  have "first_value scan_init [] example_answer = Some example_answer"
    by (simp add: e go_eval)
  moreover have "decode_struct output_field zero_output example_answer =
      Some (zero_output\<lparr>ot_Action := ''replace'', ot_Text := ''aa''\<rparr>)"
    by (simp add: e output_field_def zero_output_def go_eval)
  moreover have "ValidString example_answer" by (simp add: e ValidString_ascii)
  ultimately show ?thesis
    by (simp add: accept_output_def decode_output_def validatePluginOutput_def plugin_actions_def) (simp add: e)
qed

lemma example_run:
  assumes "length (marshal_input input) \<le> 1000" and "ri_APIVersion input \<noteq> []"
  shows "RunWASM example_engine example_manifest wasm input =
    Inr (zero_output\<lparr>ot_Action := ''replace'', ot_Text := ''aa''\<rparr>)"
proof -
  have "length example_answer \<le> 1000"
    using accept_output_Inr [OF example_output] by simp
  then have "output_write 1000 [] (length example_answer, Some example_answer) = example_answer"
    by (simp add: output_write_def)
  then show ?thesis
    using assms example_output
    by (simp add: RunWASM_def example_valid Let_def example_engine_def) (simp add: example_manifest_def)
qed

lemma example_content_type: "bl_ContentType (demo_block ''tool'') = ''text''"
  by (simp add: demo_block_def newBlock_def classifySource_def ClassifyContent_def Let_def looksLikeDiff_def looksLikeCode_def
      looksLikeLog_def go_eval)

lemma example_input_small: "length (marshal_input (block_run_input (loaded_compressor ps) (demo_block ''tool''))) \<le> 1000"
proof -
  have "block_run_input (loaded_compressor ps) (demo_block ''tool'') =
    \<lparr>ri_APIVersion = ''v1'', ri_RequestID = [], ri_Provider = ''openai'', ri_Model = [], ri_ContentType = ''text'',
     ri_Block = \<lparr>bi_ID = [], bi_Role = ''tool'', bi_Text = ''aa bb cc dd''\<rparr>,
     ri_Metadata = [(''path'', ''$.messages[0].content''), (''source'', ''tool_result''), (''stability'', ''live'')]\<rparr>"
    using example_content_type
    by (simp add: block_run_input_def loaded_compressor_def SupportedAPIVersion_def)
      (simp add: demo_block_def newBlock_def classifySource_def)
  then show ?thesis
    by (simp add: marshal_input_def marshal_block_def json_object_def json_quote_def quote_chunk_def bad_chunk_def
        Let_def go_eval)
qed

lemma plugin_rewrites_need_enabled_plugin_witness:
  "res_Blocks (Apply ascii_tables plugin_pipeline [demo_block ''tool'']) ! 0 = (demo_block ''tool'')\<lparr>bl_Text := ''aa''\<rparr> \<and>
   (\<exists>info n. inspectPluginDir example_env (path_Join [''p'', n]) enabled_files = Inr info \<and>
      ''text'' \<in> set (ca_Compress (mf_Capabilities (in_Manifest info))))"
proof -
  have t: "bl_ContentType (demo_block ''tool'') = ''text''" "bl_Text (demo_block ''tool'') = ''aa bb cc dd''"
    using example_content_type by (simp_all add: demo_block_def)
  have w: "readPluginWASM example_env enabled_files enabled_info = Inr []"
    by (simp add: readPluginWASM_def enabled_info_def WASMFileName_def go_eval)
      (simp add: example_env_def os_ReadFile_def enabled_files_def fs_lookup_def)
  have "canPluginCompress enabled_info ''text''"
    by (simp add: canPluginCompress_def enabled_info_def example_manifest_def)
  moreover have "in_Manifest enabled_info = example_manifest" by (simp add: enabled_info_def)
  moreover have "ri_APIVersion (block_run_input (loaded_compressor [enabled_info]) (demo_block ''tool'')) \<noteq> []"
    by (simp add: block_run_input_def SupportedAPIVersion_def)
  ultimately have "Compress_wasm example_engine example_env enabled_files (loaded_compressor [enabled_info])
      (demo_block ''tool'') = Inr (text_proposal ''aa'')"
    using example_run [OF example_input_small] w
    by (simp add: Compress_wasm_def loaded_compressor_def t zero_output_def)
  then have "\<exists>sv. first_acceptable ascii_tables plugin_pipeline (demo_block ''tool'')
      (pl_compressors plugin_pipeline) = Some (''aa'', sv)"
    using demo_evaluate [of "[as_compressor (\<lambda>_. []) (Compress_wasm example_engine example_env enabled_files
        (loaded_compressor [enabled_info]))]"]
    by (auto simp: plugin_pipeline_def acceptable_def as_compressor_def)
  then have b: "res_Blocks (Apply ascii_tables plugin_pipeline [demo_block ''tool'']) ! 0 =
      (demo_block ''tool'')\<lparr>bl_Text := ''aa''\<rparr>"
    using apply_block_live [OF demo_tool_live, of ascii_tables plugin_pipeline] by (auto simp: Apply_Blocks)
  have p: "pl_compressors plugin_pipeline = [as_compressor (\<lambda>_. [])
      (Compress_wasm example_engine example_env enabled_files (loaded_compressor [enabled_info]))]"
    by (simp add: plugin_pipeline_def)
  have "bl_Text (res_Blocks (Apply ascii_tables plugin_pipeline [demo_block ''tool'']) ! 0) \<noteq>
      bl_Text ([demo_block ''tool''] ! 0)"
    unfolding b by (simp add: t)
  from plugin_rewrites_need_enabled_plugin [OF _ _ example_load _ _ p _ this] b t(1)
  show ?thesis by (auto simp: example_env_def)
qed

end
