(* ===== verification/Go_Flag.thy ===== *)
theory Go_Flag
  imports Go_Strings
begin

text \<open>
  The package \<open>flag\<close> as the commands use it: a set of string and boolean flags with their defaults, and
  \<open>Parse\<close> of the arguments. Parsing stops at the first argument that is no flag, or after \<open>--\<close>; what is
  left over is returned with the values. The usage text that the package prints on an error is not
  modelled, the error is.
\<close>

record flag_set =
  fl_Strings :: "(string \<times> string) list"
  fl_Bools :: "(string \<times> bool) list"

datatype flag_error =
    BadSyntax string
  | NotDefined string
  | NeedsArgument string
  | InvalidBool string string
  | ErrHelp

definition ParseBool :: "string \<Rightarrow> bool option" where
  "ParseBool s =
     (if s \<in> {''1'', ''t'', ''T'', ''TRUE'', ''true'', ''True''} then Some True
      else if s \<in> {''0'', ''f'', ''F'', ''FALSE'', ''false'', ''False''} then Some False
      else None)"

fun set_flag :: "string \<Rightarrow> 'a \<Rightarrow> (string \<times> 'a) list \<Rightarrow> (string \<times> 'a) list" where
  "set_flag k v [] = []"
| "set_flag k v (e # es) = (if fst e = k then (k, v) # es else e # set_flag k v es)"

definition string_flag :: "flag_set \<Rightarrow> string \<Rightarrow> string" where
  "string_flag f k = (case map_of (fl_Strings f) k of None \<Rightarrow> [] | Some v \<Rightarrow> v)"

definition bool_flag :: "flag_set \<Rightarrow> string \<Rightarrow> bool" where
  "bool_flag f k \<longleftrightarrow> map_of (fl_Bools f) k = Some True"

text \<open>The name of a flag and its value after an equals sign, which cannot be the first character.\<close>

definition split_flag :: "string \<Rightarrow> string \<times> string option" where
  "split_flag name =
     (let i = takeWhile (\<lambda>c. c \<noteq> CHR ''='') (tl name); r = dropWhile (\<lambda>c. c \<noteq> CHR ''='') (tl name)
      in (take 1 name @ i, if r = [] then None else Some (tl r)))"

definition flag_name :: "string \<Rightarrow> string" where
  "flag_name s = (if HasPrefix s ''--'' then drop 2 s else drop 1 s)"

text \<open>What one argument is, and what it does to the set given the arguments after it.\<close>

definition flag_step :: "flag_set \<Rightarrow> string \<Rightarrow> string list \<Rightarrow> flag_error + (flag_set \<times> string list)" where
  "flag_step f s rest =
     (if flag_name s = [] \<or> hd (flag_name s) = CHR ''-'' \<or> hd (flag_name s) = CHR ''='' then Inl (BadSyntax s)
      else let (name, v) = split_flag (flag_name s)
        in if map_of (fl_Bools f) name \<noteq> None then
             (case v of
                None \<Rightarrow> Inr (f\<lparr>fl_Bools := set_flag name True (fl_Bools f)\<rparr>, rest)
              | Some x \<Rightarrow>
                  (case ParseBool x of
                     None \<Rightarrow> Inl (InvalidBool x name)
                   | Some b \<Rightarrow> Inr (f\<lparr>fl_Bools := set_flag name b (fl_Bools f)\<rparr>, rest)))
           else if map_of (fl_Strings f) name \<noteq> None then
             (case v of
                Some x \<Rightarrow> Inr (f\<lparr>fl_Strings := set_flag name x (fl_Strings f)\<rparr>, rest)
              | None \<Rightarrow>
                  (case rest of
                     [] \<Rightarrow> Inl (NeedsArgument name)
                   | x # rest' \<Rightarrow> Inr (f\<lparr>fl_Strings := set_flag name x (fl_Strings f)\<rparr>, rest')))
           else if name = ''help'' \<or> name = ''h'' then Inl ErrHelp
           else Inl (NotDefined name))"

lemma flag_step_shorter: "flag_step f s rest = Inr (g, rest') \<Longrightarrow> length rest' \<le> length rest"
  by (auto simp: flag_step_def Let_def split: if_splits option.splits prod.splits list.splits)

function flags_Parse :: "flag_set \<Rightarrow> string list \<Rightarrow> flag_error + (flag_set \<times> string list)" where
  "flags_Parse f [] = Inr (f, [])"
| "flags_Parse f (s # rest) =
     (if length s < 2 \<or> hd s \<noteq> CHR ''-'' then Inr (f, s # rest)
      else if s = ''--'' then Inr (f, rest)
      else case flag_step f s rest of
        Inl err \<Rightarrow> Inl err
      | Inr (g, rest') \<Rightarrow> flags_Parse g rest')"
  by pat_completeness auto
termination
  by (relation "measure (\<lambda>(_, args). length args)") (auto dest: flag_step_shorter)

section \<open>Facts\<close>

text \<open>Parsing keeps the flags that are defined.\<close>

lemma set_flag_keys: "map fst (set_flag k v es) = map fst es"
  by (induction es) auto

lemma flag_step_keys:
  "flag_step f s rest = Inr (g, rest') \<Longrightarrow>
     map fst (fl_Strings g) = map fst (fl_Strings f) \<and> map fst (fl_Bools g) = map fst (fl_Bools f)"
  by (auto simp: flag_step_def Let_def set_flag_keys split: if_splits option.splits prod.splits list.splits)

lemma flags_Parse_keys:
  "flags_Parse f args = Inr (g, rest) \<Longrightarrow>
     map fst (fl_Strings g) = map fst (fl_Strings f) \<and> map fst (fl_Bools g) = map fst (fl_Bools f)"
proof (induction f args arbitrary: g rest rule: flags_Parse.induct)
  case (2 f s rest0)
  then show ?case
    by (fastforce dest: flag_step_keys split: if_splits sum.splits prod.splits)
qed simp

text \<open>Nothing after the first argument that is no flag is looked at.\<close>

lemma flags_Parse_positional: "length s < 2 \<or> hd s \<noteq> CHR ''-'' \<Longrightarrow> flags_Parse f (s # rest) = Inr (f, s # rest)"
  by auto

lemmas flag_eval [go_eval] = ParseBool_def string_flag_def bool_flag_def split_flag_def flag_name_def flag_step_def

end
