(* ===== verification/Install_Config.thy ===== *)
theory Install_Config
  imports Go_Os Go_Url
begin

text \<open>
  What the integrations of \<open>internal/install\<close> share: quoting, reading an optional configuration file,
  writing one, the check of base URLs, and the last part of \<open>ApplyCodexIntegration\<close> and
  \<open>ApplyClaudeIntegration\<close>, which write what was planned. What the environment does to the calls of
  the operating system is the record \<open>install_env\<close>; \<open>ie_Write\<close> keeps a file from being opened for writing,
  \<open>ie_Cut\<close> lets the write fail once some of the bytes are in the file.

  The locale \<open>config_integration\<close> is the contract of an integration; what it promises of the files is
  proved here once.
\<close>

section \<open>Quoting\<close>

text \<open>\<open>strconv.Quote\<close>, which is what the verb \<open>%q\<close> prints of a string.\<close>

definition IsPrint :: "unicode_tables \<Rightarrow> rune \<Rightarrow> bool" where
  "IsPrint T r \<longleftrightarrow> (if r < 128 then 32 \<le> r \<and> r < 127 else print_table T r)"

definition hex_digits :: "nat \<Rightarrow> nat \<Rightarrow> string" where
  "hex_digits n r = map (\<lambda>i. ''0123456789abcdef'' ! (r div 16 ^ (n - 1 - i) mod 16)) [0..<n]"

definition go_quote_chunk :: "unicode_tables \<Rightarrow> rune \<times> string \<Rightarrow> string" where
  "go_quote_chunk T ch =
     (let r = fst ch in
      if bad_chunk ch then BACKSLASH # ''x'' @ hex_digits 2 (byte (hd (snd ch)))
      else if r = 34 \<or> r = 92 then [BACKSLASH, char_of r]
      else if IsPrint T r then snd ch
      else if r = 7 then BACKSLASH # ''a''
      else if r = 8 then BACKSLASH # ''b''
      else if r = 12 then BACKSLASH # ''f''
      else if r = 10 then BACKSLASH # ''n''
      else if r = 13 then BACKSLASH # ''r''
      else if r = 9 then BACKSLASH # ''t''
      else if r = 11 then BACKSLASH # ''v''
      else if r < 32 \<or> r = 127 then BACKSLASH # ''x'' @ hex_digits 2 r
      else if r < 65536 then BACKSLASH # ''u'' @ hex_digits 4 r
      else BACKSLASH # ''U'' @ hex_digits 8 r)"

definition strconv_Quote :: "unicode_tables \<Rightarrow> string \<Rightarrow> string" where
  "strconv_Quote T s = QUOTE # concat (map (go_quote_chunk T) (runes s)) @ [QUOTE]"

section \<open>The environment\<close>

record install_env =
  ie_Read :: fault
  ie_Mkdir :: fault
  ie_Write :: fault
  ie_Cut :: short_write
  ie_Now :: time

datatype install_error =
    PathRequired
  | HomeRequired
  | InvalidBaseURL
  | InvalidScheme string
  | InstallOs os_error
  | UnsupportedAction string
  | SettingsParse

definition readOptionalFile :: "install_env \<Rightarrow> string \<Rightarrow> fs \<Rightarrow> install_error + string" where
  "readOptionalFile env path fs =
     (case os_ReadFile (ie_Read env) path fs of
        Inl err \<Rightarrow> if err = OsNotExist then Inr [] else Inl (InstallOs err)
      | Inr text \<Rightarrow> Inr text)"

text \<open>Creating the directory of a file and writing it, as both integrations do.\<close>

definition write_config :: "install_env \<Rightarrow> string \<Rightarrow> string \<Rightarrow> fs \<Rightarrow> install_error option \<times> fs" where
  "write_config env path text fs =
     (case os_MkdirAll (ie_Mkdir env) (Dir path) fs of
        Some err \<Rightarrow> (Some (InstallOs err), fs)
      | None \<Rightarrow>
          (let (err, fs') = os_WriteFile (ie_Write env) (ie_Cut env) (ie_Now env) path text fs
           in (map_option InstallOs err, fs')))"

text \<open>\<open>validateProxyBaseURL\<close>; \<open>validateBaseURL\<close> of \<open>claude.go\<close> differs from it in the text of its errors.\<close>

definition validateProxyBaseURL :: "string \<Rightarrow> install_error option" where
  "validateProxyBaseURL raw =
     (case url_Parse raw of
        None \<Rightarrow> Some InvalidBaseURL
      | Some parsed \<Rightarrow>
          if u_Scheme parsed = [] \<or> u_Host parsed = [] then Some InvalidBaseURL
          else if u_Scheme parsed \<noteq> ''http'' \<and> u_Scheme parsed \<noteq> ''https'' then Some (InvalidScheme (u_Scheme parsed))
          else None)"

text \<open>The end of a run: nothing is written in a dry run or when nothing changes.\<close>

definition commit_plan ::
  "install_env \<Rightarrow> bool \<Rightarrow> bool \<Rightarrow> string \<Rightarrow> string \<Rightarrow> 'r \<Rightarrow> fs \<Rightarrow> (install_error + 'r) \<times> fs" where
  "commit_plan env dry changed path text result fs =
     (if dry \<or> \<not> changed then (Inr result, fs)
      else (case write_config env path text fs of
              (Some err, fs') \<Rightarrow> (Inl err, fs')
            | (None, fs') \<Rightarrow> (Inr result, fs')))"

section \<open>Facts about the files\<close>

text \<open>A write of a configuration that fails when some of it is in the file.\<close>

definition cut_short :: "install_env \<Rightarrow> string \<Rightarrow> string \<Rightarrow> install_error \<Rightarrow> fs \<Rightarrow> fs \<Rightarrow> bool" where
  "cut_short env path text err fs fs' \<longleftrightarrow>
     (\<exists>n e. ie_Cut env path = Some (n, e) \<and> err = InstallOs e \<and>
        fs' = fs_write path \<lparr>f_Content = take n text, f_ModTime = ie_Now env\<rparr> fs)"

lemma write_config_cases:
  "write_config env path text fs = (None, fs') \<Longrightarrow> fs' = fs_write path \<lparr>f_Content = text, f_ModTime = ie_Now env\<rparr> fs"
  "write_config env path text fs = (Some err, fs') \<Longrightarrow> fs' = fs \<or> cut_short env path text err fs fs'"
  by (auto simp: write_config_def cut_short_def split: option.splits prod.splits dest: os_WriteFile_cases)

lemma commit_plan_uncut:
  assumes "commit_plan env dry changed path text result fs = (Inl err, fs')" and "fs' \<noteq> fs"
  shows "commit_plan (env\<lparr>ie_Cut := Map.empty\<rparr>) dry changed path text result fs =
      (Inr result, fs_write path \<lparr>f_Content = text, f_ModTime = ie_Now env\<rparr> fs)"
    "\<not> dry" "\<exists>n. fs' = fs_write path \<lparr>f_Content = take n text, f_ModTime = ie_Now env\<rparr> fs"
  using assms
  by (auto simp: commit_plan_def write_config_def os_WriteFile_def os_Create_def split: if_splits option.splits prod.splits)

lemma readOptionalFile_uncut [simp]: "readOptionalFile (env\<lparr>ie_Cut := cuts\<rparr>) = readOptionalFile env"
  by (simp add: readOptionalFile_def fun_eq_iff)

lemma read_unfaulted:
  "ie_Read env path = None \<Longrightarrow> readOptionalFile env path fs =
     (case fs_lookup fs path of Some f \<Rightarrow> Inr (f_Content f)
      | None \<Rightarrow> if path_exists fs path then Inl (InstallOs (OsOther ''is a directory'')) else Inr [])"
  by (auto simp: readOptionalFile_def os_ReadFile_def split: option.splits)

lemma commit_plan_cases:
  "commit_plan env dry changed path text result fs = (Inr res, fs') \<Longrightarrow> res = result \<and>
     fs' = (if changed \<and> \<not> dry then fs_write path \<lparr>f_Content = text, f_ModTime = ie_Now env\<rparr> fs else fs)"
  "commit_plan env dry changed path text result fs = (Inl err, fs') \<Longrightarrow>
     fs' = fs \<or> changed \<and> \<not> dry \<and> cut_short env path text err fs fs'"
  by (auto simp: commit_plan_def split: if_splits option.splits prod.splits dest: write_config_cases)

section \<open>The contract of an integration\<close>

text \<open>
  A run without a path is refused; another plans its outcome from the files, without touching them, and
  commits it.
\<close>

locale config_integration =
  fixes run :: "'p \<Rightarrow> install_env \<Rightarrow> fs \<Rightarrow> (install_error + 'r) \<times> fs"
    and outcome :: "'p \<Rightarrow> install_env \<Rightarrow> fs \<Rightarrow> install_error + 'r"
    and path :: "'p \<Rightarrow> string" and dry :: "'p \<Rightarrow> bool"
    and changed :: "'r \<Rightarrow> bool" and preview :: "'r \<Rightarrow> string"
  assumes outcome_uncut: "outcome p (env\<lparr>ie_Cut := cuts\<rparr>) fs = outcome p env fs"
    and run_no_path: "path p = [] \<Longrightarrow> run p env fs = (Inl PathRequired, fs)"
    and run_path: "path p \<noteq> [] \<Longrightarrow> run p env fs =
      (case outcome p env fs of Inl err \<Rightarrow> (Inl err, fs)
       | Inr result \<Rightarrow> commit_plan env (dry p) (changed result) (path p) (preview result) result fs)"
begin

lemma run_Inr:
  assumes "run p env fs = (Inr res, fs')"
  shows "path p \<noteq> []" "outcome p env fs = Inr res"
    "fs' = (if changed res \<and> \<not> dry p then fs_write (path p) \<lparr>f_Content = preview res, f_ModTime = ie_Now env\<rparr> fs else fs)"
proof -
  show p: "path p \<noteq> []" using assms run_no_path [of p env fs] by auto
  obtain r where r: "outcome p env fs = Inr r"
    using assms run_path [OF p, of env fs] by (cases "outcome p env fs") auto
  then have c: "commit_plan env (dry p) (changed r) (path p) (preview r) r fs = (Inr res, fs')"
    using assms run_path [OF p, of env fs] by simp
  from commit_plan_cases(1) [OF this] show "outcome p env fs = Inr res"
    "fs' = (if changed res \<and> \<not> dry p then fs_write (path p) \<lparr>f_Content = preview res, f_ModTime = ie_Now env\<rparr> fs else fs)"
    using r by simp_all
qed

text \<open>A run that fails changes something only when the write itself fails on the way.\<close>

lemma run_Inl:
  assumes "run p env fs = (Inl err, fs')"
  shows "fs' = fs \<or> \<not> dry p \<and> (\<exists>res. outcome p env fs = Inr res \<and> changed res \<and> cut_short env (path p) (preview res) err fs fs')"
proof (cases "path p = []")
  case True
  then show ?thesis using assms by (simp add: run_no_path)
next
  case False
  show ?thesis
  proof (cases "outcome p env fs")
    case (Inl e)
    then show ?thesis using assms run_path [OF False, of env fs] by simp
  next
    case (Inr res)
    then have "commit_plan env (dry p) (changed res) (path p) (preview res) res fs = (Inl err, fs')"
      using assms run_path [OF False, of env fs] by simp
    from commit_plan_cases(2) [OF this] show ?thesis using Inr by blast
  qed
qed

lemma other_files: "run p env fs = (r, fs') \<Longrightarrow> q \<noteq> path p \<Longrightarrow> fs_lookup fs' q = fs_lookup fs q"
  by (cases r) (auto dest!: run_Inl run_Inr(3) simp: cut_short_def split: if_splits)

text \<open>What such a run leaves is the beginning of what it would have written with no fault in the write.\<close>

lemma run_uncut:
  assumes "run p env fs = (Inl err, fs')" and "fs' \<noteq> fs"
  obtains n res where "run p (env\<lparr>ie_Cut := Map.empty\<rparr>) fs =
      (Inr res, fs_write (path p) \<lparr>f_Content = preview res, f_ModTime = ie_Now env\<rparr> fs)"
    "fs' = fs_write (path p) \<lparr>f_Content = take n (preview res), f_ModTime = ie_Now env\<rparr> fs" "\<not> dry p"
proof -
  have p: "path p \<noteq> []" using assms run_no_path [of p env fs] by auto
  obtain res where r: "outcome p env fs = Inr res"
    using assms run_path [OF p, of env fs] by (cases "outcome p env fs") auto
  then have "commit_plan env (dry p) (changed res) (path p) (preview res) res fs = (Inl err, fs')"
    using assms run_path [OF p, of env fs] by simp
  note c = commit_plan_uncut [OF this assms(2)]
  show thesis
    using c(3) that [of res] c(1,2) run_path [OF p, of "env\<lparr>ie_Cut := Map.empty\<rparr>" fs] by (auto simp: outcome_uncut r)
qed

text \<open>
  The promise: no file but the configuration is touched. A run that succeeds leaves the planned text in it, or
  what was there when nothing is to change or the run is dry; a run that fails leaves what was there, or, when
  the write itself has failed, the beginning of the planned text.
\<close>

lemma writes_only_its_file:
  "case run p env fs of (r, fs') \<Rightarrow>
     list_all (\<lambda>q. q = path p \<or> fs_lookup fs' q = fs_lookup fs q) paths \<and>
     (case r of
        Inl err \<Rightarrow> fs' = fs \<or>
          (\<not> dry p \<and> (\<exists>n e res. ie_Cut env (path p) = Some (n, e) \<and> err = InstallOs e \<and>
             outcome p env fs = Inr res \<and> changed res \<and>
             map_option f_Content (fs_lookup fs' (path p)) = Some (take n (preview res))))
      | Inr res \<Rightarrow> if changed res \<and> \<not> dry p
          then map_option f_Content (fs_lookup fs' (path p)) = Some (preview res) else fs' = fs)"
proof -
  obtain r fs' where a: "run p env fs = (r, fs')" by (metis prod.exhaust)
  have "case r of
        Inl err \<Rightarrow> fs' = fs \<or>
          (\<not> dry p \<and> (\<exists>n e res. ie_Cut env (path p) = Some (n, e) \<and> err = InstallOs e \<and>
             outcome p env fs = Inr res \<and> changed res \<and>
             map_option f_Content (fs_lookup fs' (path p)) = Some (take n (preview res))))
      | Inr res \<Rightarrow> if changed res \<and> \<not> dry p
          then map_option f_Content (fs_lookup fs' (path p)) = Some (preview res) else fs' = fs"
  proof (cases r)
    case (Inl err)
    then show ?thesis using run_Inl [OF a [unfolded Inl]] by (auto simp: cut_short_def)
  next
    case (Inr res)
    then show ?thesis using run_Inr(3) [OF a [unfolded Inr]] by simp
  qed
  then show ?thesis using other_files [OF a] by (auto simp: a list_all_iff)
qed

lemma read_after_run:
  assumes "run p env fs = (Inr res, fs')" and "changed res" and "\<not> dry p" and "ie_Read env' (path p) = None"
  shows "readOptionalFile env' (path p) fs' = Inr (preview res)"
  using run_Inr(3) [OF assms(1)] assms(2,3) by (simp add: read_unfaulted [of env', OF assms(4)])

lemma run_unchanged:
  "path p \<noteq> [] \<Longrightarrow> outcome p env fs = Inr res \<Longrightarrow> \<not> changed res \<Longrightarrow> run p env fs = (Inr res, fs)"
  by (simp add: run_path commit_plan_def)

end

end
