(* ===== verification/Go_Json_Value.thy ===== *)
theory Go_Json_Value
  imports Go_Json_Decode "HOL-Library.List_Lexorder" "HOL-Library.Char_ord"
begin

text \<open>
  \<open>json.Unmarshal\<close> into a value of type \<open>any\<close> and \<open>json.MarshalIndent\<close> of it. A map is the list of its
  entries in the order of their keys, which is the order of the encoder; a number is a \<open>float64\<close>,
  kept as a sign, a mantissa and an exponent of two.
\<close>

section \<open>Floating point numbers\<close>

text \<open>\<open>m * 2 ^ e\<close>, with 53 bits of mantissa or, near zero, the least exponent.\<close>

record float64 =
  fl_Neg :: bool
  fl_Mant :: nat
  fl_Exp :: int

fun bit_length :: "nat \<Rightarrow> nat" where
  "bit_length n = (if n = 0 then 0 else Suc (bit_length (n div 2)))"

declare bit_length.simps [simp del]

definition round_half_even :: "nat \<Rightarrow> nat \<Rightarrow> nat" where
  "round_half_even n d =
     (let q = n div d; r = n mod d
      in if 2 * r > d \<or> 2 * r = d \<and> odd q then Suc q else q)"

text \<open>\<open>n / d * 2 ^ (- e)\<close> as a fraction.\<close>

definition scaled :: "nat \<Rightarrow> nat \<Rightarrow> int \<Rightarrow> nat \<times> nat" where
  "scaled n d e = (n * 2 ^ nat (- e), d * 2 ^ nat e)"

definition round_at :: "nat \<Rightarrow> nat \<Rightarrow> int \<Rightarrow> nat \<times> int" where
  "round_at n d e =
     (let m = (case scaled n d e of (n', d') \<Rightarrow> round_half_even n' d')
      in if m = 2 ^ 53 then (2 ^ 52, e + 1) else (m, e))"

text \<open>The float nearest to a positive fraction, to even in a tie.\<close>

definition nearest_float :: "nat \<Rightarrow> nat \<Rightarrow> nat \<times> int" where
  "nearest_float n d =
     (let e0 = int (bit_length n) - int (bit_length d) - 53;
          e1 = (case scaled n d e0 of (n', d') \<Rightarrow> if 2 ^ 53 * d' \<le> n' then e0 + 1 else e0)
      in round_at n d (max e1 (- 1074)))"

text \<open>The fraction \<open>c * 10 ^ k\<close>.\<close>

definition decimal_ratio :: "nat \<Rightarrow> int \<Rightarrow> nat \<times> nat" where
  "decimal_ratio c k = (c * 10 ^ nat k, 10 ^ nat (- k))"

definition float_of_decimal :: "nat \<Rightarrow> int \<Rightarrow> nat \<times> int" where
  "float_of_decimal c k = (if c = 0 then (0, - 1074) else case decimal_ratio c k of (n, d) \<Rightarrow> nearest_float n d)"

text \<open>A number literal: sign, digits with the point taken out, and the power of ten they stand for.\<close>

definition read_decimal :: "string \<Rightarrow> bool \<times> nat \<times> int" where
  "read_decimal raw =
     (let s = (if HasPrefix raw ''-'' then tl raw else raw);
          i = takeWhile is_digit s; s1 = dropWhile is_digit s;
          f = (if HasPrefix s1 ''.'' then takeWhile is_digit (tl s1) else []);
          s2 = (if HasPrefix s1 ''.'' then dropWhile is_digit (tl s1) else s1);
          e = (if s2 = [] then 0 else read_exponent (tl s2))
      in (HasPrefix raw ''-'', dec_val (i @ f), e - int (length f)))"

text \<open>\<open>strconv.ParseFloat\<close>, which fails on a number out of range.\<close>

definition ParseFloat :: "string \<Rightarrow> float64 option" where
  "ParseFloat raw =
     (if \<not> float_in_range raw then None
      else case read_decimal raw of
        (neg, c, k) \<Rightarrow> (case float_of_decimal c k of (m, e) \<Rightarrow> Some \<lparr>fl_Neg = neg, fl_Mant = m, fl_Exp = e\<rparr>))"

subsection \<open>Shortest decimals\<close>

definition float_ratio :: "nat \<times> int \<Rightarrow> nat \<times> nat" where
  "float_ratio me = (fst me * 2 ^ nat (snd me), 2 ^ nat (- snd me))"

fun count_digits :: "nat \<Rightarrow> nat" where
  "count_digits n = (if n < 10 then 1 else Suc (count_digits (n div 10)))"

declare count_digits.simps [simp del]

text \<open>The least \<open>k\<close> with \<open>n / d < 10 ^ k\<close>; for a fraction below one it is not positive.\<close>

fun zeros_after_point :: "nat \<Rightarrow> nat \<Rightarrow> nat \<Rightarrow> nat" where
  "zeros_after_point 0 n d = 0"
| "zeros_after_point (Suc fuel) n d = (if d \<le> n * 10 then 0 else Suc (zeros_after_point fuel (n * 10) d))"

definition decimal_exponent :: "nat \<Rightarrow> nat \<Rightarrow> int" where
  "decimal_exponent n d = (if d \<le> n then int (count_digits (n div d)) else - int (zeros_after_point 400 n d))"

text \<open>
  The decimal of so many digits that is read as the float again: of the two around it the nearer one, of two
  equally near the even one.
\<close>

definition digits_candidate :: "nat \<times> int \<Rightarrow> nat \<Rightarrow> (nat \<times> int) option" where
  "digits_candidate me p =
     (case float_ratio me of (n, d) \<Rightarrow>
        (let k = decimal_exponent n d - int p;
             num = n * 10 ^ nat (- k); den = d * 10 ^ nat k;
             lo = num div den; hi = Suc lo; r = num mod den;
             lo_ok = (lo \<noteq> 0 \<and> float_of_decimal lo k = me); hi_ok = (float_of_decimal hi k = me)
         in if lo_ok \<and> (\<not> hi_ok \<or> 2 * r < den \<or> 2 * r = den \<and> even lo) then Some (lo, k)
            else if hi_ok then Some (hi, k)
            else None))"

fun shortest_from :: "nat \<times> int \<Rightarrow> nat \<Rightarrow> nat \<Rightarrow> nat \<times> int" where
  "shortest_from me p 0 = (0, 0)"
| "shortest_from me p (Suc fuel) =
     (case digits_candidate me p of Some ck \<Rightarrow> ck | None \<Rightarrow> shortest_from me (Suc p) fuel)"

text \<open>17 digits are enough for every float.\<close>

definition shortest :: "nat \<times> int \<Rightarrow> nat \<times> int" where
  "shortest me = shortest_from me 1 17"

definition strip_zeros :: "string \<Rightarrow> string" where
  "strip_zeros s = rev (dropWhile (\<lambda>c. c = CHR ''0'') (rev s))"

definition zeros :: "nat \<Rightarrow> string" where
  "zeros n = replicate n (CHR ''0'')"

text \<open>The verb \<open>f\<close> of \<open>strconv.FormatFloat\<close>: digits \<open>ds\<close> with the point after the first \<open>dp\<close> of them.\<close>

definition format_f :: "string \<Rightarrow> int \<Rightarrow> string" where
  "format_f ds dp =
     (if dp \<le> 0 then ''0.'' @ zeros (nat (- dp)) @ ds
      else if int (length ds) \<le> dp then ds @ zeros (nat dp - length ds)
      else take (nat dp) ds @ ''.'' @ drop (nat dp) ds)"

text \<open>The verb \<open>e\<close>, with the leading zero of a negative exponent taken out as the encoder does.\<close>

definition format_e :: "string \<Rightarrow> int \<Rightarrow> string" where
  "format_e ds dp =
     take 1 ds @ (if length ds = 1 then [] else ''.'' @ drop 1 ds) @ ''e'' @
     (if dp - 1 < 0 then ''-'' else ''+'') @ Itoa \<bar>dp - 1\<bar>"

definition ratio_less :: "nat \<times> nat \<Rightarrow> nat \<times> nat \<Rightarrow> bool" where
  "ratio_less p q \<longleftrightarrow> fst p * snd q < fst q * snd p"

text \<open>\<open>floatEncoder\<close>: the verb \<open>e\<close> below the float nearest to a millionth and from \<open>10 ^ 21\<close> on.\<close>

definition float_text :: "float64 \<Rightarrow> string" where
  "float_text x =
     (let sign = (if fl_Neg x then ''-'' else [])
      in if fl_Mant x = 0 then sign @ ''0''
         else case shortest (fl_Mant x, fl_Exp x) of (c, k) \<Rightarrow>
           (let s = Itoa (int c); ds = strip_zeros s; dp = k + int (length s);
                v = float_ratio (fl_Mant x, fl_Exp x)
            in if ratio_less v (float_ratio (float_of_decimal 1 (- 6))) \<or> \<not> ratio_less v (10 ^ 21, 1) then sign @ format_e ds dp else sign @ format_f ds dp))"

section \<open>Maps\<close>

fun map_put :: "string \<Rightarrow> 'a \<Rightarrow> (string \<times> 'a) list \<Rightarrow> (string \<times> 'a) list" where
  "map_put k x [] = [(k, x)]"
| "map_put k x (kv # kvs) =
     (if k < fst kv then (k, x) # kv # kvs else if k = fst kv then (k, x) # kvs else kv # map_put k x kvs)"

definition map_delete :: "string \<Rightarrow> (string \<times> 'a) list \<Rightarrow> (string \<times> 'a) list" where
  "map_delete k kvs = [kv \<leftarrow> kvs. fst kv \<noteq> k]"

definition ordered_map :: "(string \<times> 'a) list \<Rightarrow> bool" where
  "ordered_map kvs \<longleftrightarrow> sorted_wrt (<) (map fst kvs)"

lemma map_of_put: "map_of (map_put k x kvs) = (map_of kvs)(k \<mapsto> x)" if "ordered_map kvs"
  using that by (induction kvs) (auto simp: ordered_map_def fun_eq_iff)

lemma map_put_keys: "fst ` set (map_put k x kvs) = insert k (fst ` set kvs)"
  by (induction kvs) auto

lemma ordered_map_put [simp]: "ordered_map kvs \<Longrightarrow> ordered_map (map_put k x kvs)"
proof (induction kvs)
  case (Cons kv kvs)
  then show ?case using map_put_keys [of k x kvs]
    by (auto simp: ordered_map_def)
qed (simp add: ordered_map_def)

lemma ordered_map_delete [simp]: "ordered_map kvs \<Longrightarrow> ordered_map (map_delete k kvs)"
  by (simp add: ordered_map_def map_delete_def sorted_wrt_map sorted_wrt_filter)

lemma map_of_delete: "map_of (map_delete k kvs) = (map_of kvs)(k := None)"
  by (induction kvs) (auto simp: map_delete_def fun_eq_iff)

text \<open>Two maps with the same entries are the same list.\<close>

lemma ordered_map_eqI: "ordered_map xs \<Longrightarrow> ordered_map ys \<Longrightarrow> map_of xs = map_of ys \<Longrightarrow> xs = ys"
proof (induction xs arbitrary: ys)
  case Nil
  then show ?case by (cases ys) (auto simp: fun_eq_iff split: if_splits)
next
  case (Cons x xs)
  then obtain y ys' where ys: "ys = y # ys'" by (cases ys) (auto simp: fun_eq_iff split: if_splits)
  have least: "map_of (z # zs) k = Some v \<Longrightarrow> ordered_map (z # zs) \<Longrightarrow> fst z \<le> k" for z :: "string \<times> 'a" and zs k v
    by (auto simp: ordered_map_def less_imp_le dest!: map_of_SomeD split: if_splits)
  have e: "map_of (x # xs) = map_of (y # ys')" using Cons.prems(3) unfolding ys .
  have "map_of (y # ys') (fst x) = Some (snd x)" unfolding e [symmetric] by simp
  then have "fst y \<le> fst x" using Cons.prems(2) unfolding ys by (rule least)
  moreover have "map_of (x # xs) (fst y) = Some (snd y)" unfolding e by simp
  then have "fst x \<le> fst y" using Cons.prems(1) by (rule least)
  ultimately have k: "fst x = fst y" by simp
  then have "x = y" using fun_cong [OF Cons.prems(3), of "fst x"] by (simp add: ys prod_eq_iff)
  have none: "map_of zs (fst z) = None" if "ordered_map (z # zs)" for z :: "string \<times> 'a" and zs
    using that by (auto simp: ordered_map_def map_of_eq_None_iff)
  have "map_of xs j = map_of ys' j" for j
    using fun_cong [OF Cons.prems(3), of j] none [OF Cons.prems(1)] none [of y ys'] Cons.prems(2) k
    by (cases "j = fst x") (auto simp: ys)
  then show ?case using Cons \<open>x = y\<close> by (simp add: ys ordered_map_def fun_eq_iff)
qed

lemma map_delete_fresh: "map_of kvs k = None \<Longrightarrow> map_delete k kvs = kvs"
  by (induction kvs) (auto simp: map_delete_def split: if_splits)

lemma map_delete_put [simp]: "ordered_map kvs \<Longrightarrow> map_delete k (map_put k x kvs) = map_delete k kvs"
  by (rule ordered_map_eqI) (simp_all add: map_of_put map_of_delete)

lemma map_put_same [simp]: "ordered_map kvs \<Longrightarrow> map_put k x (map_put k y kvs) = map_put k x kvs"
  by (rule ordered_map_eqI) (simp_all add: map_of_put)

lemma map_put_swap: "ordered_map kvs \<Longrightarrow> k \<noteq> j \<Longrightarrow> map_put k x (map_put j y kvs) = map_put j y (map_put k x kvs)"
  by (rule ordered_map_eqI) (auto simp: map_of_put fun_upd_twist)

lemma map_put_present: "ordered_map kvs \<Longrightarrow> map_of kvs k = Some x \<Longrightarrow> map_put k x kvs = kvs"
  by (rule ordered_map_eqI) (auto simp: map_of_put)

lemma map_put_delete: "ordered_map kvs \<Longrightarrow> map_of kvs k = Some x \<Longrightarrow> map_put k x (map_delete k kvs) = kvs"
  by (rule ordered_map_eqI) (auto simp: map_of_put map_of_delete)

section \<open>Values\<close>

text \<open>\<open>JInt\<close> is an integer of a struct that is encoded; decoding into a value of type \<open>any\<close> never gives one.\<close>

datatype json =
    JNull
  | JBool bool
  | JNumber float64
  | JInt int
  | JString string
  | JArray "json list"
  | JObject "(string \<times> json) list"

text \<open>A value whose maps are in order, at every depth.\<close>

fun ordered_json :: "json \<Rightarrow> bool" where
  "ordered_json (JArray vs) = list_all ordered_json vs"
| "ordered_json (JObject kvs) = (ordered_map kvs \<and> list_all (\<lambda>kv. ordered_json (snd kv)) kvs)"
| "ordered_json v = True"

text \<open>\<open>json.MarshalIndent\<close> with two spaces, at a depth.\<close>

definition json_newline :: "nat \<Rightarrow> string" where
  "json_newline d = NL # replicate (2 * d) (CHR '' '')"

fun json_indent :: "nat \<Rightarrow> json \<Rightarrow> string" where
  "json_indent d JNull = ''null''"
| "json_indent d (JBool b) = (if b then ''true'' else ''false'')"
| "json_indent d (JNumber x) = float_text x"
| "json_indent d (JInt i) = Itoa i"
| "json_indent d (JString s) = json_quote s"
| "json_indent d (JArray vs) =
     (if vs = [] then ''[]''
      else ''['' @ Join (map (\<lambda>v. json_newline (Suc d) @ json_indent (Suc d) v) vs) '','' @ json_newline d @ '']'')"
| "json_indent d (JObject kvs) =
     (if kvs = [] then ''{}''
      else ''{'' @ Join (map (\<lambda>kv. json_newline (Suc d) @ json_quote (fst kv) @ '': '' @ json_indent (Suc d) (snd kv)) kvs) '',''
           @ json_newline d @ ''}'')"

subsection \<open>Decoding\<close>

definition decode_literal :: "string \<Rightarrow> json option" where
  "decode_literal raw =
     (let s = json_trim raw
      in if HasPrefix s ''t'' then Some (JBool True)
         else if HasPrefix s ''f'' then Some (JBool False)
         else map_option JNumber (ParseFloat s))"

text \<open>The members of an array or object are shorter than its text.\<close>

lemma prepend_length:
  "list_all (\<lambda>x. length x \<le> n) xs \<Longrightarrow> length p + n \<le> m \<Longrightarrow> list_all (\<lambda>x. length x \<le> m) (prepend p xs)"
  by (cases xs) (auto simp: list_all_iff)

lemma split_top_length: "list_all (\<lambda>x. length x \<le> length s) (split_top sep d q s)"
proof (induction sep d q s rule: split_top.induct)
  case (3 sep d c e cs)
  then show ?case by (cases "c = BACKSLASH") (simp_all add: prepend_length)
next
  case (4 sep d c cs)
  let ?n = "length (c # cs)"
  have p: "list_all (\<lambda>x. length x \<le> ?n) (prepend [c] xs)" if "list_all (\<lambda>x. length x \<le> length cs) xs" for xs
    using that by (rule prepend_length) simp
  consider (quote) "c = QUOTE" | (sep) "c \<noteq> QUOTE" "c = sep \<and> d = 0"
    | (obr) "c \<noteq> QUOTE" "\<not> (c = sep \<and> d = 0)" "c = CHR ''['' \<or> c = CHR ''{''"
    | (cbr) "c \<noteq> QUOTE" "\<not> (c = sep \<and> d = 0)" "\<not> (c = CHR ''['' \<or> c = CHR ''{'')" "c = CHR '']'' \<or> c = CHR ''}''"
    | (plain) "c \<noteq> QUOTE" "\<not> (c = sep \<and> d = 0)" "\<not> (c = CHR ''['' \<or> c = CHR ''{'')" "\<not> (c = CHR '']'' \<or> c = CHR ''}'')"
    by blast
  then show ?case
  proof cases
    case quote
    then show ?thesis using p [OF 4(1)] by simp
  next
    case sep
    then have "list_all (\<lambda>x. length x \<le> ?n) (split_top sep 0 False cs)"
      using 4(2) by (simp add: list_all_iff le_SucI)
    then show ?thesis using sep by simp
  next
    case obr
    then show ?thesis using p [OF 4(3) [OF obr]] by (simp only: split_top.simps if_False if_True)
  next
    case cbr
    then show ?thesis using p [OF 4(4) [OF cbr]] by (simp only: split_top.simps if_False if_True)
  next
    case plain
    then show ?thesis using p [OF 4(5) [OF plain]] by (simp only: split_top.simps if_False if_True)
  qed
qed simp_all

lemma json_trim_length: "length (json_trim s) \<le> length s"
proof -
  have "length (dropWhile json_space (rev (dropWhile json_space s))) \<le> length (rev (dropWhile json_space s))"
    by (rule length_dropWhile_le)
  also have "\<dots> \<le> length s" by (simp add: length_dropWhile_le)
  finally show ?thesis by (simp add: json_trim_def)
qed

lemma inner_length: "s \<noteq> [] \<Longrightarrow> length (inner s) < length s"
  by (cases s) (simp_all add: inner_def)

lemma split_top_trim_length: "x \<in> set (split_top sep d q s) \<Longrightarrow> length (json_trim x) \<le> length s"
  using split_top_length [of s sep d q] json_trim_length [of x] le_trans by (auto simp: list_all_iff)

lemma members_length: "x \<in> set (members body) \<Longrightarrow> length x \<le> length body"
  by (auto simp: members_def split_top_trim_length split: if_splits)

lemma key_value_length: "length (snd (key_value s)) \<le> length s"
proof (cases "split_top (CHR '':'') 0 False s")
  case (Cons k ks)
  then show ?thesis
    using split_top_trim_length [of _ "CHR '':''" 0 False s] by (cases ks) (simp_all add: key_value_def)
qed (simp add: key_value_def)

lemma shape_of_members:
  "shape_of raw = ShArray raws \<Longrightarrow> json_trim raw \<noteq> [] \<and> raws = members (inner (json_trim raw))"
  "shape_of raw = ShObject kvs \<Longrightarrow> json_trim raw \<noteq> [] \<and> kvs = map key_value (members (inner (json_trim raw)))"
  by (auto simp: shape_of_def Let_def split: if_splits option.splits)

lemma inner_trim_length: "json_trim raw \<noteq> [] \<Longrightarrow> length (inner (json_trim raw)) < length raw"
  using inner_length [of "json_trim raw"] json_trim_length [of raw] by simp

lemma shape_array_length: "shape_of raw = ShArray raws \<Longrightarrow> x \<in> set raws \<Longrightarrow> length x < length raw"
  using members_length [of x] inner_trim_length [of raw] shape_of_members(1) [of raw raws] by fastforce

lemma shape_object_length: "shape_of raw = ShObject kvs \<Longrightarrow> kv \<in> set kvs \<Longrightarrow> length (snd kv) < length raw"
proof -
  assume s: "shape_of raw = ShObject kvs" and "kv \<in> set kvs"
  then obtain x where x: "kv = key_value x" "x \<in> set (members (inner (json_trim raw)))"
    using shape_of_members(2) [OF s] by auto
  have "length (snd kv) \<le> length x" by (simp add: x(1) key_value_length)
  then show ?thesis
    using members_length [OF x(2)] inner_trim_length [of raw] shape_of_members(2) [OF s] by simp
qed

text \<open>A value of type \<open>any\<close>; of the entries with one key the last one stays.\<close>

definition put_entries :: "(string \<times> 'a) list \<Rightarrow> (string \<times> 'a) list" where
  "put_entries kvs = foldl (\<lambda>m kv. map_put (fst kv) (snd kv) m) [] kvs"

function decode_any :: "string \<Rightarrow> json option" where
  "decode_any raw =
     (case shape_of raw of
        ShNull \<Rightarrow> Some JNull
      | ShString t \<Rightarrow> Some (JString t)
      | ShArray raws \<Rightarrow> map_option JArray (those (map decode_any raws))
      | ShObject kvs \<Rightarrow>
          map_option (\<lambda>vs. JObject (put_entries (zip (map fst kvs) vs))) (those (map (\<lambda>kv. decode_any (snd kv)) kvs))
      | ShOther \<Rightarrow> decode_literal raw)"
  by pat_completeness auto
termination
  by (relation "measure length") (simp_all add: shape_array_length shape_object_length)

declare decode_any.simps [simp del]

text \<open>\<open>json.Unmarshal\<close> into a fresh map: null gives the nil map, which is \<open>None\<close> inside.\<close>

definition Unmarshal_map :: "string \<Rightarrow> (string \<times> json) list option option" where
  "Unmarshal_map data =
     (if \<not> json_Valid data then None
      else case decode_any data of
        Some (JObject kvs) \<Rightarrow> Some (Some kvs)
      | Some JNull \<Rightarrow> Some None
      | _ \<Rightarrow> None)"

lemma ordered_put_entries: "ordered_map (put_entries kvs)"
proof -
  have "ordered_map m \<Longrightarrow> ordered_map (foldl (\<lambda>m kv. map_put (fst kv) (snd kv) m) m kvs)" for m
    by (induction kvs arbitrary: m) simp_all
  then show ?thesis by (simp add: put_entries_def ordered_map_def)
qed

lemma those_Some_set: "those xs = Some ys \<Longrightarrow> y \<in> set ys \<Longrightarrow> Some y \<in> set xs"
  by (induction xs arbitrary: ys) (auto split: option.splits)

lemma put_entries_set: "set (put_entries kvs) \<subseteq> set kvs"
proof -
  have "set (map_put k x m) \<subseteq> insert (k, x) (set m)" for k and x :: 'a and m
    by (induction m) auto
  then have "set (foldl (\<lambda>m kv. map_put (fst kv) (snd kv) m) m kvs) \<subseteq> set m \<union> set kvs" for m
    by (induction kvs arbitrary: m) fastforce+
  then show ?thesis by (fastforce simp: put_entries_def)
qed

lemma decode_any_ordered: "decode_any raw = Some v \<Longrightarrow> ordered_json v"
proof (induction raw arbitrary: v rule: decode_any.induct)
  case (1 raw)
  show ?case
  proof (cases "shape_of raw")
    case (ShArray raws)
    then obtain vs where "those (map decode_any raws) = Some vs" "v = JArray vs"
      using 1(3) by (auto simp: decode_any.simps [of raw])
    then show ?thesis
      using those_Some_set 1(1) [OF ShArray] by (fastforce simp: list_all_iff)
  next
    case (ShObject kvs)
    then obtain vs where vs: "those (map (\<lambda>kv. decode_any (snd kv)) kvs) = Some vs"
      "v = JObject (put_entries (zip (map fst kvs) vs))"
      using 1(3) by (auto simp: decode_any.simps [of raw])
    have "ordered_json x" if "x \<in> set vs" for x
      using those_Some_set [OF vs(1) that] 1(2) [OF ShObject] by auto
    moreover have "snd kv \<in> set vs" if "kv \<in> set (put_entries (zip (map fst kvs) vs))" for kv
    proof -
      have "(fst kv, snd kv) \<in> set (zip (map fst kvs) vs)"
        using that put_entries_set [of "zip (map fst kvs) vs"] by auto
      then show ?thesis by (rule set_zip_rightD)
    qed
    ultimately show ?thesis by (auto simp: vs(2) ordered_put_entries list_all_iff)
  qed (use 1(3) in \<open>auto simp: decode_any.simps [of raw] decode_literal_def Let_def split: if_splits\<close>)
qed

end
