(* ===== verification/Install_Claude.thy ===== *)
theory Install_Claude
  imports Install_Config Go_Json_Value
begin

text \<open>
  \<open>internal/install/claude.go\<close>: the settings of Claude, a JSON object in which the integration sets the
  environment variable \<open>ANTHROPIC_BASE_URL\<close> and keeps what it set under the key \<open>cachy\<close>. The clone of the
  settings and the child maps that the code updates in place are values here: each update returns the map it is in.
\<close>

definition defaultClaudeAnthropicBaseURL :: string where
  "defaultClaudeAnthropicBaseURL = ''http://127.0.0.1:8787''"
definition ClaudeInstall :: string where "ClaudeInstall = ''install''"
definition ClaudeRepair :: string where "ClaudeRepair = ''repair''"
definition ClaudeUninstall :: string where "ClaudeUninstall = ''uninstall''"

record claude_options =
  cl_Action :: string
  cl_SettingsPath :: string
  cl_AnthropicBaseURL :: string
  cl_DryRun :: bool

record claude_result =
  cr_Action :: string
  cr_DryRun :: bool
  cr_Changed :: bool
  cr_Path :: string
  cr_Preview :: string
  cr_Message :: string

type_synonym settings = "(string \<times> json) list"

definition DefaultClaudeSettingsPath :: "string \<Rightarrow> string \<Rightarrow> install_error + string" where
  "DefaultClaudeSettingsPath homeDir claudeHome =
     (if claudeHome \<noteq> [] then Inr (path_Join [claudeHome, ''settings.json''])
      else if homeDir = [] then Inl HomeRequired
      else Inr (path_Join [homeDir, ''.claude'', ''settings.json'']))"

definition validateBaseURL :: "string \<Rightarrow> install_error option" where
  "validateBaseURL raw =
     (case url_Parse raw of
        None \<Rightarrow> Some InvalidBaseURL
      | Some parsed \<Rightarrow>
          if u_Scheme parsed = [] \<or> u_Host parsed = [] then Some InvalidBaseURL
          else if u_Scheme parsed \<noteq> ''http'' \<and> u_Scheme parsed \<noteq> ''https'' then Some (InvalidScheme (u_Scheme parsed))
          else None)"

definition parseJSONMap :: "string \<Rightarrow> install_error + settings" where
  "parseJSONMap text =
     (if text = [] then Inr []
      else case Unmarshal_map text of
        None \<Rightarrow> Inl SettingsParse
      | Some None \<Rightarrow> Inr []
      | Some (Some kvs) \<Rightarrow> Inr kvs)"

text \<open>The map under a key, an empty one when there is none, and the parent that then holds it.\<close>

definition childMap :: "settings \<Rightarrow> string \<Rightarrow> settings \<times> settings" where
  "childMap parent key =
     (case map_of parent key of
        Some (JObject child) \<Rightarrow> (child, parent)
      | _ \<Rightarrow> ([], map_put key (JObject []) parent))"

fun clone_value :: "json \<Rightarrow> json" where
  "clone_value (JObject kvs) = JObject (map (\<lambda>kv. (fst kv, clone_value (snd kv))) kvs)"
| "clone_value v = v"

definition cloneJSONMap :: "settings \<Rightarrow> settings" where
  "cloneJSONMap kvs = map (\<lambda>kv. (fst kv, clone_value (snd kv))) kvs"

definition marshalSettings :: "settings \<Rightarrow> string" where
  "marshalSettings kvs = json_indent 0 (JObject kvs) @ [NL]"

definition normalizeJSON :: "string \<Rightarrow> string" where
  "normalizeJSON text = (case parseJSONMap text of Inl _ \<Rightarrow> text | Inr kvs \<Rightarrow> marshalSettings kvs)"

text \<open>The type assertion \<open>v.(string)\<close> on an entry, with the empty string when it fails.\<close>

definition string_at :: "settings \<Rightarrow> string \<Rightarrow> string" where
  "string_at kvs key = (case map_of kvs key of Some (JString s) \<Rightarrow> s | _ \<Rightarrow> [])"

definition managed_metadata :: "string \<Rightarrow> settings \<Rightarrow> settings" where
  "managed_metadata base_url metadata =
     map_put ''anthropic_base_url'' (JString base_url) (map_put ''managed'' (JBool True) metadata)"

definition install_settings :: "string \<Rightarrow> settings \<Rightarrow> settings \<times> string" where
  "install_settings base_url next0 =
     (let (env, next1) = childMap next0 ''env'';
          (metadata, next2) = childMap next1 ''cachy'';
          previousManagedURL = string_at metadata ''anthropic_base_url'';
          currentURL = string_at env ''ANTHROPIC_BASE_URL'';
          next3 = map_put ''cachy'' (JObject (managed_metadata base_url metadata)) next2
      in if currentURL \<noteq> [] \<and> currentURL \<noteq> previousManagedURL
         then (next3, ''Claude Cachy metadata configured; existing ANTHROPIC_BASE_URL preserved'')
         else (map_put ''env'' (JObject (map_put ''ANTHROPIC_BASE_URL'' (JString base_url) env)) next3,
               ''Claude Cachy integration configured''))"

text \<open>What removing the integration does to the environment of the settings.\<close>

definition remove_managed_url :: "string \<Rightarrow> settings \<Rightarrow> settings" where
  "remove_managed_url previousManagedURL next0 =
     (case map_of next0 ''env'' of
        Some (JObject env) \<Rightarrow>
          (let env' = (if string_at env ''ANTHROPIC_BASE_URL'' = previousManagedURL
                       then map_delete ''ANTHROPIC_BASE_URL'' env else env)
           in if env' = [] then map_delete ''env'' next0 else map_put ''env'' (JObject env') next0)
      | _ \<Rightarrow> next0)"

definition uninstall_settings :: "settings \<Rightarrow> settings" where
  "uninstall_settings next0 =
     map_delete ''cachy''
       (case map_of next0 ''cachy'' of
          Some (JObject metadata) \<Rightarrow>
            if string_at metadata ''anthropic_base_url'' \<noteq> []
            then remove_managed_url (string_at metadata ''anthropic_base_url'') next0 else next0
        | _ \<Rightarrow> next0)"

definition planClaudeSettings :: "settings \<Rightarrow> claude_options \<Rightarrow> install_error + (settings \<times> string)" where
  "planClaudeSettings settings options =
     (let next0 = cloneJSONMap settings
      in if cl_Action options = ClaudeInstall \<or> cl_Action options = ClaudeRepair
         then Inr (install_settings (cl_AnthropicBaseURL options) next0)
         else if cl_Action options = ClaudeUninstall
         then Inr (uninstall_settings next0, ''Claude Cachy integration removed'')
         else Inl (UnsupportedAction (cl_Action options)))"

definition claude_defaults :: "claude_options \<Rightarrow> claude_options" where
  "claude_defaults options =
     (let options = (if cl_Action options = [] then options\<lparr>cl_Action := ClaudeInstall\<rparr> else options)
      in if cl_AnthropicBaseURL options = []
         then options\<lparr>cl_AnthropicBaseURL := defaultClaudeAnthropicBaseURL\<rparr> else options)"

definition claude_outcome :: "claude_options \<Rightarrow> install_env \<Rightarrow> fs \<Rightarrow> install_error + claude_result" where
  "claude_outcome options env fs =
     (let invalid = (if cl_Action options \<noteq> ClaudeUninstall then validateBaseURL (cl_AnthropicBaseURL options) else None)
      in (case invalid of Some err \<Rightarrow> Inl err
          | None \<Rightarrow>
              (case readOptionalFile env (cl_SettingsPath options) fs of
                 Inl err \<Rightarrow> Inl err
               | Inr currentText \<Rightarrow>
                   (case parseJSONMap currentText of
                      Inl err \<Rightarrow> Inl err
                    | Inr current \<Rightarrow>
                        (case planClaudeSettings current options of
                           Inl err \<Rightarrow> Inl err
                         | Inr (new_settings, message) \<Rightarrow>
                             Inr \<lparr>cr_Action = cl_Action options, cr_DryRun = cl_DryRun options,
                               cr_Changed = (normalizeJSON currentText \<noteq> normalizeJSON (marshalSettings new_settings)),
                               cr_Path = cl_SettingsPath options, cr_Preview = marshalSettings new_settings,
                               cr_Message = message\<rparr>)))))"

definition ApplyClaudeIntegration ::
  "claude_options \<Rightarrow> install_env \<Rightarrow> fs \<Rightarrow> (install_error + claude_result) \<times> fs" where
  "ApplyClaudeIntegration options env fs =
     (if cl_SettingsPath options = [] then (Inl PathRequired, fs)
      else
        (case claude_outcome (claude_defaults options) env fs of
           Inl err \<Rightarrow> (Inl err, fs)
         | Inr result \<Rightarrow>
             commit_plan env (cr_DryRun result) (cr_Changed result) (cr_Path result) (cr_Preview result) result fs))"

section \<open>Cloning\<close>

lemma clone_value_id [simp]: "clone_value v = v"
proof (induction v rule: clone_value.induct)
  case (1 kvs)
  then have "map (\<lambda>kv. (fst kv, clone_value (snd kv))) kvs = map id kvs"
    by (intro map_cong) (auto simp: prod_eq_iff)
  then show ?case by simp
qed simp_all

lemma cloneJSONMap_id [simp]: "cloneJSONMap kvs = kvs"
  by (simp add: cloneJSONMap_def)

section \<open>The plan\<close>

text \<open>The environment of the settings, empty when there is none, and the URL in it.\<close>

definition env_of :: "settings \<Rightarrow> settings" where
  "env_of s = fst (childMap s ''env'')"

definition metadata_of :: "settings \<Rightarrow> settings" where
  "metadata_of s = fst (childMap s ''cachy'')"

definition url_of :: "settings \<Rightarrow> string" where
  "url_of s = string_at (env_of s) ''ANTHROPIC_BASE_URL''"

definition managed_url :: "settings \<Rightarrow> string" where
  "managed_url s = string_at (metadata_of s) ''anthropic_base_url''"

text \<open>The user has set a URL that is not the one the integration has set.\<close>

definition own_url :: "settings \<Rightarrow> bool" where
  "own_url s \<longleftrightarrow> url_of s \<noteq> [] \<and> url_of s \<noteq> managed_url s"

definition next_env :: "string \<Rightarrow> settings \<Rightarrow> settings" where
  "next_env base_url s =
     (if own_url s then env_of s else map_put ''ANTHROPIC_BASE_URL'' (JString base_url) (env_of s))"

lemma childMap_eq:
  "childMap s k = (fst (childMap s k), if \<exists>c. map_of s k = Some (JObject c) then s else map_put k (JObject []) s)"
  by (auto simp: childMap_def split: option.splits json.splits)

lemma childMap_put: "ordered_map s \<Longrightarrow> k \<noteq> j \<Longrightarrow> fst (childMap (map_put j v s) k) = fst (childMap s k)"
  by (simp add: childMap_def map_of_put split: option.splits json.splits)

lemma childMap_put_same: "ordered_map s \<Longrightarrow> fst (childMap (map_put k (JObject c) s) k) = c"
  by (simp add: childMap_def map_of_put)

lemma childMap_ordered: "ordered_json (JObject s) \<Longrightarrow> ordered_map (fst (childMap s k))"
  by (auto simp: childMap_def ordered_map_def list_all_iff split: option.splits json.splits dest!: map_of_SomeD)

lemma string_at_put: "ordered_map s \<Longrightarrow> string_at (map_put k v s) j =
    (if j = k then (case v of JString t \<Rightarrow> t | _ \<Rightarrow> []) else string_at s j)"
  by (simp add: string_at_def map_of_put)

text \<open>Both keys of the integration are set, and nothing else is.\<close>

lemma put_over_child:
  assumes "ordered_map s"
  shows "map_put k (JObject c) (snd (childMap s k)) = map_put k (JObject c) s"
  by (subst childMap_eq) (simp add: assms)

lemma install_settings_eq:
  assumes "ordered_map s"
  shows "fst (install_settings base_url s) =
    map_put ''env'' (JObject (next_env base_url s))
      (map_put ''cachy'' (JObject (managed_metadata base_url (metadata_of s))) s)"
proof -
  let ?n1 = "snd (childMap s ''env'')" and ?c = "JObject (managed_metadata base_url (metadata_of s))"
  have n1: "?n1 = s \<or> ?n1 = map_put ''env'' (JObject []) s" "ordered_map ?n1"
    by (subst childMap_eq, simp add: assms)+
  have m: "fst (childMap ?n1 ''cachy'') = metadata_of s"
    using n1(1) childMap_put [OF assms, of "''cachy''" "''env''"] by (auto simp: metadata_of_def)
  have p: "map_put ''cachy'' ?c (snd (childMap ?n1 ''cachy'')) = map_put ''cachy'' ?c ?n1"
    by (rule put_over_child [OF n1(2)])
  have e: "map_put ''env'' (JObject (env_of s)) (map_put ''cachy'' ?c ?n1) = map_put ''cachy'' ?c ?n1"
  proof (rule map_put_present)
    show "map_of (map_put ''cachy'' ?c ?n1) ''env'' = Some (JObject (env_of s))"
      using n1(2) assms by (auto simp: map_of_put env_of_def childMap_def split: option.splits json.splits)
  qed (simp add: n1(2))
  have q: "map_put ''env'' v (map_put ''cachy'' ?c ?n1) = map_put ''env'' v (map_put ''cachy'' ?c s)" for v
    using n1(1) by (auto simp: assms map_put_swap [of _ "''env''" "''cachy''"])
  have "fst (install_settings base_url s) =
    (if own_url s then map_put ''cachy'' ?c ?n1
     else map_put ''env'' (JObject (map_put ''ANTHROPIC_BASE_URL'' (JString base_url) (env_of s))) (map_put ''cachy'' ?c ?n1))"
    by (simp add: install_settings_def case_prod_unfold Let_def m p own_url_def url_of_def managed_url_def env_of_def)
  then show ?thesis using e q by (simp add: next_env_def split: if_splits)
qed

text \<open>What the settings say after an installation.\<close>

lemma installed_facts:
  assumes "ordered_json (JObject s)"
  shows "ordered_map (fst (install_settings u s))"
    "env_of (fst (install_settings u s)) = next_env u s"
    "metadata_of (fst (install_settings u s)) = managed_metadata u (metadata_of s)"
    "managed_url (fst (install_settings u s)) = u"
    "url_of (fst (install_settings u s)) = (if own_url s then url_of s else u)"
    "k \<noteq> ''env'' \<Longrightarrow> k \<noteq> ''cachy'' \<Longrightarrow> map_of (fst (install_settings u s)) k = map_of s k"
proof -
  have o: "ordered_map s" "ordered_map (env_of s)" "ordered_map (metadata_of s)"
    using assms childMap_ordered [OF assms] by (simp_all add: env_of_def metadata_of_def)
  note i = install_settings_eq [OF o(1), of u]
  show "ordered_map (fst (install_settings u s))" by (simp add: i o)
  show e: "env_of (fst (install_settings u s)) = next_env u s"
    unfolding i env_of_def by (rule childMap_put_same) (simp add: o)
  show m: "metadata_of (fst (install_settings u s)) = managed_metadata u (metadata_of s)"
    by (subst metadata_of_def) (simp add: i o childMap_put childMap_put_same)
  show "managed_url (fst (install_settings u s)) = u"
    by (simp add: managed_url_def m managed_metadata_def string_at_put o)
  show "url_of (fst (install_settings u s)) = (if own_url s then url_of s else u)"
    by (simp add: url_of_def e next_env_def string_at_put o)
  show "k \<noteq> ''env'' \<Longrightarrow> k \<noteq> ''cachy'' \<Longrightarrow> map_of (fst (install_settings u s)) k = map_of s k"
    by (simp add: i map_of_put o)
qed

lemma next_env_idem:
  assumes "ordered_json (JObject s)"
  shows "next_env u (fst (install_settings u s)) = next_env u s"
proof (cases "own_url (fst (install_settings u s))")
  case True
  then show ?thesis by (simp add: next_env_def [of u "fst (install_settings u s)"] installed_facts(2) [OF assms])
next
  case False
  have o: "ordered_map (env_of s)" using childMap_ordered [OF assms] by (simp add: env_of_def)
  have "map_put ''ANTHROPIC_BASE_URL'' (JString u) (next_env u s) = next_env u s"
  proof (rule map_put_present)
    show "ordered_map (next_env u s)" by (simp add: next_env_def o)
    have "string_at (next_env u s) ''ANTHROPIC_BASE_URL'' = u \<or> string_at (next_env u s) ''ANTHROPIC_BASE_URL'' = []"
      using False by (auto simp: own_url_def installed_facts(4) [OF assms]
          url_of_def [of "fst (install_settings u s)"] installed_facts(2) [OF assms])
    then show "map_of (next_env u s) ''ANTHROPIC_BASE_URL'' = Some (JString u)"
      by (auto simp: next_env_def own_url_def url_of_def string_at_def map_of_put o split: if_splits option.splits json.splits)
  qed
  then show ?thesis
    using False by (simp add: next_env_def [of u "fst (install_settings u s)"] installed_facts(2) [OF assms])
qed

lemma install_settings_idem:
  assumes "ordered_json (JObject s)"
  shows "fst (install_settings u (fst (install_settings u s))) = fst (install_settings u s)"
proof (rule ordered_map_eqI)
  let ?n = "fst (install_settings u s)"
  have o: "ordered_map s" "ordered_map (metadata_of s)"
    using assms childMap_ordered [OF assms] by (simp_all add: metadata_of_def)
  note n = installed_facts(1) [OF assms, of u]
  have "managed_metadata u (managed_metadata u (metadata_of s)) = managed_metadata u (metadata_of s)"
    by (rule ordered_map_eqI) (auto simp: managed_metadata_def o map_of_put)
  then show "map_of (fst (install_settings u ?n)) = map_of ?n"
    by (simp add: install_settings_eq [OF n] next_env_idem [OF assms] installed_facts(3) [OF assms])
      (simp add: install_settings_eq [OF o(1)] map_of_put o fun_eq_iff)
qed (simp_all add: install_settings_eq [OF installed_facts(1) [OF assms]] installed_facts(1) [OF assms])

text \<open>Removing what an installation set brings back settings without an entry of the integration, except
  that an empty environment, or one that was no object, is gone.\<close>

lemma uninstall_installed:
  assumes "ordered_json (JObject s)" and "map_of s ''cachy'' = None" and "u \<noteq> []" and "url_of s \<noteq> u"
    and "map_of (env_of s) ''ANTHROPIC_BASE_URL'' \<noteq> None \<longrightarrow> url_of s \<noteq> []"
  shows "uninstall_settings (fst (install_settings u s)) =
    (if env_of s = [] then map_delete ''env'' s else s)"
proof -
  let ?n = "fst (install_settings u s)"
  have o: "ordered_map s" "ordered_map (env_of s)" "ordered_map (metadata_of s)"
    using assms(1) childMap_ordered [OF assms(1)] by (simp_all add: env_of_def metadata_of_def)
  note i = install_settings_eq [OF o(1), of u]
  have c: "map_of ?n ''cachy'' = Some (JObject (managed_metadata u (metadata_of s)))"
    "map_of ?n ''env'' = Some (JObject (next_env u s))"
    by (simp_all add: i map_of_put o)
  have m: "string_at (managed_metadata u (metadata_of s)) ''anthropic_base_url'' = u"
    by (simp add: managed_metadata_def string_at_put o)
  have "managed_url s = []" using assms(2) by (simp add: managed_url_def metadata_of_def childMap_def string_at_def)
  then have own: "own_url s \<longleftrightarrow> url_of s \<noteq> []" by (auto simp: own_url_def)
  have e: "(if string_at (next_env u s) ''ANTHROPIC_BASE_URL'' = u then map_delete ''ANTHROPIC_BASE_URL'' (next_env u s)
      else next_env u s) = env_of s"
  proof (cases "own_url s")
    case True
    then show ?thesis using assms(4) by (simp add: next_env_def flip: url_of_def)
  next
    case False
    then have "map_of (env_of s) ''ANTHROPIC_BASE_URL'' = None" using assms(5) own by auto
    then show ?thesis using False by (simp add: next_env_def string_at_put o map_delete_fresh)
  qed
  have p: "map_of s ''env'' = Some (JObject (env_of s))" if "env_of s \<noteq> []"
    using that by (auto simp: env_of_def childMap_def split: option.splits json.splits)
  show ?thesis
    unfolding uninstall_settings_def remove_managed_url_def c option.case json.case m e Let_def
    using assms(3) by (intro ordered_map_eqI) (auto simp: i o map_of_put map_of_delete assms(2) p fun_eq_iff)
qed
section \<open>The contract\<close>

lemma claude_defaults_simps [simp]:
  "cl_SettingsPath (claude_defaults options) = cl_SettingsPath options"
  "cl_DryRun (claude_defaults options) = cl_DryRun options"
  by (simp_all add: claude_defaults_def Let_def)

lemma claude_outcome_Inr:
  assumes "claude_outcome options env fs = Inr res"
  obtains raw current kvs where "readOptionalFile env (cl_SettingsPath options) fs = Inr raw"
    "parseJSONMap raw = Inr current" "planClaudeSettings current options = Inr (kvs, cr_Message res)"
    "cr_Preview res = marshalSettings kvs" "cr_Changed res = (normalizeJSON raw \<noteq> normalizeJSON (marshalSettings kvs))"
    "cr_Path res = cl_SettingsPath options" "cr_DryRun res = cl_DryRun options"
    "cl_Action options = ClaudeUninstall \<or> validateBaseURL (cl_AnthropicBaseURL options) = None"
  using assms by (auto simp: claude_outcome_def Let_def split: sum.splits option.splits prod.splits if_splits)

interpretation claude: config_integration ApplyClaudeIntegration
  "\<lambda>options. claude_outcome (claude_defaults options)" cl_SettingsPath cl_DryRun cr_Changed cr_Preview
proof unfold_locales
  fix p :: claude_options and env fs cuts
  show "claude_outcome (claude_defaults p) (env\<lparr>ie_Cut := cuts\<rparr>) fs = claude_outcome (claude_defaults p) env fs"
    by (simp add: claude_outcome_def split: option.split)
  show "cl_SettingsPath p = [] \<Longrightarrow> ApplyClaudeIntegration p env fs = (Inl PathRequired, fs)"
    by (simp add: ApplyClaudeIntegration_def)
  show "cl_SettingsPath p \<noteq> [] \<Longrightarrow> ApplyClaudeIntegration p env fs =
    (case claude_outcome (claude_defaults p) env fs of Inl err \<Rightarrow> (Inl err, fs)
     | Inr result \<Rightarrow> commit_plan env (cl_DryRun p) (cr_Changed result) (cl_SettingsPath p) (cr_Preview result) result fs)"
    by (auto simp: ApplyClaudeIntegration_def elim: claude_outcome_Inr split: sum.split)
qed

lemma parseJSONMap_ordered: "parseJSONMap text = Inr s \<Longrightarrow> ordered_json (JObject s)"
  using decode_any_ordered [of "text"]
  by (auto simp: parseJSONMap_def Unmarshal_map_def ordered_map_def split: if_splits option.splits json.splits)

section \<open>Properties\<close>

text \<open>Installing plans settings that send Claude to the proxy, unless the user has a URL of his own
  there, which stays; the URL is remembered as the one that is managed, no other entry changes, and planning
  again from the new settings changes nothing.\<close>

theorem claude_install_settings:
  assumes "parseJSONMap text = Inr s" and "cl_Action options = ClaudeInstall \<or> cl_Action options = ClaudeRepair"
  shows "\<exists>t m. planClaudeSettings s options = Inr (t, m) \<and>
    url_of t = (if own_url s then url_of s else cl_AnthropicBaseURL options) \<and>
    managed_url t = cl_AnthropicBaseURL options \<and>
    list_all (\<lambda>k. k = ''env'' \<or> k = ''cachy'' \<or> map_of t k = map_of s k) keys \<and>
    map_sum id fst (planClaudeSettings t options) = Inr t"
proof -
  let ?t = "install_settings (cl_AnthropicBaseURL options) s"
  note f = installed_facts [OF parseJSONMap_ordered [OF assms(1)]]
  have p: "planClaudeSettings kvs options = Inr (install_settings (cl_AnthropicBaseURL options) kvs)" for kvs
    using assms(2) by (auto simp: planClaudeSettings_def)
  have "list_all (\<lambda>k. k = ''env'' \<or> k = ''cachy'' \<or> map_of (fst ?t) k = map_of s k) keys"
    using f(6) by (auto simp: list_all_iff)
  then have "planClaudeSettings s options = Inr (fst ?t, snd ?t) \<and>
    url_of (fst ?t) = (if own_url s then url_of s else cl_AnthropicBaseURL options) \<and>
    managed_url (fst ?t) = cl_AnthropicBaseURL options \<and>
    list_all (\<lambda>k. k = ''env'' \<or> k = ''cachy'' \<or> map_of (fst ?t) k = map_of s k) keys \<and>
    map_sum id fst (planClaudeSettings (fst ?t) options) = Inr (fst ?t)"
    using install_settings_idem [OF parseJSONMap_ordered [OF assms(1)]] by (simp only: p f map_sum.simps) simp
  then show ?thesis by blast
qed

text \<open>C35. Uninstalling undoes installing: settings without an entry of the integration, in which the variable
  is not set or is set to some other URL, come back entry by entry; only an environment that was empty
  or no object is gone. Whatever the settings were, nothing of the integration is left.\<close>

theorem claude_uninstall_restores:
  assumes "parseJSONMap text = Inr s" and "cl_Action options = ClaudeInstall \<or> cl_Action options = ClaudeRepair"
    and "map_of s ''cachy'' = None" and "cl_AnthropicBaseURL options \<noteq> []" and "url_of s \<noteq> cl_AnthropicBaseURL options"
    and "map_of (env_of s) ''ANTHROPIC_BASE_URL'' = None \<or> url_of s \<noteq> []"
    and "planClaudeSettings s options = Inr (t, m)"
  shows "map_sum id fst (planClaudeSettings t (options\<lparr>cl_Action := ClaudeUninstall\<rparr>)) =
      Inr (if env_of s = [] then map_delete ''env'' s else s) \<and>
    (case planClaudeSettings kvs (options\<lparr>cl_Action := ClaudeUninstall\<rparr>) of
       Inr (v, _) \<Rightarrow> map_of v ''cachy'' = None | Inl _ \<Rightarrow> False)"
proof -
  have t: "t = fst (install_settings (cl_AnthropicBaseURL options) s)"
    using assms(2,7) by (auto simp: planClaudeSettings_def)
  have u: "planClaudeSettings v (options\<lparr>cl_Action := ClaudeUninstall\<rparr>) =
      Inr (uninstall_settings v, ''Claude Cachy integration removed'')" for v
    by (simp add: planClaudeSettings_def ClaudeUninstall_def ClaudeInstall_def ClaudeRepair_def)
  have "map_of (uninstall_settings kvs) ''cachy'' = None"
    by (simp add: uninstall_settings_def map_of_delete)
  then show ?thesis
    using uninstall_installed [OF parseJSONMap_ordered [OF assms(1)] assms(3,4,5)] assms(6)
    by (auto simp: u t)
qed

subsection \<open>Concrete settings\<close>

definition sample_settings :: settings where
  "sample_settings = [(''env'', JObject [(''A'', JString ''b'')])]"

definition sample_claude :: claude_options where
  "sample_claude = \<lparr>cl_Action = ''install'', cl_SettingsPath = ''s'', cl_AnthropicBaseURL = ''http://h'', cl_DryRun = False\<rparr>"

lemma parse_sample_settings: "parseJSONMap (''{'' @ QUOTE # ''env'' @ QUOTE # '':{'' @ QUOTE # ''A'' @ QUOTE # '':'' @
    QUOTE # ''b'' @ QUOTE # ''}}'') = Inr sample_settings"
  by (simp add: parseJSONMap_def Unmarshal_map_def decode_any.simps sample_settings_def put_entries_def go_eval)

lemma sample_claude_facts:
  "cl_Action sample_claude = ClaudeInstall" "cl_AnthropicBaseURL sample_claude = ''http://h''"
  "env_of sample_settings = [(''A'', JString ''b'')]" "url_of sample_settings = []" "\<not> own_url sample_settings"
  "map_of sample_settings ''cachy'' = None" "map_of [(''A'', JString ''b'')] ''ANTHROPIC_BASE_URL'' = None"
  by (simp_all add: sample_claude_def ClaudeInstall_def sample_settings_def env_of_def childMap_def url_of_def
      string_at_def own_url_def)

lemma claude_install_settings_witness:
  "\<exists>t m. planClaudeSettings sample_settings sample_claude = Inr (t, m) \<and> url_of t = ''http://h'' \<and>
     map_sum id fst (planClaudeSettings t sample_claude) = Inr t"
  using claude_install_settings [OF parse_sample_settings, of sample_claude "[]"] sample_claude_facts(1)
  by (auto simp: sample_claude_facts)

lemma claude_uninstall_restores_witness:
  "\<exists>t m. planClaudeSettings sample_settings sample_claude = Inr (t, m) \<and>
     map_sum id fst (planClaudeSettings t (sample_claude\<lparr>cl_Action := ClaudeUninstall\<rparr>)) = Inr sample_settings"
proof -
  obtain t m where "install_settings ''http://h'' sample_settings = (t, m)" by (metis surj_pair)
  then have "planClaudeSettings sample_settings sample_claude = Inr (t, m)"
    by (simp add: planClaudeSettings_def sample_claude_facts)
  then show ?thesis
    using claude_uninstall_restores [OF parse_sample_settings, of sample_claude t m "[]"]
    by (simp add: sample_claude_facts)
qed

end
