(* ===== verification/Install_Codex.thy ===== *)
theory Install_Codex
  imports Install_Config
begin

text \<open>
  \<open>internal/install/codex.go\<close>: the block that \<open>cachy integrations codex\<close> manages in the configuration
  of Codex. The plan is a function of the text of the file; \<open>ApplyCodexIntegration\<close> reads the file and,
  unless it is a dry run or nothing changes, writes it. What the environment does to the calls of the
  operating system is the record \<open>install_env\<close>, which the other integrations share.
\<close>

section \<open>The managed block\<close>

definition ManagedCodexBegin :: string where "ManagedCodexBegin = ''# BEGIN CACHY CODEX INTEGRATION''"
definition ManagedCodexEnd :: string where "ManagedCodexEnd = ''# END CACHY CODEX INTEGRATION''"
definition defaultCodexProxyBaseURL :: string where "defaultCodexProxyBaseURL = ''http://127.0.0.1:8787/v1''"
definition CodexInstall :: string where "CodexInstall = ''install''"
definition CodexRepair :: string where "CodexRepair = ''repair''"
definition CodexUninstall :: string where "CodexUninstall = ''uninstall''"

abbreviation line_ends :: string where "line_ends \<equiv> [CR, NL]"

record codex_options =
  co_Action :: string
  co_ConfigPath :: string
  co_ProxyBaseURL :: string
  co_DryRun :: bool

record codex_result =
  cx_Action :: string
  cx_DryRun :: bool
  cx_Changed :: bool
  cx_Path :: string
  cx_Preview :: string
  cx_Message :: string

definition DefaultCodexConfigPath :: "string \<Rightarrow> string \<Rightarrow> install_error + string" where
  "DefaultCodexConfigPath home codexHome =
     (if codexHome \<noteq> [] then Inr (path_Join [codexHome, ''config.toml''])
      else if home = [] then Inl HomeRequired
      else Inr (path_Join [home, ''.codex'', ''config.toml'']))"

definition quoted_line :: "string \<Rightarrow> string \<Rightarrow> string" where
  "quoted_line key v = key @ '' = '' @ QUOTE # v @ [QUOTE]"

definition renderCodexManagedBlock :: "unicode_tables \<Rightarrow> string \<Rightarrow> bool \<Rightarrow> string" where
  "renderCodexManagedBlock T proxyBaseURL preserveProvider =
     Join ([ManagedCodexBegin, ''# Managed by Cachy. Remove with: cachy integrations codex uninstall''] @
       (if \<not> preserveProvider then [quoted_line ''model_provider'' ''cachy''] else []) @
       [''[model_providers.cachy]'', quoted_line ''name'' ''Cachy'',
        ''base_url = '' @ strconv_Quote T proxyBaseURL,
        quoted_line ''env_key'' ''OPENAI_API_KEY'', quoted_line ''wire_api'' ''responses'', ManagedCodexEnd])
       [NL] @ [NL]"

definition trailingNewline :: "string \<Rightarrow> string" where
  "trailingNewline prefix = (if TrimSpace prefix = [] then [] else [NL])"

definition removeManagedBlock :: "string \<Rightarrow> string" where
  "removeManagedBlock text =
     (case Index text ManagedCodexBegin of
        None \<Rightarrow> text
      | Some start \<Rightarrow>
          (case Index (drop start text) ManagedCodexEnd of
             None \<Rightarrow> take start text
           | Some e \<Rightarrow>
               (let rest = drop (start + e + length ManagedCodexEnd) text;
                    rest = TrimPrefix rest [CR];
                    rest = TrimPrefix rest [NL]
                in TrimRight (take start text) line_ends @ trailingNewline (take start text) @
                   TrimLeft rest line_ends)))"

definition appendBlock :: "string \<Rightarrow> string \<Rightarrow> string" where
  "appendBlock current block =
     (let current = TrimRight current line_ends
      in if current = [] then block else current @ [NL, NL] @ block)"

definition model_provider_line :: "string \<Rightarrow> bool" where
  "model_provider_line line \<longleftrightarrow>
     (let trimmed = TrimSpace line
      in \<not> (trimmed = [] \<or> HasPrefix trimmed ''#'' \<or> HasPrefix trimmed ''['') \<and>
         HasPrefix trimmed ''model_provider'' \<and> Contains trimmed ''='')"

definition hasTopLevelModelProvider :: "string \<Rightarrow> bool" where
  "hasTopLevelModelProvider text \<longleftrightarrow> list_ex model_provider_line (Split text [NL])"

definition planCodexConfig ::
  "unicode_tables \<Rightarrow> string \<Rightarrow> codex_options \<Rightarrow> install_error + (string \<times> string)" where
  "planCodexConfig T current options =
     (let cleaned = removeManagedBlock current
      in if co_Action options = CodexInstall \<or> co_Action options = CodexRepair
         then Inr (appendBlock cleaned (renderCodexManagedBlock T (co_ProxyBaseURL options)
                (hasTopLevelModelProvider cleaned)),
              if hasTopLevelModelProvider cleaned
              then ''Codex provider block configured; existing model_provider preserved''
              else ''Codex Cachy integration configured'')
         else if co_Action options = CodexUninstall then Inr (cleaned, ''Codex Cachy integration removed'')
         else Inl (UnsupportedAction (co_Action options)))"

definition codex_defaults :: "codex_options \<Rightarrow> codex_options" where
  "codex_defaults options =
     (let options = (if co_Action options = [] then options\<lparr>co_Action := CodexInstall\<rparr> else options)
      in if co_ProxyBaseURL options = [] then options\<lparr>co_ProxyBaseURL := defaultCodexProxyBaseURL\<rparr> else options)"

text \<open>All of a run but its writing, and the run.\<close>

definition codex_outcome ::
  "unicode_tables \<Rightarrow> codex_options \<Rightarrow> install_env \<Rightarrow> fs \<Rightarrow> install_error + codex_result" where
  "codex_outcome T options env fs =
     (let invalid = (if co_Action options \<noteq> CodexUninstall then validateProxyBaseURL (co_ProxyBaseURL options) else None)
      in (case invalid of Some err \<Rightarrow> Inl err
          | None \<Rightarrow>
              (case readOptionalFile env (co_ConfigPath options) fs of
                 Inl err \<Rightarrow> Inl err
               | Inr current \<Rightarrow>
                   (case planCodexConfig T current options of
                      Inl err \<Rightarrow> Inl err
                    | Inr (new_text, message) \<Rightarrow>
                        Inr \<lparr>cx_Action = co_Action options, cx_DryRun = co_DryRun options,
                          cx_Changed = (new_text \<noteq> current), cx_Path = co_ConfigPath options,
                          cx_Preview = new_text, cx_Message = message\<rparr>))))"

definition ApplyCodexIntegration ::
  "unicode_tables \<Rightarrow> codex_options \<Rightarrow> install_env \<Rightarrow> fs \<Rightarrow> (install_error + codex_result) \<times> fs" where
  "ApplyCodexIntegration T options env fs =
     (if co_ConfigPath options = [] then (Inl PathRequired, fs)
      else
        (case codex_outcome T (codex_defaults options) env fs of
           Inl err \<Rightarrow> (Inl err, fs)
         | Inr result \<Rightarrow>
             commit_plan env (cx_DryRun result) (cx_Changed result) (cx_Path result) (cx_Preview result) result fs))"

section \<open>Facts about the text\<close>

lemma line_end_space: "c \<in> set line_ends \<Longrightarrow> byte c < 128 \<and> IsSpace (byte c)"
  by (auto simp: IsSpace_def)

lemma TrimSpace_line_ends: "set t \<subseteq> set line_ends \<Longrightarrow> TrimSpace (s @ t) = TrimSpace s"
proof (induction t rule: rev_induct)
  case (snoc c t)
  then show ?case
    using TrimSpace_snoc [of c "s @ t"] line_end_space [of c] by simp
qed simp

lemma Split_snoc:
  "Split (s @ [d]) [c] = (if d = c then Split s [c] @ [[]] else butlast (Split s [c]) @ [last (Split s [c]) @ [d]])"
proof (cases "d = c")
  case True
  then show ?thesis using Split_append_single [of s c "[]"] by (simp add: Split_no_sep)
next
  case False
  obtain ls l where l: "Split s [c] = ls @ [l]" by (metis Split_not_Nil rev_exhaust)
  have "s = Join (ls @ [l]) [c]" using Join_Split [of s "[c]"] by (simp only: l)
  then have s: "s @ [d] = Join (ls @ [l @ [d]]) [c]"
    by (cases "ls = []") (simp_all add: Join_append)
  have "\<forall>x \<in> set (ls @ [l @ [d]]). c \<notin> set x"
    using Split_single_pieces [of s c] False by (auto simp: l)
  then show ?thesis using False unfolding s l by (subst Split_Join_single) simp_all
qed

lemma hasTop_snoc: "d \<in> set line_ends \<Longrightarrow> hasTopLevelModelProvider (s @ [d]) = hasTopLevelModelProvider s"
proof -
  assume d: "d \<in> set line_ends"
  obtain ls l where l: "Split s [NL] = ls @ [l]" by (metis Split_not_Nil rev_exhaust)
  have "\<not> model_provider_line []" by (simp add: model_provider_line_def)
  moreover have "model_provider_line (l @ [d]) = model_provider_line l"
    using TrimSpace_line_ends [of "[d]" l] d by (simp add: model_provider_line_def)
  ultimately show ?thesis by (simp add: hasTopLevelModelProvider_def Split_snoc l)
qed

lemma hasTop_line_ends:
  "set t \<subseteq> set line_ends \<Longrightarrow> hasTopLevelModelProvider (s @ t) = hasTopLevelModelProvider s"
proof (induction t rule: rev_induct)
  case (snoc c t)
  then show ?case using hasTop_snoc [of c "s @ t"] by simp
qed simp
section \<open>The managed block in a text\<close>

text \<open>The lines of the block but the last, as they stand in the text.\<close>

definition block_lines :: "unicode_tables \<Rightarrow> string \<Rightarrow> bool \<Rightarrow> string list" where
  "block_lines T url preserve =
     [''# Managed by Cachy. Remove with: cachy integrations codex uninstall''] @
     (if \<not> preserve then [quoted_line ''model_provider'' ''cachy''] else []) @
     [''[model_providers.cachy]'', quoted_line ''name'' ''Cachy'', ''base_url = '' @ strconv_Quote T url,
      quoted_line ''env_key'' ''OPENAI_API_KEY'', quoted_line ''wire_api'' ''responses'']"

lemma renderCodexManagedBlock_lines:
  "renderCodexManagedBlock T url preserve =
     ManagedCodexBegin @ [NL] @ concat (map (\<lambda>l. l @ [NL]) (block_lines T url preserve)) @ ManagedCodexEnd @ [NL]"
  by (simp add: renderCodexManagedBlock_def Join_lines block_lines_def)

text \<open>A base URL whose line cannot be taken for the end of the block.\<close>

definition quotable :: "unicode_tables \<Rightarrow> string \<Rightarrow> bool" where
  "quotable T url \<longleftrightarrow> \<not> Contains (''base_url = '' @ strconv_Quote T url) ManagedCodexEnd"

lemma marker_facts:
  "NL \<notin> set ManagedCodexEnd" "ManagedCodexEnd \<noteq> []" "NL \<notin> set ManagedCodexBegin" "ManagedCodexBegin \<noteq> []"
  "Index ManagedCodexBegin ManagedCodexEnd = None"
  by (simp_all add: ManagedCodexEnd_def ManagedCodexBegin_def HasPrefix_def)

lemma fixed_lines_no_end:
  "list_all (\<lambda>l. Index l ManagedCodexEnd = None)
     [''# Managed by Cachy. Remove with: cachy integrations codex uninstall'',
      quoted_line ''model_provider'' ''cachy'', ''[model_providers.cachy]'', quoted_line ''name'' ''Cachy'',
      quoted_line ''env_key'' ''OPENAI_API_KEY'', quoted_line ''wire_api'' ''responses'']"
  by (simp add: quoted_line_def ManagedCodexEnd_def HasPrefix_def)

lemma block_lines_no_end: "quotable T url \<Longrightarrow> list_all (\<lambda>l. Index l ManagedCodexEnd = None) (block_lines T url preserve)"
  using fixed_lines_no_end
  unfolding block_lines_def quotable_def Contains_def list_all_append list.pred_inject not_not by simp

lemma Index_End_block:
  assumes "quotable T url"
  shows "\<exists>e. Index (renderCodexManagedBlock T url preserve) ManagedCodexEnd = Some e \<and>
    e + length ManagedCodexEnd + 1 = length (renderCodexManagedBlock T url preserve)"
proof -
  have "list_all (\<lambda>l. Index l ManagedCodexEnd = None) (ManagedCodexBegin # block_lines T url preserve)"
    using block_lines_no_end [OF assms] marker_facts(5) by simp
  from Index_lines [OF marker_facts(1,2) this, of "ManagedCodexEnd @ [NL]"] Index_self [OF marker_facts(2)]
  show ?thesis by (simp add: renderCodexManagedBlock_lines)
qed

lemma TrimSpace_appended: "TrimSpace (s @ [NL, NL]) = TrimSpace s"
  by (rule TrimSpace_line_ends) simp

text \<open>What removing the block leaves of a text it was appended to.\<close>

definition restored :: "string \<Rightarrow> string" where
  "restored text = (let c = TrimRight text line_ends in c @ trailingNewline c)"

lemma removeManagedBlock_cut:
  assumes "Index text ManagedCodexBegin = Some (length pre)" and "text = pre @ renderCodexManagedBlock T url preserve"
    and "quotable T url"
  shows "removeManagedBlock text = TrimRight pre line_ends @ trailingNewline pre"
proof -
  obtain e where e: "Index (renderCodexManagedBlock T url preserve) ManagedCodexEnd = Some e"
    "e + length ManagedCodexEnd + 1 = length (renderCodexManagedBlock T url preserve)"
    using Index_End_block [OF assms(3)] by blast
  have "drop (e + length ManagedCodexEnd) (renderCodexManagedBlock T url preserve) = [NL]"
  proof -
    have "\<exists>b. renderCodexManagedBlock T url preserve = b @ [NL]"
      by (simp add: renderCodexManagedBlock_lines)
    then obtain b where b: "renderCodexManagedBlock T url preserve = b @ [NL]" ..
    then have "e + length ManagedCodexEnd = length b" using e(2) by simp
    then show ?thesis by (simp add: b)
  qed
  then have "drop (length pre + e + length ManagedCodexEnd) text = [NL]"
    by (simp add: assms(2) add.assoc)
  moreover have "TrimLeft (TrimPrefix (TrimPrefix [NL] [CR]) [NL]) line_ends = []"
    by (simp add: TrimPrefix_def HasPrefix_def TrimLeft_def)
  moreover have "Index (drop (length pre) text) ManagedCodexEnd = Some e" using e(1) by (simp add: assms(2))
  moreover have "take (length pre) text = pre" by (simp add: assms(2))
  ultimately show ?thesis
    by (simp add: removeManagedBlock_def assms(1) Let_def)
qed

lemma removeManagedBlock_appended:
  assumes "\<not> Contains text ManagedCodexBegin" and "quotable T url"
  shows "removeManagedBlock (appendBlock text (renderCodexManagedBlock T url preserve)) = restored text"
proof -
  let ?c = "TrimRight text line_ends" and ?b = "renderCodexManagedBlock T url preserve"
  have b0: "Index ?b ManagedCodexBegin = Some 0"
    unfolding renderCodexManagedBlock_lines by (rule Index_self [OF marker_facts(4)])
  obtain t where "text = ?c @ t" using TrimRight_decomp by blast
  then have c: "Index ?c ManagedCodexBegin = None"
    using assms(1) Index_append_None by (metis Contains_def)
  show ?thesis
  proof (cases "?c = []")
    case True
    have "TrimRight [] line_ends = []" by (simp add: TrimRight_def)
    then have "removeManagedBlock ?b = trailingNewline []"
      using removeManagedBlock_cut [of ?b "[]" T url preserve] b0 assms(2) by simp
    then show ?thesis unfolding appendBlock_def restored_def Let_def True by simp
  next
    case False
    have "Index (?c @ NL # [] @ NL # ?b) ManagedCodexBegin = Some (length ?c + 2)"
      using Index_cut [OF marker_facts(3,4) c, of "[] @ NL # ?b"] Index_cut [OF marker_facts(3,4), of "[]" ?b] b0 marker_facts(4)
      by simp
    then have "removeManagedBlock ((?c @ [NL, NL]) @ ?b) = TrimRight (?c @ [NL, NL]) line_ends @ trailingNewline (?c @ [NL, NL])"
      by (intro removeManagedBlock_cut [OF _ refl assms(2)]) simp
    then show ?thesis
      using False TrimRight_append_cut [of "[NL, NL]" line_ends ?c]
      by (simp add: appendBlock_def restored_def Let_def trailingNewline_def TrimSpace_appended)
  qed
qed

lemma restored_facts:
  "hasTopLevelModelProvider (restored text) = hasTopLevelModelProvider text"
  "TrimRight (restored text) line_ends = TrimRight text line_ends"
proof -
  obtain t where t: "text = TrimRight text line_ends @ t" "set t \<subseteq> set line_ends" using TrimRight_decomp by blast
  have n: "set (trailingNewline c) \<subseteq> set line_ends" for c by (simp add: trailingNewline_def)
  show "hasTopLevelModelProvider (restored text) = hasTopLevelModelProvider text"
    using hasTop_line_ends [OF n] hasTop_line_ends [OF t(2)] t(1) by (metis restored_def)
  show "TrimRight (restored text) line_ends = TrimRight text line_ends"
    by (simp add: restored_def Let_def TrimRight_append_cut [OF n])
qed

lemma planCodexConfig_install:
  "planCodexConfig T current options = Inr (t, m) \<Longrightarrow> co_Action options \<noteq> CodexUninstall \<Longrightarrow>
     t = appendBlock (removeManagedBlock current)
       (renderCodexManagedBlock T (co_ProxyBaseURL options) (hasTopLevelModelProvider (removeManagedBlock current)))"
  by (auto simp: planCodexConfig_def Let_def split: if_splits)

text \<open>Installing twice plans what installing once planned.\<close>

lemma planCodexConfig_idem:
  assumes "\<not> Contains (removeManagedBlock text) ManagedCodexBegin" and "quotable T (co_ProxyBaseURL options)"
    and "planCodexConfig T text options = Inr (next_text, m)" and "co_Action options \<noteq> CodexUninstall"
  shows "planCodexConfig T next_text options = Inr (next_text, m)"
proof -
  have a: "co_Action options = CodexInstall \<or> co_Action options = CodexRepair"
    using assms(3,4) by (auto simp: planCodexConfig_def Let_def split: if_splits)
  then have n: "next_text = appendBlock (removeManagedBlock text) (renderCodexManagedBlock T (co_ProxyBaseURL options)
      (hasTopLevelModelProvider (removeManagedBlock text)))"
    and m: "m = (if hasTopLevelModelProvider (removeManagedBlock text)
      then ''Codex provider block configured; existing model_provider preserved'' else ''Codex Cachy integration configured'')"
    using assms(3) by (auto simp: planCodexConfig_def Let_def)
  then have "removeManagedBlock next_text = restored (removeManagedBlock text)"
    by (simp add: removeManagedBlock_appended [OF assms(1,2)])
  then show ?thesis
    using a n m by (simp add: planCodexConfig_def Let_def restored_facts(1)) (simp add: appendBlock_def restored_facts(2))
qed

section \<open>Applying\<close>

lemma codex_defaults_simps [simp]:
  "co_ConfigPath (codex_defaults options) = co_ConfigPath options"
  "co_DryRun (codex_defaults options) = co_DryRun options"
  by (simp_all add: codex_defaults_def Let_def)

text \<open>A run that succeeds has planned the preview from the text it read.\<close>

lemma codex_outcome_Inr:
  assumes "codex_outcome T options env fs = Inr res"
  obtains current where "readOptionalFile env (co_ConfigPath options) fs = Inr current"
    "planCodexConfig T current options = Inr (cx_Preview res, cx_Message res)"
    "co_Action options = CodexUninstall \<or> validateProxyBaseURL (co_ProxyBaseURL options) = None"
    "cx_Changed res = (cx_Preview res \<noteq> current)" "cx_Action res = co_Action options"
    "cx_Path res = co_ConfigPath options" "cx_DryRun res = co_DryRun options"
  using assms by (auto simp: codex_outcome_def Let_def split: sum.splits option.splits prod.splits if_splits)

lemma codex_outcome_run:
  assumes "readOptionalFile env (co_ConfigPath options) fs = Inr current"
    and "planCodexConfig T current options = Inr (current, m)"
    and "co_Action options = CodexUninstall \<or> validateProxyBaseURL (co_ProxyBaseURL options) = None"
  shows "\<exists>res. codex_outcome T options env fs = Inr res \<and> \<not> cx_Changed res \<and> cx_Preview res = current"
  using assms by (auto simp: codex_outcome_def)

text \<open>Codex meets the contract.\<close>

interpretation codex: config_integration "ApplyCodexIntegration T"
  "\<lambda>options. codex_outcome T (codex_defaults options)" co_ConfigPath co_DryRun cx_Changed cx_Preview for T
proof unfold_locales
  fix p :: codex_options and env fs cuts
  show "codex_outcome T (codex_defaults p) (env\<lparr>ie_Cut := cuts\<rparr>) fs = codex_outcome T (codex_defaults p) env fs"
    by (simp add: codex_outcome_def split: option.split)
  show "co_ConfigPath p = [] \<Longrightarrow> ApplyCodexIntegration T p env fs = (Inl PathRequired, fs)"
    by (simp add: ApplyCodexIntegration_def)
  show "co_ConfigPath p \<noteq> [] \<Longrightarrow> ApplyCodexIntegration T p env fs =
    (case codex_outcome T (codex_defaults p) env fs of Inl err \<Rightarrow> (Inl err, fs)
     | Inr result \<Rightarrow> commit_plan env (co_DryRun p) (cx_Changed result) (co_ConfigPath p) (cx_Preview result) result fs)"
    by (auto simp: ApplyCodexIntegration_def elim: codex_outcome_Inr split: sum.split)
qed

lemma codex_read_after:
  assumes "ApplyCodexIntegration T options env fs = (Inr res, fs')" and "\<not> co_DryRun options"
    and "ie_Read env (co_ConfigPath options) = None" and "ie_Read env' (co_ConfigPath options) = None"
  shows "readOptionalFile env' (co_ConfigPath options) fs' = Inr (cx_Preview res)"
proof (cases "cx_Changed res")
  case True
  show ?thesis by (rule codex.read_after_run [OF assms(1) True assms(2,4)])
next
  case False
  note r = codex.run_Inr [OF assms(1)]
  obtain current where "readOptionalFile env (co_ConfigPath options) fs = Inr current" "cx_Changed res = (cx_Preview res \<noteq> current)"
    by (rule codex_outcome_Inr [OF r(2)]) simp
  then show ?thesis
    using False r(3) by (simp add: read_unfaulted [OF assms(3)] read_unfaulted [OF assms(4)])
qed

section \<open>Properties\<close>

text \<open>C32. An integration writes nothing but the configuration file it was given, and that only when the run
  is no dry run and its plan changes the text: one that succeeds leaves its preview in the file. A run that
  fails leaves every file as it was, except when the write of the configuration itself fails on the way: the
  file, written in place, then holds only the beginning of the planned text. A dry run answers what the run
  itself would plan.\<close>

theorem codex_writes_only_its_file:
  "(case ApplyCodexIntegration T options env fs of (r, fs') \<Rightarrow>
     list_all (\<lambda>q. q = co_ConfigPath options \<or> fs_lookup fs' q = fs_lookup fs q) paths \<and>
     (case r of
        Inl err \<Rightarrow> fs' = fs \<or>
          (\<not> co_DryRun options \<and> (\<exists>n e plan. ie_Cut env (co_ConfigPath options) = Some (n, e) \<and> err = InstallOs e \<and>
             codex_outcome T (codex_defaults options) env fs = Inr plan \<and> cx_Changed plan \<and>
             map_option f_Content (fs_lookup fs' (co_ConfigPath options)) = Some (take n (cx_Preview plan))))
      | Inr res \<Rightarrow> if cx_Changed res \<and> \<not> co_DryRun options
          then map_option f_Content (fs_lookup fs' (co_ConfigPath options)) = Some (cx_Preview res) else fs' = fs)) \<and>
   codex_outcome T (options\<lparr>co_DryRun := True\<rparr>) env fs =
     map_sum id (\<lambda>res. res\<lparr>cx_DryRun := True\<rparr>) (codex_outcome T options env fs)"
proof (rule conjI [OF codex.writes_only_its_file])
  show "codex_outcome T (options\<lparr>co_DryRun := True\<rparr>) env fs =
     map_sum id (\<lambda>res. res\<lparr>cx_DryRun := True\<rparr>) (codex_outcome T options env fs)"
    by (auto simp: codex_outcome_def planCodexConfig_def Let_def split: sum.splits option.splits prod.splits)
qed

text \<open>C33. Installing is idempotent: run again, without the read failing, it finds nothing to change,
  provided what is outside the managed block holds no other begin marker and the base URL does not
  spell the end marker.\<close>

theorem codex_install_idempotent:
  assumes "ApplyCodexIntegration T options env fs = (Inr res, fs')" and "\<not> co_DryRun options"
    and "cx_Action res \<noteq> CodexUninstall"
    and "readOptionalFile env (co_ConfigPath options) fs = Inr current"
    and "\<not> Contains (removeManagedBlock current) ManagedCodexBegin"
    and "quotable T (co_ProxyBaseURL (codex_defaults options))"
    and "ie_Read env (co_ConfigPath options) = None" and "ie_Read env' (co_ConfigPath options) = None"
  shows "\<exists>res'. ApplyCodexIntegration T options env' fs' = (Inr res', fs') \<and> \<not> cx_Changed res' \<and>
    cx_Preview res' = cx_Preview res"
proof -
  note i = codex.run_Inr [OF assms(1)]
  obtain c where c: "readOptionalFile env (co_ConfigPath options) fs = Inr c"
    "planCodexConfig T c (codex_defaults options) = Inr (cx_Preview res, cx_Message res)"
    "co_Action (codex_defaults options) = CodexUninstall \<or>
       validateProxyBaseURL (co_ProxyBaseURL (codex_defaults options)) = None"
    "cx_Action res = co_Action (codex_defaults options)"
    by (rule codex_outcome_Inr [OF i(2)]) simp
  have "c = current" using c(1) assms(4) by simp
  then have "planCodexConfig T (cx_Preview res) (codex_defaults options) = Inr (cx_Preview res, cx_Message res)"
    using planCodexConfig_idem [OF _ assms(6) c(2)] assms(3,5) c(4) by simp
  then obtain res' where "codex_outcome T (codex_defaults options) env' fs' = Inr res'" "\<not> cx_Changed res'"
    "cx_Preview res' = cx_Preview res"
    using codex_outcome_run [of env' "codex_defaults options" fs' "cx_Preview res"] c(3)
      codex_read_after [OF assms(1,2,7,8)] by auto
  then show ?thesis using codex.run_unchanged [OF i(1)] by blast
qed

text \<open>C34. Uninstalling undoes installing: a configuration without a managed block is afterwards what it was
  before, but for the line breaks at its end, and every other file is as it was.\<close>

theorem codex_uninstall_restores:
  assumes "ApplyCodexIntegration T options env fs = (Inr res, fs')"
    and "ApplyCodexIntegration T (options\<lparr>co_Action := CodexUninstall\<rparr>) env' fs' = (Inr res', fs'')"
    and "\<not> co_DryRun options" and "cx_Action res \<noteq> CodexUninstall"
    and "readOptionalFile env (co_ConfigPath options) fs = Inr current"
    and "\<not> Contains current ManagedCodexBegin" and "quotable T (co_ProxyBaseURL (codex_defaults options))"
    and "ie_Read env (co_ConfigPath options) = None" and "ie_Read env' (co_ConfigPath options) = None"
  shows "readOptionalFile env' (co_ConfigPath options) fs'' =
      Inr (TrimRight current line_ends @ (if TrimSpace current = [] then [] else [NL])) \<and>
    (\<forall>q. q \<noteq> co_ConfigPath options \<longrightarrow> fs_lookup fs'' q = fs_lookup fs q)"
proof -
  let ?u = "options\<lparr>co_Action := CodexUninstall\<rparr>"
  have p: "co_ConfigPath ?u = co_ConfigPath options" by simp
  obtain c where c: "readOptionalFile env (co_ConfigPath options) fs = Inr c"
    "planCodexConfig T c (codex_defaults options) = Inr (cx_Preview res, cx_Message res)"
    "cx_Action res = co_Action (codex_defaults options)"
    by (rule codex_outcome_Inr [OF codex.run_Inr(2) [OF assms(1)]]) simp
  have cc: "c = current" using c(1) assms(5) by simp
  have "removeManagedBlock current = current"
    using assms(6) by (simp add: removeManagedBlock_def Contains_def)
  then have t: "cx_Preview res = appendBlock current (renderCodexManagedBlock T
      (co_ProxyBaseURL (codex_defaults options)) (hasTopLevelModelProvider current))"
    using c(2,3) assms(4) by (simp add: cc planCodexConfig_def Let_def split: if_splits)
  obtain c' where u: "readOptionalFile env' (co_ConfigPath ?u) fs' = Inr c'"
    "planCodexConfig T c' (codex_defaults ?u) = Inr (cx_Preview res', cx_Message res')"
    by (rule codex_outcome_Inr [OF codex.run_Inr(2) [OF assms(2)]]) simp
  have "c' = cx_Preview res"
    using u(1) codex_read_after [OF assms(1,3,8,9)] by simp
  moreover have "co_Action (codex_defaults ?u) = CodexUninstall"
    by (simp add: codex_defaults_def Let_def CodexUninstall_def)
  ultimately have "cx_Preview res' = restored current"
    using u(2) t removeManagedBlock_appended [OF assms(6,7)]
    by (auto simp: planCodexConfig_def Let_def CodexUninstall_def CodexInstall_def CodexRepair_def)
  moreover have "readOptionalFile env' (co_ConfigPath options) fs'' = Inr (cx_Preview res')"
    using codex_read_after [OF assms(2), of env'] assms(3,9) by simp
  moreover have "TrimSpace (TrimRight current line_ends) = TrimSpace current"
    using TrimRight_decomp [of current line_ends] TrimSpace_line_ends by metis
  moreover have "fs_lookup fs'' q = fs_lookup fs q" if "q \<noteq> co_ConfigPath options" for q
    using codex.other_files [OF assms(2), of q] codex.other_files [OF assms(1) that] that by simp
  ultimately show ?thesis by (simp add: restored_def Let_def trailingNewline_def)
qed


subsection \<open>A concrete run\<close>

definition calm_install :: install_env where
  "calm_install = \<lparr>ie_Read = Map.empty, ie_Mkdir = Map.empty, ie_Write = Map.empty, ie_Cut = Map.empty, ie_Now = 7\<rparr>"

definition sample_codex :: codex_options where
  "sample_codex = \<lparr>co_Action = ''repair'', co_ConfigPath = ''c'', co_ProxyBaseURL = ''http://h'', co_DryRun = False\<rparr>"

definition sample_home :: fs where
  "sample_home = [(''c'', \<lparr>f_Content = ''a = 1'', f_ModTime = 3\<rparr>)]"

lemma sample_codex_facts:
  "codex_defaults sample_codex = sample_codex" "co_ConfigPath sample_codex = ''c''" "\<not> co_DryRun sample_codex"
  "readOptionalFile calm_install ''c'' sample_home = Inr ''a = 1''" "\<not> Contains ''a = 1'' ManagedCodexBegin"
  "removeManagedBlock ''a = 1'' = ''a = 1''"
  by (simp_all add: codex_defaults_def sample_codex_def calm_install_def sample_home_def read_unfaulted
      Contains_def removeManagedBlock_def ManagedCodexBegin_def fs_lookup_def HasPrefix_def)

lemma sample_codex_url:
  "quotable ascii_tables (co_ProxyBaseURL sample_codex)" "validateProxyBaseURL (co_ProxyBaseURL sample_codex) = None"
proof -
  have q: "strconv_Quote ascii_tables ''http://h'' = QUOTE # ''http://h'' @ [QUOTE]"
    by (simp add: strconv_Quote_def go_quote_chunk_def IsPrint_def go_eval)
  show "quotable ascii_tables (co_ProxyBaseURL sample_codex)"
    by (simp add: quotable_def sample_codex_def q Contains_def ManagedCodexEnd_def HasPrefix_def)
  show "validateProxyBaseURL (co_ProxyBaseURL sample_codex) = None"
    by (simp add: validateProxyBaseURL_def sample_codex_def go_eval)
qed

lemma sample_codex_write:
  "write_config calm_install ''c'' t [(''c'', f)] = (None, [(''c'', \<lparr>f_Content = t, f_ModTime = 7\<rparr>)])"
  by (simp add: write_config_def os_MkdirAll_def os_WriteFile_def os_Create_def calm_install_def fs_lookup_def fs_write.simps
      below_def go_eval)

lemma sample_codex_step:
  assumes "codex_outcome ascii_tables (codex_defaults options) calm_install [(''c'', f)] = Inr res"
    and "co_ConfigPath options = ''c''"
  shows "\<exists>g. ApplyCodexIntegration ascii_tables options calm_install [(''c'', f)] = (Inr res, [(''c'', g)])"
proof -
  have "cx_Path res = ''c''" by (rule codex_outcome_Inr [OF assms(1)]) (simp add: assms(2))
  then show ?thesis by (simp add: ApplyCodexIntegration_def commit_plan_def assms sample_codex_write)
qed

lemma sample_codex_run:
  obtains res g where "ApplyCodexIntegration ascii_tables sample_codex calm_install sample_home = (Inr res, [(''c'', g)])"
    "cx_Action res \<noteq> CodexUninstall"
proof -
  have a: "co_Action sample_codex = CodexRepair" "CodexRepair \<noteq> CodexUninstall"
    by (simp_all add: sample_codex_def CodexRepair_def CodexUninstall_def)
  have "\<exists>res. codex_outcome ascii_tables sample_codex calm_install sample_home = Inr res \<and> cx_Action res = CodexRepair"
    by (simp add: codex_outcome_def sample_codex_facts sample_codex_url a planCodexConfig_def Let_def)
  then show thesis
    using sample_codex_step [of sample_codex, OF _ sample_codex_facts(2)] a(2) that
    by (metis sample_codex_facts(1) sample_home_def)
qed

lemma codex_install_idempotent_witness:
  "\<exists>res res' fs'. ApplyCodexIntegration ascii_tables sample_codex calm_install sample_home = (Inr res, fs') \<and>
     ApplyCodexIntegration ascii_tables sample_codex calm_install fs' = (Inr res', fs') \<and> \<not> cx_Changed res'"
proof -
  obtain res fs' where r: "ApplyCodexIntegration ascii_tables sample_codex calm_install sample_home = (Inr res, fs')"
    "cx_Action res \<noteq> CodexUninstall"
    by (rule sample_codex_run)
  have "\<exists>res'. ApplyCodexIntegration ascii_tables sample_codex calm_install fs' = (Inr res', fs') \<and> \<not> cx_Changed res' \<and>
    cx_Preview res' = cx_Preview res"
    by (rule codex_install_idempotent [OF r(1) _ r(2), of "''a = 1''"])
      (simp_all add: sample_codex_facts sample_codex_url, simp_all add: calm_install_def)
  then show ?thesis using r(1) by blast
qed

lemma codex_uninstall_restores_witness:
  "\<exists>res res' fs' fs''. ApplyCodexIntegration ascii_tables sample_codex calm_install sample_home = (Inr res, fs') \<and>
     ApplyCodexIntegration ascii_tables (sample_codex\<lparr>co_Action := CodexUninstall\<rparr>) calm_install fs' = (Inr res', fs'') \<and>
     readOptionalFile calm_install ''c'' fs'' = Inr (''a = 1'' @ [NL])"
proof -
  let ?u = "sample_codex\<lparr>co_Action := CodexUninstall\<rparr>"
  obtain res g where r: "ApplyCodexIntegration ascii_tables sample_codex calm_install sample_home = (Inr res, [(''c'', g)])"
    "cx_Action res \<noteq> CodexUninstall"
    by (rule sample_codex_run)
  have n: "ie_Read calm_install p = None" for p by (simp add: calm_install_def)
  have d: "codex_defaults ?u = ?u" "co_Action ?u = CodexUninstall" "co_ConfigPath ?u = ''c''"
    by (simp_all add: codex_defaults_def sample_codex_def CodexUninstall_def)
  have "\<exists>res'. codex_outcome ascii_tables ?u calm_install [(''c'', g)] = Inr res'"
    by (simp add: codex_outcome_def d sample_codex_facts(2) read_unfaulted n fs_lookup_def planCodexConfig_def CodexUninstall_def
        CodexInstall_def CodexRepair_def)
  then obtain res' h where u: "ApplyCodexIntegration ascii_tables ?u calm_install [(''c'', g)] = (Inr res', [(''c'', h)])"
    using sample_codex_step [of ?u] d by metis
  have "TrimRight ''a = 1'' line_ends @ (if TrimSpace ''a = 1'' = [] then [] else [NL]) = ''a = 1'' @ [NL]"
    by (simp add: go_eval)
  then show ?thesis
    using codex_uninstall_restores [OF r(1) u _ r(2), of "''a = 1''"] r(1) u n
    by (simp add: sample_codex_facts sample_codex_url)
qed

end
