(* ===== verification/Doctor.thy ===== *)
theory Doctor
  imports Install_Claude Install_Codex Platform_Paths Go_Mux
begin

text \<open>
  \<open>internal/doctor/doctor.go\<close>: nine checks of an installation and their report. What the network answers
  and what the files hold is the record \<open>doctor_env\<close>; it serves the checks that the configuration does not
  bring along itself.
\<close>

section \<open>State\<close>

datatype check_status = StatusOK | StatusWarn | StatusFail

fun status_text :: "check_status \<Rightarrow> string" where
  "status_text StatusOK = ''OK''"
| "status_text StatusWarn = ''WARN''"
| "status_text StatusFail = ''FAIL''"

record doctor_check =
  ck_Name :: string
  ck_Status :: check_status
  ck_Message :: string

text \<open>\<open>url.Error\<close>, the error of a parser of URLs and of an HTTP client, among the other errors.\<close>

record url_error =
  ue_Op :: string
  ue_URL :: string
  ue_Err :: string

datatype net_error = UrlError url_error | PlainError string

record doctor_env =
  de_Listen :: "string \<Rightarrow> string option"
  de_Do :: "url \<Rightarrow> url_error + int"
  de_ParseError :: "string \<Rightarrow> url_error"
  de_Read :: fault
  de_Fs :: fs

record doctor_config =
  dc_Version :: string
  dc_TargetURL :: string
  dc_ListenAddress :: string
  dc_Env :: "string \<rightharpoonup> string"
  dc_Paths :: paths
  dc_PathError :: "string option"
  dc_CodexConfigPath :: string
  dc_ClaudeSettingsPath :: string
  dc_ReadFile :: "(string \<Rightarrow> os_error + string) option"
  dc_CheckListen :: "(string \<Rightarrow> string option) option"
  dc_CheckReach :: "(string \<Rightarrow> string option) option"

abbreviation check :: "string \<Rightarrow> check_status \<Rightarrow> string \<Rightarrow> doctor_check" where
  "check name st message \<equiv> \<lparr>ck_Name = name, ck_Status = st, ck_Message = message\<rparr>"

section \<open>URLs\<close>

definition parseTargetURL :: "string \<Rightarrow> string + url" where
  "parseTargetURL raw =
     (if raw = [] then Inl ''target URL is required''
      else case url_Parse raw of
        None \<Rightarrow> Inl ''target URL must include scheme and host''
      | Some target \<Rightarrow>
          if u_Scheme target = [] \<or> u_Host target = [] then Inl ''target URL must include scheme and host''
          else Inr target)"

definition redactURL :: "url \<Rightarrow> url" where
  "redactURL value = (if u_User value \<noteq> None then value\<lparr>u_User := Some (''redacted'', Some ''redacted'')\<rparr> else value)"

definition sanitizeURLError :: "net_error \<Rightarrow> net_error" where
  "sanitizeURLError err =
     (case err of
        PlainError _ \<Rightarrow> err
      | UrlError urlErr \<Rightarrow>
          if ue_URL urlErr = [] then err
          else UrlError (urlErr\<lparr>ue_URL :=
            (case url_Parse (ue_URL urlErr) of None \<Rightarrow> ue_URL urlErr | Some parsed \<Rightarrow> url_String (redactURL parsed))\<rparr>))"

fun error_text :: "unicode_tables \<Rightarrow> net_error \<Rightarrow> string" where
  "error_text T (PlainError message) = message"
| "error_text T (UrlError err) = ue_Op err @ '' '' @ strconv_Quote T (ue_URL err) @ '': '' @ ue_Err err"

section \<open>Checks\<close>

definition checkVersion :: "string \<Rightarrow> doctor_check" where
  "checkVersion version =
     (if version = [] then check ''version'' StatusWarn ''version is not set''
      else check ''version'' StatusOK version)"

definition checkPaths :: "paths \<Rightarrow> string option \<Rightarrow> doctor_check" where
  "checkPaths paths err =
     (case err of
        Some message \<Rightarrow> check ''config-path'' StatusFail message
      | None \<Rightarrow>
          if ps_ConfigDir paths = [] \<or> ps_StateDir paths = [] \<or> ps_CacheDir paths = []
          then check ''config-path'' StatusFail ''config, state, and cache paths are required''
          else check ''config-path'' StatusOK (ps_ConfigDir paths))"

definition checkTargetURL :: "string \<Rightarrow> doctor_check" where
  "checkTargetURL raw =
     (case parseTargetURL raw of
        Inl message \<Rightarrow> check ''target-url'' StatusFail message
      | Inr target \<Rightarrow> check ''target-url'' StatusOK (url_String (redactURL target)))"

definition checkListen :: "doctor_env \<Rightarrow> string \<Rightarrow> (string \<Rightarrow> string option) option \<Rightarrow> doctor_check" where
  "checkListen env address chk =
     (if address = [] then check ''listen-port'' StatusFail ''listen address is required''
      else case (case chk of None \<Rightarrow> de_Listen env | Some f \<Rightarrow> f) address of
        Some message \<Rightarrow> check ''listen-port'' StatusFail message
      | None \<Rightarrow> check ''listen-port'' StatusOK address)"

definition DefaultCheckReachability :: "unicode_tables \<Rightarrow> doctor_env \<Rightarrow> string \<Rightarrow> string option" where
  "DefaultCheckReachability T env raw =
     (case NewRequest ''HEAD'' raw of
        None \<Rightarrow> Some (error_text T (sanitizeURLError (UrlError (de_ParseError env raw))))
      | Some (_, target) \<Rightarrow>
          (case de_Do env target of
             Inl err \<Rightarrow> Some (error_text T (sanitizeURLError (UrlError err)))
           | Inr code \<Rightarrow> if code \<ge> 500 then Some (''target returned status '' @ Itoa code) else None))"

definition checkReachability :: "unicode_tables \<Rightarrow> doctor_env \<Rightarrow> string \<Rightarrow> (string \<Rightarrow> string option) option \<Rightarrow> doctor_check" where
  "checkReachability T env raw chk =
     (case parseTargetURL raw of
        Inl _ \<Rightarrow> check ''provider-reachability'' StatusFail ''target URL is invalid''
      | Inr _ \<Rightarrow>
          (case (case chk of None \<Rightarrow> DefaultCheckReachability T env | Some f \<Rightarrow> f) raw of
             Some message \<Rightarrow> check ''provider-reachability'' StatusFail message
           | None \<Rightarrow> check ''provider-reachability'' StatusOK ''target responded''))"

definition envValue :: "(string \<rightharpoonup> string) \<Rightarrow> string \<Rightarrow> string" where
  "envValue env key = (case env key of None \<Rightarrow> [] | Some v \<Rightarrow> v)"

definition credential_keys :: "string list" where
  "credential_keys = [''CACHY_PROVIDER_API_KEY'', ''OPENAI_API_KEY'', ''ANTHROPIC_API_KEY'']"

definition checkCredentials :: "(string \<rightharpoonup> string) \<Rightarrow> doctor_check" where
  "checkCredentials env =
     (case find (\<lambda>key. envValue env key \<noteq> []) credential_keys of
        Some key \<Rightarrow> check ''credentials'' StatusOK (key @ '' is set'')
      | None \<Rightarrow> check ''credentials'' StatusWarn ''no provider credential found in environment'')"

definition readIntegrationFile ::
  "doctor_env \<Rightarrow> string \<Rightarrow> (string \<Rightarrow> os_error + string) option \<Rightarrow> os_error + string" where
  "readIntegrationFile env path readFile =
     (case readFile of None \<Rightarrow> os_ReadFile (de_Read env) path (de_Fs env) | Some f \<Rightarrow> f path)"

definition codex_command :: "string \<Rightarrow> string \<Rightarrow> string" where
  "codex_command action path = ''cachy integrations codex '' @ action @ '' --dry-run --config '' @ path"

definition codex_required :: "string list" where
  "codex_required = [''[model_providers.cachy]'', ''base_url ='', quoted_line ''env_key'' ''OPENAI_API_KEY'',
     quoted_line ''wire_api'' ''responses'']"

definition codex_check_text :: "string \<Rightarrow> string \<Rightarrow> doctor_check" where
  "codex_check_text path text =
     (let name = ''codex-integration'';
          hasBegin = Contains text ManagedCodexBegin; hasEnd = Contains text ManagedCodexEnd
      in if hasBegin \<noteq> hasEnd
         then check name StatusWarn (''Codex managed block is incomplete; run '' @ codex_command ''repair'' path)
         else if \<not> hasBegin
         then check name StatusWarn (''Codex integration is not configured; run '' @ codex_command ''install'' path)
         else if list_ex (\<lambda>required. \<not> Contains text required) codex_required
         then check name StatusWarn (''Codex managed block is incomplete; run '' @ codex_command ''repair'' path)
         else check name StatusOK (''configured in '' @ path @ ''; verify changes with '' @ codex_command ''repair'' path))"

definition checkCodexIntegration ::
  "doctor_env \<Rightarrow> string \<Rightarrow> (string \<Rightarrow> os_error + string) option \<Rightarrow> doctor_check" where
  "checkCodexIntegration env path readFile =
     (let name = ''codex-integration''
      in if path = []
         then check name StatusWarn
           ''Codex config path unavailable; set CODEX_HOME or HOME and run cachy integrations codex install --dry-run''
         else case readIntegrationFile env path readFile of
           Inl err \<Rightarrow>
             if err = OsNotExist
             then check name StatusWarn (''Codex integration is not configured; run '' @ codex_command ''install'' path)
             else check name StatusWarn (''Codex config could not be read; run '' @ codex_command ''repair'' path)
         | Inr text \<Rightarrow> codex_check_text path text)"

definition claude_command :: "string \<Rightarrow> string \<Rightarrow> string" where
  "claude_command action path = ''cachy integrations claude '' @ action @ '' --dry-run --settings '' @ path"

text \<open>A map under a key, the nil map when there is none: looking into it finds nothing.\<close>

definition map_at :: "settings \<Rightarrow> string \<Rightarrow> settings" where
  "map_at kvs key = (case map_of kvs key of Some (JObject c) \<Rightarrow> c | _ \<Rightarrow> [])"

definition settings_configured :: "settings \<Rightarrow> bool" where
  "settings_configured kvs \<longleftrightarrow>
     (let env = map_at kvs ''env''; metadata = map_at kvs ''cachy'';
          managed = (map_of metadata ''managed'' = Some (JBool True));
          currentURL = string_at env ''ANTHROPIC_BASE_URL''; managedURL = string_at metadata ''anthropic_base_url''
      in \<not> (\<not> managed \<or> currentURL = [] \<or> managedURL = [] \<or> currentURL \<noteq> managedURL))"

definition claude_check_text :: "string \<Rightarrow> string \<Rightarrow> doctor_check" where
  "claude_check_text path text =
     (let name = ''claude-integration''
      in case Unmarshal_map text of
           None \<Rightarrow> check name StatusWarn (''Claude settings are not valid JSON; run '' @ claude_command ''repair'' path)
         | Some kvs \<Rightarrow>
             if \<not> settings_configured (case kvs of None \<Rightarrow> [] | Some m \<Rightarrow> m)
             then check name StatusWarn (''Claude Cachy settings are incomplete; run '' @ claude_command ''repair'' path)
             else check name StatusOK (''configured in '' @ path @ ''; verify changes with '' @ claude_command ''repair'' path))"

definition checkClaudeIntegration ::
  "doctor_env \<Rightarrow> string \<Rightarrow> (string \<Rightarrow> os_error + string) option \<Rightarrow> doctor_check" where
  "checkClaudeIntegration env path readFile =
     (let name = ''claude-integration''
      in if path = []
         then check name StatusWarn
           ''Claude settings path unavailable; set CLAUDE_HOME or HOME and run cachy integrations claude install --dry-run''
         else case readIntegrationFile env path readFile of
           Inl err \<Rightarrow>
             if err = OsNotExist
             then check name StatusWarn (''Claude integration is not configured; run '' @ claude_command ''install'' path)
             else check name StatusWarn (''Claude settings could not be read; run '' @ claude_command ''repair'' path)
         | Inr text \<Rightarrow> claude_check_text path text)"

definition checkMCPRegistration :: "string \<Rightarrow> string \<Rightarrow> doctor_check" where
  "checkMCPRegistration rawTarget listen =
     (let name = ''mcp-registration''
      in case parseTargetURL rawTarget of
           Inl _ \<Rightarrow> check name StatusWarn ''MCP registration cannot be generated until target URL is valid''
         | Inr target \<Rightarrow>
             if listen = [] then check name StatusWarn ''MCP registration cannot be generated until listen address is set''
             else check name StatusOK (''generate dry-run registration with cachy integrations mcp --target '' @
               url_String (redactURL target) @ '' --listen '' @ listen))"

section \<open>The report\<close>

definition RunChecks :: "unicode_tables \<Rightarrow> doctor_env \<Rightarrow> doctor_config \<Rightarrow> doctor_check list" where
  "RunChecks T env config =
     [checkVersion (dc_Version config),
      checkPaths (dc_Paths config) (dc_PathError config),
      checkTargetURL (dc_TargetURL config),
      checkListen env (dc_ListenAddress config) (dc_CheckListen config),
      checkReachability T env (dc_TargetURL config) (dc_CheckReach config),
      checkCredentials (dc_Env config),
      checkCodexIntegration env (dc_CodexConfigPath config) (dc_ReadFile config),
      checkClaudeIntegration env (dc_ClaudeSettingsPath config) (dc_ReadFile config),
      checkMCPRegistration (dc_TargetURL config) (dc_ListenAddress config)]"

definition report_String :: "doctor_check list \<Rightarrow> string" where
  "report_String checks =
     concat (map (\<lambda>c. status_text (ck_Status c) @ '' '' @ ck_Name c @ '': '' @ ck_Message c @ [NL]) checks)"

definition HasFailures :: "doctor_check list \<Rightarrow> bool" where
  "HasFailures checks \<longleftrightarrow> list_ex (\<lambda>c. ck_Status c = StatusFail) checks"

section \<open>What makes the report fail\<close>

lemma check_statuses:
  "ck_Status (checkVersion v) \<noteq> StatusFail"
  "ck_Status (checkCredentials e) \<noteq> StatusFail"
  "ck_Status (codex_check_text p x) \<noteq> StatusFail"
  "ck_Status (claude_check_text p x) \<noteq> StatusFail"
  "ck_Status (checkMCPRegistration t l) \<noteq> StatusFail"
  by (auto simp: checkVersion_def checkCredentials_def codex_check_text_def claude_check_text_def
      checkMCPRegistration_def Let_def split: option.splits sum.splits)

lemma integration_statuses:
  "ck_Status (checkCodexIntegration env p r) \<noteq> StatusFail"
  "ck_Status (checkClaudeIntegration env p r) \<noteq> StatusFail"
  using check_statuses(3,4)
  by (auto simp: checkCodexIntegration_def checkClaudeIntegration_def Let_def split: sum.splits)

text \<open>The report fails exactly when the paths cannot be resolved or one is missing, the target URL is not
  absolute, the listen address is missing or cannot be listened on, or the target does not answer; a missing
  version, missing credentials and integrations that are not set up only warn.\<close>

theorem RunChecks_failures:
  "\<not> HasFailures (RunChecks T env config) \<longleftrightarrow>
     dc_PathError config = None \<and>
     [] \<notin> {ps_ConfigDir (dc_Paths config), ps_StateDir (dc_Paths config), ps_CacheDir (dc_Paths config)} \<and>
     (case parseTargetURL (dc_TargetURL config) of
        Inl _ \<Rightarrow> False
      | Inr _ \<Rightarrow> (case dc_CheckReach config of None \<Rightarrow> DefaultCheckReachability T env | Some f \<Rightarrow> f) (dc_TargetURL config) = None) \<and>
     dc_ListenAddress config \<noteq> [] \<and>
     (case dc_CheckListen config of None \<Rightarrow> de_Listen env | Some f \<Rightarrow> f) (dc_ListenAddress config) = None"
proof -
  have p: "ck_Status (checkPaths ps e) = StatusFail \<longleftrightarrow>
      e \<noteq> None \<or> [] \<in> {ps_ConfigDir ps, ps_StateDir ps, ps_CacheDir ps}" for ps e
    by (auto simp: checkPaths_def split: option.splits)
  have t: "ck_Status (checkTargetURL u) = StatusFail \<longleftrightarrow> (case parseTargetURL u of Inl _ \<Rightarrow> True | Inr _ \<Rightarrow> False)" for u
    by (simp add: checkTargetURL_def split: sum.split)
  have l: "ck_Status (checkListen env a c) = StatusFail \<longleftrightarrow>
      a = [] \<or> (case c of None \<Rightarrow> de_Listen env | Some f \<Rightarrow> f) a \<noteq> None" for a c
    by (simp add: checkListen_def split: option.split)
  have r: "ck_Status (checkReachability T env u c) = StatusFail \<longleftrightarrow>
      (case parseTargetURL u of Inl _ \<Rightarrow> True
       | Inr _ \<Rightarrow> (case c of None \<Rightarrow> DefaultCheckReachability T env | Some f \<Rightarrow> f) u \<noteq> None)" for u c
    unfolding checkReachability_def
    by (cases "parseTargetURL u"; cases "(case c of None \<Rightarrow> DefaultCheckReachability T env | Some f \<Rightarrow> f) u") simp_all
  show ?thesis
    by (cases "parseTargetURL (dc_TargetURL config)")
      (auto simp: HasFailures_def RunChecks_def p t l r check_statuses integration_statuses)
qed

section \<open>Credentials stay out of the report\<close>

text \<open>Two URLs that differ in credentials only, and two answers of the network that differ in the credentials
  of the URL of an error only.\<close>

definition same_but_credentials :: "url \<Rightarrow> url \<Rightarrow> bool" where
  "same_but_credentials u v \<longleftrightarrow> redactURL u = redactURL v"

definition alike_texts :: "string \<Rightarrow> string \<Rightarrow> bool" where
  "alike_texts raw raw' \<longleftrightarrow>
     (raw = [] \<longleftrightarrow> raw' = []) \<and>
     (case (url_Parse raw, url_Parse raw') of
        (Some u, Some v) \<Rightarrow> same_but_credentials u v | (None, None) \<Rightarrow> raw = raw' | _ \<Rightarrow> False)"

definition alike_answers :: "url_error + int \<Rightarrow> url_error + int \<Rightarrow> bool" where
  "alike_answers a b \<longleftrightarrow>
     (case (a, b) of
        (Inr c, Inr d) \<Rightarrow> c = d
      | (Inl e, Inl f) \<Rightarrow> ue_Op e = ue_Op f \<and> ue_Err e = ue_Err f \<and> alike_texts (ue_URL e) (ue_URL f)
      | _ \<Rightarrow> False)"

lemma same_fields:
  "same_but_credentials u v \<Longrightarrow> u_Scheme u = u_Scheme v \<and> u_Host u = u_Host v"
proof -
  have "u_Scheme (redactURL w) = u_Scheme w" "u_Host (redactURL w) = u_Host w" for w
    by (simp_all add: redactURL_def)
  then show "same_but_credentials u v \<Longrightarrow> u_Scheme u = u_Scheme v \<and> u_Host u = u_Host v"
    unfolding same_but_credentials_def by metis
qed

lemma sanitize_alike:
  assumes "ue_Op e = ue_Op f" "ue_Err e = ue_Err f" "alike_texts (ue_URL e) (ue_URL f)"
  shows "error_text T (sanitizeURLError (UrlError e)) = error_text T (sanitizeURLError (UrlError f))"
  using assms
  by (auto simp: sanitizeURLError_def alike_texts_def same_but_credentials_def split: option.splits)

text \<open>C37. The report is the same whatever the credentials are: the user and the password in the target URL
  and the values of the variables in the environment do not reach it, nor do the credentials in the errors
  that the network reports; only whether a variable is set does.\<close>

theorem doctor_hides_credentials:
  assumes "alike_texts raw raw'" and "dc_TargetURL config = raw"
    and "\<And>u v. url_Parse raw = Some u \<Longrightarrow> url_Parse raw' = Some v \<Longrightarrow>
      alike_answers (de_Do env (u\<lparr>u_Host := removeEmptyPort (u_Host u)\<rparr>)) (de_Do env (v\<lparr>u_Host := removeEmptyPort (u_Host v)\<rparr>))"
    and "list_all (\<lambda>key. envValue (dc_Env config) key = [] \<longleftrightarrow> envValue vars key = []) credential_keys"
    and "dc_CheckReach config = None"
  shows "report_String (RunChecks T env (config\<lparr>dc_TargetURL := raw', dc_Env := vars\<rparr>)) = report_String (RunChecks T env config)"
proof -
  have p: "case (parseTargetURL raw, parseTargetURL raw') of
      (Inr u, Inr v) \<Rightarrow> url_Parse raw = Some u \<and> url_Parse raw' = Some v \<and> same_but_credentials u v
    | (Inl m, Inl n) \<Rightarrow> m = n | _ \<Rightarrow> False"
    using assms(1) same_fields by (auto simp: parseTargetURL_def alike_texts_def split: option.splits)
  then have t: "checkTargetURL raw' = checkTargetURL raw"
    "checkMCPRegistration raw' (dc_ListenAddress config) = checkMCPRegistration raw (dc_ListenAddress config)"
    by (auto simp: checkTargetURL_def checkMCPRegistration_def Let_def same_but_credentials_def split: sum.splits)
  have "DefaultCheckReachability T env raw' = DefaultCheckReachability T env raw" if "parseTargetURL raw = Inr u" for u
  proof -
    obtain v where uv: "url_Parse raw = Some u" "url_Parse raw' = Some v" using p \<open>parseTargetURL raw = Inr u\<close>
      by (auto split: sum.splits)
    have "list_all header_byte ''HEAD''" by (simp add: header_byte_def)
    then show ?thesis
      using assms(3) [OF uv] sanitize_alike
      by (auto simp: DefaultCheckReachability_def NewRequest_def uv alike_answers_def split: sum.splits)
  qed
  then have r: "checkReachability T env raw' None = checkReachability T env raw None"
    using p by (auto simp: checkReachability_def split: sum.splits)
  have "checkCredentials vars = checkCredentials (dc_Env config)"
    using assms(4) by (auto simp: checkCredentials_def credential_keys_def)
  then show ?thesis using t r assms(2,5) by (simp add: RunChecks_def)
qed

section \<open>The doctor agrees with the integrations\<close>

lemma block_complete:
  "Contains (renderCodexManagedBlock T url b) ManagedCodexBegin"
  "Contains (renderCodexManagedBlock T url b) ManagedCodexEnd"
  "list_all (Contains (renderCodexManagedBlock T url b)) codex_required"
proof -
  let ?ls = "block_lines T url b"
  have l: "Contains (renderCodexManagedBlock T url b) x" if mem: "l \<in> set ?ls" and sub: "Contains l x" for l x
  proof -
    obtain as bs where "?ls = as @ l # bs" by (meson mem split_list)
    then have "renderCodexManagedBlock T url b = (ManagedCodexBegin @ [NL] @ concat (map (\<lambda>l. l @ [NL]) as)) @
        (l @ NL # concat (map (\<lambda>l. l @ [NL]) bs) @ ManagedCodexEnd @ [NL])"
      by (simp add: renderCodexManagedBlock_lines)
    then show ?thesis using sub by (simp only: Contains_append_left Contains_append_right)
  qed
  show "Contains (renderCodexManagedBlock T url b) ManagedCodexBegin"
    unfolding renderCodexManagedBlock_lines using Contains_middle [of "[]"] by simp
  show "Contains (renderCodexManagedBlock T url b) ManagedCodexEnd"
    unfolding renderCodexManagedBlock_lines append_assoc [symmetric]
    by (rule Contains_append_right, rule Contains_append_left) (use Contains_middle [of "[]" _ "[]"] in simp)
  have "''base_url = '' @ strconv_Quote T url \<in> set ?ls" "''[model_providers.cachy]'' \<in> set ?ls"
    "quoted_line ''env_key'' ''OPENAI_API_KEY'' \<in> set ?ls" "quoted_line ''wire_api'' ''responses'' \<in> set ?ls"
    by (simp_all add: block_lines_def)
  moreover have "Contains (''base_url = '' @ t) ''base_url =''" for t
    using Contains_middle [of "[]" "''base_url =''" "'' '' @ t"] by simp
  moreover have "Contains x x" for x using Contains_middle [of "[]" x "[]"] by simp
  ultimately show "list_all (Contains (renderCodexManagedBlock T url b)) codex_required"
    using l by (simp add: codex_required_def)
qed

lemma codex_check_installed:
  "ck_Status (codex_check_text path (appendBlock text (renderCodexManagedBlock T url b))) = StatusOK"
proof -
  obtain pre where a: "appendBlock text (renderCodexManagedBlock T url b) = pre @ renderCodexManagedBlock T url b"
    by (cases "TrimRight text line_ends = []") (auto simp: appendBlock_def)
  have "\<not> list_ex (\<lambda>r. \<not> Contains (pre @ renderCodexManagedBlock T url b) r) codex_required"
    using block_complete(3) [of T url b] Contains_append_left by (auto simp: list_ex_iff list_all_iff)
  then show ?thesis
    by (simp add: codex_check_text_def a Let_def Contains_append_left block_complete)
qed

lemma read_nonempty:
  "readOptionalFile env path fs = Inr t \<Longrightarrow> t \<noteq> [] \<Longrightarrow> os_ReadFile (ie_Read env) path fs = Inr t"
  by (auto simp: readOptionalFile_def split: sum.splits if_splits)

text \<open>Once an installation into the configuration of Codex has succeeded, the doctor finds the integration in
  order, whatever the configuration held before.\<close>

lemma codex_check_after:
  assumes "ApplyCodexIntegration T options env fs = (Inr res, fs')" and "\<not> co_DryRun options"
    and "cx_Action res \<noteq> CodexUninstall"
    and "ie_Read env (co_ConfigPath options) = None" and "de_Read denv (co_ConfigPath options) = None"
  shows "ck_Status (checkCodexIntegration (denv\<lparr>de_Fs := fs'\<rparr>) (co_ConfigPath options) None) = StatusOK"
proof -
  let ?p = "co_ConfigPath options" and ?e = "env\<lparr>ie_Read := de_Read denv\<rparr>"
  note r = codex.run_Inr [OF assms(1)]
  obtain current where "planCodexConfig T current (codex_defaults options) = Inr (cx_Preview res, cx_Message res)"
    "cx_Action res = co_Action (codex_defaults options)"
    by (rule codex_outcome_Inr [OF r(2)]) simp
  then obtain url b where t: "cx_Preview res = appendBlock (removeManagedBlock current) (renderCodexManagedBlock T url b)"
    using planCodexConfig_install assms(3) by metis
  have "appendBlock x (renderCodexManagedBlock T url b) \<noteq> []" for x
    by (simp add: appendBlock_def Let_def renderCodexManagedBlock_def)
  then have "os_ReadFile (de_Read denv) ?p fs' = Inr (cx_Preview res)"
    using read_nonempty [OF codex_read_after [OF assms(1,2,4), of ?e]] assms(5) by (simp add: t)
  then show ?thesis
    using r(1) codex_check_installed by (simp add: checkCodexIntegration_def readIntegrationFile_def t)
qed

section \<open>Concrete reports\<close>

definition quiet_env :: doctor_env where
  "quiet_env = \<lparr>de_Listen = Map.empty, de_Do = (\<lambda>_. Inr 200), de_ParseError = (\<lambda>raw. \<lparr>ue_Op = ''parse'', ue_URL = raw, ue_Err = ''bad''\<rparr>),
     de_Read = Map.empty, de_Fs = []\<rparr>"

definition sample_doctor :: doctor_config where
  "sample_doctor = \<lparr>dc_Version = ''1'', dc_TargetURL = ''http://a:b@h'', dc_ListenAddress = '':1'',
     dc_Env = [''OPENAI_API_KEY'' \<mapsto> ''k''],
     dc_Paths = \<lparr>ps_ConfigDir = ''c'', ps_StateDir = ''s'', ps_CacheDir = ''d''\<rparr>, dc_PathError = None,
     dc_CodexConfigPath = [], dc_ClaudeSettingsPath = [], dc_ReadFile = None, dc_CheckListen = None, dc_CheckReach = None\<rparr>"

lemma doctor_hides_credentials_witness:
  "report_String (RunChecks ascii_tables quiet_env (sample_doctor\<lparr>dc_TargetURL := ''http://x:y@h'', dc_Env := [''OPENAI_API_KEY'' \<mapsto> ''z'']\<rparr>)) =
   report_String (RunChecks ascii_tables quiet_env sample_doctor)"
proof (rule doctor_hides_credentials)
  have "url_Parse ''http://a:b@h'' = Some (zero_url\<lparr>u_Scheme := ''http'', u_User := Some (''a'', Some ''b''), u_Host := ''h''\<rparr>)"
    "url_Parse ''http://x:y@h'' = Some (zero_url\<lparr>u_Scheme := ''http'', u_User := Some (''x'', Some ''y''), u_Host := ''h''\<rparr>)"
    by (simp_all add: go_eval)
  then show "alike_texts ''http://a:b@h'' ''http://x:y@h''"
    by (simp add: alike_texts_def same_but_credentials_def redactURL_def)
qed (simp_all add: sample_doctor_def quiet_env_def alike_answers_def credential_keys_def envValue_def)

end
