(* ===== verification/Install_Recipes.thy ===== *)
theory Install_Recipes
  imports Install_Claude
begin

text \<open>
  \<open>internal/install/recipes.go\<close>: the endpoints Cachy knows by name, and the text and the JSON that tell
  a client how to reach one through the proxy.
\<close>

record endpoint_recipe =
  er_Name :: string
  er_DisplayName :: string
  er_TargetBaseURL :: string
  er_Notes :: "string list"

record recipe_options =
  ro_CachyBaseURL :: string

record mcp_options =
  mo_Command :: string
  mo_ListenAddress :: string
  mo_TargetBaseURL :: string

datatype recipe_error = UnknownRecipe string | RecipeURL install_error

definition endpointRecipes :: "endpoint_recipe list" where
  "endpointRecipes =
     [\<lparr>er_Name = ''ollama'', er_DisplayName = ''Ollama'', er_TargetBaseURL = ''http://127.0.0.1:11434'',
       er_Notes = [''Ollama exposes an OpenAI-compatible API under /v1.'']\<rparr>,
      \<lparr>er_Name = ''llama.cpp'', er_DisplayName = ''llama.cpp server'', er_TargetBaseURL = ''http://127.0.0.1:8080'',
       er_Notes = [''Start llama.cpp server with OpenAI-compatible HTTP support.'']\<rparr>,
      \<lparr>er_Name = ''lm-studio'', er_DisplayName = ''LM Studio'', er_TargetBaseURL = ''http://127.0.0.1:1234'',
       er_Notes = [''Enable LM Studio'' @ [CHR 0x27] @ ''s local server before starting Cachy.'']\<rparr>,
      \<lparr>er_Name = ''vllm'', er_DisplayName = ''vLLM'', er_TargetBaseURL = ''http://127.0.0.1:8000'',
       er_Notes = [''Use vLLM'' @ [CHR 0x27] @ ''s OpenAI-compatible server endpoint.'']\<rparr>,
      \<lparr>er_Name = ''localai'', er_DisplayName = ''LocalAI'', er_TargetBaseURL = ''http://127.0.0.1:8080'',
       er_Notes = [''Use LocalAI'' @ [CHR 0x27] @ ''s OpenAI-compatible endpoint.'']\<rparr>]"

definition EndpointRecipes :: "endpoint_recipe list" where
  "EndpointRecipes = endpointRecipes"

definition EndpointRecipeByName :: "unicode_tables \<Rightarrow> string \<Rightarrow> recipe_error + endpoint_recipe" where
  "EndpointRecipeByName T name =
     (case find (\<lambda>recipe. er_Name recipe = ToLower T (TrimSpace name)) endpointRecipes of
        Some recipe \<Rightarrow> Inr recipe
      | None \<Rightarrow> Inl (UnknownRecipe name))"

definition CustomEndpointRecipe :: "string \<Rightarrow> recipe_error + endpoint_recipe" where
  "CustomEndpointRecipe targetBaseURL =
     (case validateBaseURL targetBaseURL of
        Some err \<Rightarrow> Inl (RecipeURL err)
      | None \<Rightarrow> Inr \<lparr>er_Name = ''custom'', er_DisplayName = ''Custom OpenAI-compatible endpoint'',
          er_TargetBaseURL = targetBaseURL, er_Notes = [''Use this for any OpenAI-compatible HTTP backend.'']\<rparr>)"

definition listenAddressFromBaseURL :: "string \<Rightarrow> string" where
  "listenAddressFromBaseURL raw =
     (case url_Parse raw of
        None \<Rightarrow> ''127.0.0.1:8787''
      | Some parsed \<Rightarrow> if u_Host parsed = [] then ''127.0.0.1:8787'' else u_Host parsed)"

definition recipe_lines :: "string \<Rightarrow> endpoint_recipe \<Rightarrow> string list" where
  "recipe_lines cachyBaseURL recipe =
     [''# '' @ er_DisplayName recipe, ''Start Cachy:'',
      ''cachy proxy --listen '' @ listenAddressFromBaseURL cachyBaseURL @ '' --target '' @ er_TargetBaseURL recipe, [],
      ''Point OpenAI-compatible clients at Cachy:'', ''OPENAI_BASE_URL='' @ cachyBaseURL @ ''/v1'',
      ''CACHY_TARGET_BASE_URL='' @ er_TargetBaseURL recipe] @
     concat (map (\<lambda>note. [[], ''Note: '' @ note]) (er_Notes recipe))"

definition RenderEndpointRecipe :: "endpoint_recipe \<Rightarrow> recipe_options \<Rightarrow> recipe_error + string" where
  "RenderEndpointRecipe recipe options =
     (let trimmed = TrimRight (ro_CachyBaseURL options) ''/'';
          cachyBaseURL = (if trimmed = [] then ''http://127.0.0.1:8787'' else trimmed)
      in (case validateBaseURL cachyBaseURL of
            Some err \<Rightarrow> Inl (RecipeURL err)
          | None \<Rightarrow>
              (case validateBaseURL (er_TargetBaseURL recipe) of
                 Some err \<Rightarrow> Inl (RecipeURL err)
               | None \<Rightarrow> Inr (Join (recipe_lines cachyBaseURL recipe) [NL] @ [NL]))))"

text \<open>The entries of the registration stand in the order of the encoder.\<close>

definition mcp_registration :: "mcp_options \<Rightarrow> settings" where
  "mcp_registration options =
     [(''mcpServers'', JObject [(''cachy'', JObject
        [(''args'', JArray (map JString [''proxy'', ''--listen'', mo_ListenAddress options,
            ''--target'', mo_TargetBaseURL options])),
         (''command'', JString (mo_Command options))])])]"

definition mcp_defaults :: "mcp_options \<Rightarrow> mcp_options" where
  "mcp_defaults options =
     (let options = (if mo_Command options = [] then options\<lparr>mo_Command := ''cachy''\<rparr> else options)
      in if mo_ListenAddress options = [] then options\<lparr>mo_ListenAddress := ''127.0.0.1:8787''\<rparr> else options)"

definition RenderMCPRegistration :: "mcp_options \<Rightarrow> recipe_error + string" where
  "RenderMCPRegistration options =
     (case validateBaseURL (mo_TargetBaseURL options) of
        Some err \<Rightarrow> Inl (RecipeURL err)
      | None \<Rightarrow> Inr (marshalSettings (mcp_registration (mcp_defaults options))))"

section \<open>Recipes\<close>

lemma endpoint_recipes_valid: "list_all (\<lambda>r. validateBaseURL (er_TargetBaseURL r) = None) endpointRecipes"
  by (simp add: endpointRecipes_def validateBaseURL_def go_eval)

end
