(* ===== verification/Cli.thy ===== *)
theory Cli
  imports Go_Flag Doctor Install_Recipes Plugin_Lifecycle Proxy
begin

text \<open>
  \<open>internal/cli/cli.go\<close>: the commands of \<open>cachy\<close>. A command returns its exit code, what it prints on
  standard output, what it reports on standard error and the files it leaves. Diagnostics are values: the
  texts that the package \<open>flag\<close> and the errors of other packages print are not modelled, which error is
  reported is. What a command depends on, the \<open>Deps\<close> of the code and the process around it, is the record
  \<open>deps\<close>; its functions are those the code falls back to when one is nil.
\<close>

section \<open>State\<close>

definition DefaultListenAddress :: string where "DefaultListenAddress = ''127.0.0.1:8787''"

record cli_proxy_config =
  cp_Listen :: string
  cp_TargetBaseURL :: string

datatype diagnostic =
    UsageLine string
  | GeneralUsage
  | FlagFailed flag_error
  | Message string
  | Unknown string string
  | ResolveFailed string install_error
  | InstallFailed string install_error
  | RecipeFailed string recipe_error
  | PluginFailed string plugin_error
  | ProxyStopped string

record cli_result =
  rs_Code :: int
  rs_Stdout :: string
  rs_Stderr :: "diagnostic list"
  rs_Fs :: fs

record deps =
  dp_Getenv :: "string \<Rightarrow> string"
  dp_ServeProxy :: "cli_proxy_config \<Rightarrow> string option"
  dp_RunDoctor :: "doctor_config \<Rightarrow> doctor_check list"
  dp_RunPlugin :: "host_runner option"
  dp_Tables :: unicode_tables
  dp_Host :: host
  dp_Install :: install_env
  dp_Plugin :: plugin_env
  dp_Engine :: wasm_engine
  dp_SortPlugins :: "info list \<Rightarrow> info list"

definition finish :: "int \<Rightarrow> string \<Rightarrow> fs \<Rightarrow> cli_result" where
  "finish code out fs = \<lparr>rs_Code = code, rs_Stdout = out, rs_Stderr = [], rs_Fs = fs\<rparr>"

definition stop :: "int \<Rightarrow> diagnostic list \<Rightarrow> fs \<Rightarrow> cli_result" where
  "stop code ds fs = \<lparr>rs_Code = code, rs_Stdout = [], rs_Stderr = ds, rs_Fs = fs\<rparr>"

text \<open>The values of the flags, or exit code 2; arguments that are left over are ignored.\<close>

definition with_flags :: "flag_set \<Rightarrow> string list \<Rightarrow> fs \<Rightarrow> (flag_set \<Rightarrow> cli_result) \<Rightarrow> cli_result" where
  "with_flags f args fs k =
     (case flags_Parse f args of Inl err \<Rightarrow> stop 2 [FlagFailed err] fs | Inr (g, _) \<Rightarrow> k g)"

definition line :: "string list \<Rightarrow> string" where
  "line parts = concat parts @ [NL]"

definition bool_text :: "bool \<Rightarrow> string" where
  "bool_text b = (if b then ''true'' else ''false'')"

section \<open>The environment\<close>

definition doctor_keys :: "string list" where
  "doctor_keys = [''CACHY_TARGET_BASE_URL'', ''CACHY_PROVIDER_API_KEY'', ''OPENAI_API_KEY'', ''ANTHROPIC_API_KEY'',
     ''HOME'', ''USERPROFILE'', ''APPDATA'', ''LOCALAPPDATA'', ''XDG_CONFIG_HOME'', ''XDG_STATE_HOME'',
     ''XDG_CACHE_HOME'', ''CODEX_HOME'', ''CLAUDE_HOME'']"

definition collectDoctorEnv :: "(string \<Rightarrow> string) \<Rightarrow> string \<rightharpoonup> string" where
  "collectDoctorEnv getenv = (\<lambda>key. if key \<in> set doctor_keys then Some (getenv key) else None)"

definition homeFromEnv :: "(string \<rightharpoonup> string) \<Rightarrow> string" where
  "homeFromEnv env = (if envValue env ''HOME'' \<noteq> [] then envValue env ''HOME'' else envValue env ''USERPROFILE'')"

definition resolve_paths :: "deps \<Rightarrow> error + paths" where
  "resolve_paths d =
     ResolvePaths (dp_Host d) \<lparr>po_GOOS = [], po_HomeDir = [], po_Env = Some (collectDoctorEnv (dp_Getenv d))\<rparr>"

definition defaultPluginDir :: "deps \<Rightarrow> string" where
  "defaultPluginDir d =
     (if dp_Getenv d ''CACHY_PLUGIN_DIR'' \<noteq> [] then dp_Getenv d ''CACHY_PLUGIN_DIR''
      else case resolve_paths d of
        Inl _ \<Rightarrow> ''plugins''
      | Inr paths \<Rightarrow> path_Join [ps_StateDir paths, ''plugins''])"

section \<open>Plugins\<close>

definition enabledLabel :: "bool \<Rightarrow> string" where
  "enabledLabel enabled = (if enabled then ''enabled'' else ''disabled'')"

definition plugin_row :: "info \<Rightarrow> string" where
  "plugin_row i = line [mf_Name (in_Manifest i), [TAB], enabledLabel (in_Enabled i), [TAB],
     Join (ca_Compress (mf_Capabilities (in_Manifest i))) '','']"

definition printPluginInfo :: "info \<Rightarrow> string" where
  "printPluginInfo i =
     (let m = in_Manifest i
      in line [''name: '', mf_Name m] @ line [''version: '', mf_Version m] @
         line [''api_version: '', mf_APIVersion m] @ line [''status: '', enabledLabel (in_Enabled i)] @
         line [''compress: '', Join (ca_Compress (mf_Capabilities m)) '',''] @
         line [''timeout_ms: '', Itoa (li_TimeoutMS (mf_Limits m))] @
         line [''memory_mb: '', Itoa (li_MemoryMB (mf_Limits m))])"

definition plugin_usage :: diagnostic where
  "plugin_usage = UsageLine ''usage: cachy plugin <list|inspect|enable|disable|test> [options]''"

definition dir_flag :: "deps \<Rightarrow> flag_set" where
  "dir_flag d = \<lparr>fl_Strings = [(''dir'', defaultPluginDir d)], fl_Bools = []\<rparr>"

text \<open>The name that follows a plugin command, and the arguments after it.\<close>

definition pluginNameArg :: "string list \<Rightarrow> string \<Rightarrow> fs \<Rightarrow> (string \<Rightarrow> string list \<Rightarrow> cli_result) \<Rightarrow> cli_result" where
  "pluginNameArg args command fs k =
     (case args of
        [] \<Rightarrow> stop 2 [UsageLine (''usage: cachy plugin '' @ command @ '' <name> [options]'')] fs
      | name # remaining \<Rightarrow> k name remaining)"

definition plugin_list :: "deps \<Rightarrow> string list \<Rightarrow> fs \<Rightarrow> cli_result" where
  "plugin_list d args fs =
     with_flags (dir_flag d) args fs (\<lambda>f.
       case ListPlugins (dp_SortPlugins d) (dp_Plugin d) (string_flag f ''dir'') fs of
         Inl err \<Rightarrow> stop 1 [PluginFailed ''list'' err] fs
       | Inr plugins \<Rightarrow> finish 0 (concat (map plugin_row plugins)) fs)"

definition plugin_inspect :: "deps \<Rightarrow> string list \<Rightarrow> fs \<Rightarrow> cli_result" where
  "plugin_inspect d args fs =
     pluginNameArg args ''inspect'' fs (\<lambda>name remaining.
       with_flags (dir_flag d) remaining fs (\<lambda>f.
         case InspectPlugin (dp_Plugin d) (string_flag f ''dir'') name fs of
           Inl err \<Rightarrow> stop 1 [PluginFailed ''inspect'' err] fs
         | Inr i \<Rightarrow> finish 0 (printPluginInfo i) fs))"

definition plugin_switch :: "deps \<Rightarrow> string \<Rightarrow> string list \<Rightarrow> fs \<Rightarrow> cli_result" where
  "plugin_switch d command args fs =
     pluginNameArg args command fs (\<lambda>name remaining.
       with_flags (dir_flag d) remaining fs (\<lambda>f.
         case SetEnabled (dp_Plugin d) (ie_Now (dp_Install d)) (string_flag f ''dir'') name (command = ''enable'') fs of
           (Some err, fs') \<Rightarrow> stop 1 [PluginFailed command err] fs'
         | (None, fs') \<Rightarrow> finish 0 (line [name, '' '', enabledLabel (command = ''enable'')]) fs'))"

definition plugin_test :: "deps \<Rightarrow> string list \<Rightarrow> fs \<Rightarrow> cli_result" where
  "plugin_test d args fs =
     pluginNameArg args ''test'' fs (\<lambda>name remaining.
       with_flags (dir_flag d\<lparr>fl_Strings := [(''dir'', defaultPluginDir d), (''fixture'', [])]\<rparr>) remaining fs (\<lambda>f.
         if string_flag f ''fixture'' = [] then stop 2 [Message ''missing --fixture''] fs
         else case TestPlugin (dp_Engine d) (dp_Plugin d)
             \<lparr>to_RootDir = string_flag f ''dir'', to_Name = name, to_FixturePath = string_flag f ''fixture'',
              to_Runner = dp_RunPlugin d\<rparr> fs of
           Inl err \<Rightarrow> stop 1 [PluginFailed ''test'' err] fs
         | Inr result \<Rightarrow>
             finish 0 (line [''plugin: '', mf_Name (in_Manifest (tr_Plugin result))] @
               line [''action: '', ot_Action (tr_Output result)] @
               line [''text_bytes: '', Itoa (int (length (ot_Text (tr_Output result))))] @
               line [''summary: '', ot_Summary (tr_Output result)]) fs))"

definition runPluginCommand :: "deps \<Rightarrow> string list \<Rightarrow> fs \<Rightarrow> cli_result" where
  "runPluginCommand d args fs =
     (case args of
        [] \<Rightarrow> stop 2 [plugin_usage] fs
      | command # rest \<Rightarrow>
          if command = ''list'' then plugin_list d rest fs
          else if command = ''inspect'' then plugin_inspect d rest fs
          else if command = ''enable'' \<or> command = ''disable'' then plugin_switch d command rest fs
          else if command = ''test'' then plugin_test d rest fs
          else stop 2 [Unknown ''plugin command'' command] fs)"

section \<open>Integrations\<close>

text \<open>What the commands of both agents print of a run.\<close>

definition integration_report :: "string \<Rightarrow> string \<Rightarrow> bool \<Rightarrow> bool \<Rightarrow> string \<Rightarrow> string" where
  "integration_report message path changed dry preview =
     line [message] @ line [''path: '', path] @ line [''changed: '', bool_text changed] @
     (if dry then [NL] @ preview else [])"

definition codex_flags :: flag_set where
  "codex_flags = \<lparr>fl_Strings = [(''config'', []), (''proxy-base-url'', ''http://127.0.0.1:8787/v1'')],
     fl_Bools = [(''dry-run'', False)]\<rparr>"

definition codex_path :: "deps \<Rightarrow> string \<Rightarrow> install_error + string" where
  "codex_path d path =
     (if path = [] then DefaultCodexConfigPath (dp_Getenv d ''HOME'') (dp_Getenv d ''CODEX_HOME'') else Inr path)"

definition codex_options_of :: "string \<Rightarrow> string \<Rightarrow> flag_set \<Rightarrow> codex_options" where
  "codex_options_of action path f =
     \<lparr>co_Action = action, co_ConfigPath = path, co_ProxyBaseURL = string_flag f ''proxy-base-url'',
      co_DryRun = bool_flag f ''dry-run''\<rparr>"

definition runCodexIntegrationCommand :: "deps \<Rightarrow> string list \<Rightarrow> fs \<Rightarrow> cli_result" where
  "runCodexIntegrationCommand d args fs =
     (case args of
        [] \<Rightarrow> stop 2 [UsageLine ''usage: cachy integrations codex <install|repair|uninstall> [options]''] fs
      | action # rest \<Rightarrow>
          with_flags codex_flags rest fs (\<lambda>f.
            case codex_path d (string_flag f ''config'') of
              Inl err \<Rightarrow> stop 2 [ResolveFailed ''Codex config'' err] fs
            | Inr path \<Rightarrow>
                (case ApplyCodexIntegration (dp_Tables d) (codex_options_of action path f) (dp_Install d) fs of
                   (Inl err, fs') \<Rightarrow> stop 1 [InstallFailed ''Codex'' err] fs'
                 | (Inr r, fs') \<Rightarrow>
                     finish 0 (integration_report (cx_Message r) (cx_Path r) (cx_Changed r) (cx_DryRun r) (cx_Preview r)) fs')))"

definition claude_flags :: flag_set where
  "claude_flags = \<lparr>fl_Strings = [(''settings'', []), (''anthropic-base-url'', ''http://127.0.0.1:8787'')],
     fl_Bools = [(''dry-run'', False)]\<rparr>"

definition claude_path :: "deps \<Rightarrow> string \<Rightarrow> install_error + string" where
  "claude_path d path =
     (if path = [] then DefaultClaudeSettingsPath (dp_Getenv d ''HOME'') (dp_Getenv d ''CLAUDE_HOME'') else Inr path)"

definition claude_options_of :: "string \<Rightarrow> string \<Rightarrow> flag_set \<Rightarrow> claude_options" where
  "claude_options_of action path f =
     \<lparr>cl_Action = action, cl_SettingsPath = path, cl_AnthropicBaseURL = string_flag f ''anthropic-base-url'',
      cl_DryRun = bool_flag f ''dry-run''\<rparr>"

definition runClaudeIntegrationCommand :: "deps \<Rightarrow> string list \<Rightarrow> fs \<Rightarrow> cli_result" where
  "runClaudeIntegrationCommand d args fs =
     (case args of
        [] \<Rightarrow> stop 2 [UsageLine ''usage: cachy integrations claude <install|repair|uninstall> [options]''] fs
      | action # rest \<Rightarrow>
          with_flags claude_flags rest fs (\<lambda>f.
            case claude_path d (string_flag f ''settings'') of
              Inl err \<Rightarrow> stop 2 [ResolveFailed ''Claude settings'' err] fs
            | Inr path \<Rightarrow>
                (case ApplyClaudeIntegration (claude_options_of action path f) (dp_Install d) fs of
                   (Inl err, fs') \<Rightarrow> stop 1 [InstallFailed ''Claude'' err] fs'
                 | (Inr r, fs') \<Rightarrow>
                     finish 0 (integration_report (cr_Message r) (cr_Path r) (cr_Changed r) (cr_DryRun r) (cr_Preview r)) fs')))"

definition recipe_flags :: flag_set where
  "recipe_flags = \<lparr>fl_Strings = [(''cachy-base-url'', ''http://127.0.0.1:8787''), (''target'', [])], fl_Bools = []\<rparr>"

definition runRecipeCommand :: "deps \<Rightarrow> string list \<Rightarrow> fs \<Rightarrow> cli_result" where
  "runRecipeCommand d args fs =
     (case args of
        [] \<Rightarrow> stop 2 [UsageLine ''usage: cachy integrations recipe <name|custom> [options]''] fs
      | name # rest \<Rightarrow>
          with_flags recipe_flags rest fs (\<lambda>f.
            case (if name = ''custom'' then CustomEndpointRecipe (string_flag f ''target'')
                  else EndpointRecipeByName (dp_Tables d) name) of
              Inl err \<Rightarrow> stop 1 [RecipeFailed ''recipe'' err] fs
            | Inr recipe \<Rightarrow>
                (case RenderEndpointRecipe recipe \<lparr>ro_CachyBaseURL = string_flag f ''cachy-base-url''\<rparr> of
                   Inl err \<Rightarrow> stop 1 [RecipeFailed ''recipe'' err] fs
                 | Inr rendered \<Rightarrow> finish 0 rendered fs)))"

definition mcp_flags :: flag_set where
  "mcp_flags = \<lparr>fl_Strings = [(''command'', ''cachy''), (''listen'', DefaultListenAddress), (''target'', [])], fl_Bools = []\<rparr>"

definition runMCPCommand :: "string list \<Rightarrow> fs \<Rightarrow> cli_result" where
  "runMCPCommand args fs =
     with_flags mcp_flags args fs (\<lambda>f.
       case RenderMCPRegistration \<lparr>mo_Command = string_flag f ''command'', mo_ListenAddress = string_flag f ''listen'',
           mo_TargetBaseURL = string_flag f ''target''\<rparr> of
         Inl err \<Rightarrow> stop 1 [RecipeFailed ''MCP registration'' err] fs
       | Inr rendered \<Rightarrow> finish 0 rendered fs)"

definition runIntegrationsCommand :: "deps \<Rightarrow> string list \<Rightarrow> fs \<Rightarrow> cli_result" where
  "runIntegrationsCommand d args fs =
     (if length args < 2 then stop 2 [UsageLine ''usage: cachy integrations <codex|claude|recipe|mcp> ...''] fs
      else if hd args = ''codex'' then runCodexIntegrationCommand d (tl args) fs
      else if hd args = ''claude'' then runClaudeIntegrationCommand d (tl args) fs
      else if hd args = ''recipe'' then runRecipeCommand d (tl args) fs
      else if hd args = ''mcp'' then runMCPCommand (tl args) fs
      else stop 2 [Unknown ''integration'' (hd args)] fs)"

section \<open>Proxy and doctor\<close>

definition target_flags :: "deps \<Rightarrow> flag_set" where
  "target_flags d = \<lparr>fl_Strings = [(''listen'', DefaultListenAddress), (''target'', dp_Getenv d ''CACHY_TARGET_BASE_URL'')],
     fl_Bools = []\<rparr>"

definition runProxy :: "deps \<Rightarrow> string list \<Rightarrow> fs \<Rightarrow> cli_result" where
  "runProxy d args fs =
     with_flags (target_flags d) args fs (\<lambda>f.
       if string_flag f ''target'' = []
       then stop 2 [Message ''missing upstream target: set --target or CACHY_TARGET_BASE_URL''] fs
       else case dp_ServeProxy d \<lparr>cp_Listen = string_flag f ''listen'', cp_TargetBaseURL = string_flag f ''target''\<rparr> of
         Some err \<Rightarrow> stop 1 [ProxyStopped err] fs
       | None \<Rightarrow> finish 0 [] fs)"

definition doctor_config_of :: "deps \<Rightarrow> string \<Rightarrow> string \<Rightarrow> doctor_config" where
  "doctor_config_of d target listen =
     (let env = collectDoctorEnv (dp_Getenv d); home = homeFromEnv env
      in \<lparr>dc_Version = ''dev'', dc_TargetURL = target, dc_ListenAddress = listen, dc_Env = env,
          dc_Paths = (case resolve_paths d of Inl _ \<Rightarrow> \<lparr>ps_ConfigDir = [], ps_StateDir = [], ps_CacheDir = []\<rparr> | Inr p \<Rightarrow> p),
          dc_PathError = (case resolve_paths d of Inl err \<Rightarrow> Some err | Inr _ \<Rightarrow> None),
          dc_CodexConfigPath = (case DefaultCodexConfigPath home (envValue env ''CODEX_HOME'') of Inl _ \<Rightarrow> [] | Inr p \<Rightarrow> p),
          dc_ClaudeSettingsPath = (case DefaultClaudeSettingsPath home (envValue env ''CLAUDE_HOME'') of Inl _ \<Rightarrow> [] | Inr p \<Rightarrow> p),
          dc_ReadFile = None, dc_CheckListen = None, dc_CheckReach = None\<rparr>)"

definition runDoctorCommand :: "deps \<Rightarrow> string list \<Rightarrow> fs \<Rightarrow> cli_result" where
  "runDoctorCommand d args fs =
     with_flags (target_flags d) args fs (\<lambda>f.
       let checks = dp_RunDoctor d (doctor_config_of d (string_flag f ''target'') (string_flag f ''listen''))
       in finish (if HasFailures checks then 1 else 0) (report_String checks) fs)"

text \<open>The proxy that is served by default: its handler, or why it cannot be had, and then what the server
  ends with, \<open>None\<close> for \<open>http.ErrServerClosed\<close>.\<close>

definition ServeProxy ::
  "unicode_tables \<Rightarrow> log_entry list \<Rightarrow>
   (string \<Rightarrow> (upstream_env \<Rightarrow> http_request \<Rightarrow> proxy_effect) \<Rightarrow> string option) \<Rightarrow> cli_proxy_config \<Rightarrow> string option" where
  "ServeProxy T logged ListenAndServe config =
     (case New_proxy T \<lparr>pc_TargetBaseURL = cp_TargetBaseURL config, pc_Logger = Some logged, pc_Telemetry = None\<rparr> of
        Inl err \<Rightarrow> Some (''failed to configure proxy: '' @ err)
      | Inr handler \<Rightarrow> ListenAndServe (cp_Listen config) handler)"

section \<open>The program\<close>

definition usage_text :: string where
  "usage_text =
     line [''usage: cachy <command> [options]''] @ line [] @ line [''commands:''] @
     line [''  proxy    start the transparent provider proxy''] @
     line [''  doctor   run local setup diagnostics''] @
     line [''  integrations <codex|claude|recipe|mcp> ...  manage agent setup''] @
     line [''  plugin <list|inspect|enable|disable|test> ...  manage WASM plugins'']"

definition RunWithDeps :: "deps \<Rightarrow> string list \<Rightarrow> fs \<Rightarrow> cli_result" where
  "RunWithDeps d args fs =
     (case args of
        [] \<Rightarrow> stop 2 [GeneralUsage] fs
      | command # rest \<Rightarrow>
          if command = ''proxy'' then runProxy d rest fs
          else if command = ''doctor'' then runDoctorCommand d rest fs
          else if command = ''integrations'' then runIntegrationsCommand d rest fs
          else if command = ''plugin'' then runPluginCommand d rest fs
          else if command \<in> {''-h'', ''--help'', ''help''} then finish 0 usage_text fs
          else stop 2 [Unknown ''command'' command, GeneralUsage] fs)"

section \<open>How commands end\<close>

text \<open>
  The ways a command may end: with an answer and no diagnostics, having written one file at most; or with a
  diagnostic on standard error only, and no file touched, unless the write of that one file fails on the way. The
  file then has the beginning of what it has at the end of \<open>r0\<close>, the same command with no such fault, which
  \<open>uncut\<close> takes away.
\<close>

definition uncut :: "deps \<Rightarrow> deps" where
  "uncut d = d\<lparr>dp_Install := (dp_Install d)\<lparr>ie_Cut := Map.empty\<rparr>, dp_Plugin := (dp_Plugin d)\<lparr>en_Cut := Map.empty\<rparr>\<rparr>"

definition breaks_off :: "string option \<Rightarrow> fs \<Rightarrow> cli_result \<Rightarrow> cli_result \<Rightarrow> bool" where
  "breaks_off wr fs r0 r \<longleftrightarrow> rs_Code r = 1 \<and> rs_Code r0 = 0 \<and>
     (\<exists>q n whole t. wr = Some q \<and> fs_lookup (rs_Fs r0) q = Some \<lparr>f_Content = whole, f_ModTime = t\<rparr> \<and>
        rs_Fs r = fs_write q \<lparr>f_Content = take n whole, f_ModTime = t\<rparr> fs)"

definition ends :: "string option \<Rightarrow> fs \<Rightarrow> cli_result \<Rightarrow> cli_result \<Rightarrow> bool" where
  "ends wr fs r0 r \<longleftrightarrow>
     (rs_Code r = 0 \<and> rs_Stderr r = [] \<and> (\<forall>q. wr = Some q \<or> fs_lookup (rs_Fs r) q = fs_lookup fs q)) \<or>
     (rs_Code r \<in> {1, 2} \<and> rs_Stderr r \<noteq> [] \<and> rs_Stdout r = [] \<and> (rs_Fs r = fs \<or> breaks_off wr fs r0 r))"

lemma ends_stop [simp]: "c = 1 \<or> c = 2 \<Longrightarrow> ends wr fs r0 (stop c ds fs) \<longleftrightarrow> ds \<noteq> []"
  by (auto simp: ends_def stop_def)

lemma ends_stop_changed:
  "fs' = fs \<or> breaks_off wr fs r0 (stop 1 ds fs') \<Longrightarrow> ds \<noteq> [] \<Longrightarrow> ends wr fs r0 (stop 1 ds fs')"
  by (auto simp: ends_def stop_def)

lemma ends_finish [simp]: "ends wr fs r0 (finish 0 out fs)"
  by (simp add: ends_def finish_def)

lemma ends_finish_changed:
  "(\<And>q. wr \<noteq> Some q \<Longrightarrow> fs_lookup fs' q = fs_lookup fs q) \<Longrightarrow> ends wr fs r0 (finish 0 out fs')"
  by (auto simp: ends_def finish_def)

lemma ends_with_flags:
  "(\<And>g rest. flags_Parse f args = Inr (g, rest) \<Longrightarrow> ends wr fs (k0 g) (k g)) \<Longrightarrow>
   ends wr fs (with_flags f args fs k0) (with_flags f args fs k)"
  by (auto simp: with_flags_def split: sum.split)

lemma ends_pluginNameArg:
  "(\<And>name rest. args = name # rest \<Longrightarrow> ends wr fs (k0 name rest) (k name rest)) \<Longrightarrow>
   ends wr fs (pluginNameArg args command fs k0) (pluginNameArg args command fs k)"
  by (auto simp: pluginNameArg_def split: list.split)

lemma uncut_simps [simp]:
  "dir_flag (uncut d) = dir_flag d" "codex_path (uncut d) = codex_path d" "claude_path (uncut d) = claude_path d"
  "dp_Tables (uncut d) = dp_Tables d" "ie_Now (dp_Install (uncut d)) = ie_Now (dp_Install d)"
  "dp_Install (uncut d) = (dp_Install d)\<lparr>ie_Cut := Map.empty\<rparr>" "dp_Plugin (uncut d) = (dp_Plugin d)\<lparr>en_Cut := Map.empty\<rparr>"
  by (simp_all add: uncut_def dir_flag_def defaultPluginDir_def resolve_paths_def codex_path_def claude_path_def fun_eq_iff)

text \<open>The file a command writes, if it writes one.\<close>

definition integration_file :: "flag_set \<Rightarrow> string list \<Rightarrow> string \<Rightarrow> (string \<Rightarrow> install_error + string) \<Rightarrow> string option" where
  "integration_file flags args key resolve =
     (case flags_Parse flags args of
        Inl _ \<Rightarrow> None
      | Inr (f, _) \<Rightarrow>
          if bool_flag f ''dry-run'' then None
          else (case resolve (string_flag f key) of Inl _ \<Rightarrow> None | Inr path \<Rightarrow> Some path))"

definition switch_file :: "deps \<Rightarrow> string list \<Rightarrow> string option" where
  "switch_file d args =
     (case args of
        [] \<Rightarrow> None
      | name # rest \<Rightarrow>
          (case flags_Parse (dir_flag d) rest of
             Inl _ \<Rightarrow> None
           | Inr (f, _) \<Rightarrow> Some (plugin_dir (string_flag f ''dir'') name @ ''/enabled'')))"

definition written_file :: "deps \<Rightarrow> string list \<Rightarrow> string option" where
  "written_file d args =
     (if take 2 args = [''integrations'', ''codex''] then integration_file codex_flags (drop 3 args) ''config'' (codex_path d)
      else if take 2 args = [''integrations'', ''claude''] then integration_file claude_flags (drop 3 args) ''settings'' (claude_path d)
      else if take 2 args = [''plugin'', ''enable''] \<or> take 2 args = [''plugin'', ''disable''] then switch_file d (drop 2 args)
      else None)"

lemma InspectPlugin_uncut [simp]: "InspectPlugin (env\<lparr>en_Cut := cuts\<rparr>) = InspectPlugin env"
proof -
  have e: "en_Faults (env\<lparr>en_Cut := cuts\<rparr>) = en_Faults env" "en_Decode (env\<lparr>en_Cut := cuts\<rparr>) = en_Decode env"
    by simp_all
  have d: "inspectPluginDir (env\<lparr>en_Cut := cuts\<rparr>) = inspectPluginDir env"
    unfolding inspectPluginDir_def e by (rule refl)
  show ?thesis unfolding InspectPlugin_def d by (rule refl)
qed

lemma SetEnabled_ends:
  assumes "SetEnabled env now root name en fs = (r, fs')"
  shows "case r of
      None \<Rightarrow> q \<noteq> plugin_dir root name @ ''/enabled'' \<longrightarrow> fs_lookup fs' q = fs_lookup fs q
    | Some _ \<Rightarrow> fs' = fs \<or> (\<exists>n fs0. SetEnabled (env\<lparr>en_Cut := Map.empty\<rparr>) now root name en fs = (None, fs0) \<and>
        fs_lookup fs0 (plugin_dir root name @ ''/enabled'') = Some \<lparr>f_Content = ''enabled'' @ [NL], f_ModTime = now\<rparr> \<and>
        fs' = fs_write (plugin_dir root name @ ''/enabled'') \<lparr>f_Content = take n (''enabled'' @ [NL]), f_ModTime = now\<rparr> fs)"
proof (cases r)
  case None
  then have n: "SetEnabled env now root name en fs = (None, fs')" using assms by simp
  then obtain i where "manifestNameRE name" by (rule SetEnabled_success)
  then show ?thesis using SetEnabled_frame [OF n] None by simp
next
  case (Some e)
  let ?m = "plugin_dir root name @ ''/enabled''"
  have "fs' = fs \<or> (\<exists>n fs0. SetEnabled (env\<lparr>en_Cut := Map.empty\<rparr>) now root name en fs = (None, fs0) \<and>
        fs_lookup fs0 ?m = Some \<lparr>f_Content = ''enabled'' @ [NL], f_ModTime = now\<rparr> \<and>
        fs' = fs_write ?m \<lparr>f_Content = take n (''enabled'' @ [NL]), f_ModTime = now\<rparr> fs)"
  proof (rule disjE [OF SetEnabled_failure [OF assms [unfolded Some]]])
    assume f: "en \<and> (\<exists>i n e'. InspectPlugin env root name fs = Inr i \<and> e = PluginOs e' \<and>
      en_Cut env ?m = Some (n, e') \<and> en_Faults env ?m = None \<and>
      fs' = fs_write ?m \<lparr>f_Content = take n (''enabled'' @ [NL]), f_ModTime = now\<rparr> fs)"
    then obtain i n e' where i: "InspectPlugin env root name fs = Inr i" "en_Cut env ?m = Some (n, e')"
      "fs' = fs_write ?m \<lparr>f_Content = take n (''enabled'' @ [NL]), f_ModTime = now\<rparr> fs" by blast
    have d: "path_Join [in_Dir i, EnabledFileName] = ?m"
      using i(1) inspectPluginDir_Inr(1) plugin_paths(3) [OF directory_plugin [of name root]] by (auto simp: InspectPlugin_Inr)
    show ?thesis
    proof (cases "fs' = fs")
      case False
      have "(let (err, fs1) = os_WriteFile (en_Faults env) (en_Cut env) now ?m (''enabled'' @ [NL]) fs
          in (map_option PluginOs err, fs1)) = (Some e, fs')"
        using assms f by (simp add: Some SetEnabled_def i(1) d)
      then obtain e1 where "os_WriteFile (en_Faults env) (en_Cut env) now ?m (''enabled'' @ [NL]) fs = (Some e1, fs')"
        by (auto split: prod.splits)
      note u = os_WriteFile_uncut [OF this False]
      have "SetEnabled (env\<lparr>en_Cut := Map.empty\<rparr>) now root name en fs =
          (None, fs_write ?m \<lparr>f_Content = ''enabled'' @ [NL], f_ModTime = now\<rparr> fs)"
        using u f by (simp add: SetEnabled_def i(1) d)
      then show ?thesis using i(3) by auto
    qed simp
  qed simp
  then show ?thesis by (simp add: Some)
qed

lemma plugin_switch_ends: "ends (switch_file d args) fs (plugin_switch (uncut d) command args fs) (plugin_switch d command args fs)"
proof -
  have "ends (switch_file d (name # rest)) fs
      (case SetEnabled ((dp_Plugin d)\<lparr>en_Cut := Map.empty\<rparr>) (ie_Now (dp_Install d)) (string_flag f ''dir'') name en fs of
         (Some err, fs') \<Rightarrow> stop 1 [PluginFailed command err] fs' | (None, fs') \<Rightarrow> finish 0 out fs')
      (case SetEnabled (dp_Plugin d) (ie_Now (dp_Install d)) (string_flag f ''dir'') name en fs of
         (Some err, fs') \<Rightarrow> stop 1 [PluginFailed command err] fs' | (None, fs') \<Rightarrow> finish 0 out fs')"
    if p: "flags_Parse (dir_flag d) rest = Inr (f, left)" for name rest f left en out
  proof -
    obtain r fs' where s: "SetEnabled (dp_Plugin d) (ie_Now (dp_Install d)) (string_flag f ''dir'') name en fs = (r, fs')"
      by (metis surj_pair)
    have w: "switch_file d (name # rest) = Some (plugin_dir (string_flag f ''dir'') name @ ''/enabled'')"
      by (simp add: switch_file_def p)
    show ?thesis
    proof (cases r)
      case None
      show ?thesis unfolding s None prod.case option.case
        by (rule ends_finish_changed) (use SetEnabled_ends [OF s] None w in auto)
    next
      case (Some e)
      show ?thesis unfolding s Some prod.case option.case
        by (rule ends_stop_changed)
          (use SetEnabled_ends [OF s] in \<open>auto simp: Some breaks_off_def stop_def finish_def w\<close>)
    qed
  qed
  then show ?thesis
    unfolding plugin_switch_def by (auto intro!: ends_pluginNameArg ends_with_flags)
qed

lemma runPluginCommand_ends:
  "ends (written_file d (''plugin'' # args)) fs (runPluginCommand (uncut d) args fs) (runPluginCommand d args fs)"
proof (cases args)
  case Nil
  then show ?thesis by (simp add: runPluginCommand_def)
next
  case (Cons command rest)
  have "ends wr fs r0 (plugin_list d rest fs)" "ends wr fs r0 (plugin_inspect d rest fs)" "ends wr fs r0 (plugin_test d rest fs)" for wr r0
    unfolding plugin_list_def plugin_inspect_def plugin_test_def
    by (auto simp: with_flags_def pluginNameArg_def split: sum.splits list.splits)
  then show ?thesis
    using plugin_switch_ends [of d rest fs command] by (simp add: Cons runPluginCommand_def written_file_def)
qed

text \<open>An integration, by its contract.\<close>

context config_integration
begin

lemma ends_run:
  "ends (if dry p then None else Some (path p)) fs
    (case run p (env\<lparr>ie_Cut := Map.empty\<rparr>) fs of
       (Inl err, fs') \<Rightarrow> stop 1 [InstallFailed name err] fs' | (Inr res, fs') \<Rightarrow> finish 0 (out res) fs')
    (case run p env fs of
       (Inl err, fs') \<Rightarrow> stop 1 [InstallFailed name err] fs' | (Inr res, fs') \<Rightarrow> finish 0 (out res) fs')"
proof -
  obtain r fs' where r: "run p env fs = (r, fs')" by (metis surj_pair)
  show ?thesis
  proof (cases r)
    case (Inl err)
    show ?thesis
    proof (cases "fs' = fs")
      case False
      obtain n res where u: "run p (env\<lparr>ie_Cut := Map.empty\<rparr>) fs =
          (Inr res, fs_write (path p) \<lparr>f_Content = preview res, f_ModTime = ie_Now env\<rparr> fs)"
        "fs' = fs_write (path p) \<lparr>f_Content = take n (preview res), f_ModTime = ie_Now env\<rparr> fs" "\<not> dry p"
        by (rule run_uncut [OF r [unfolded Inl] False])
      show ?thesis unfolding r Inl prod.case sum.case
        by (rule ends_stop_changed) (auto simp: u breaks_off_def stop_def finish_def)
    qed (simp add: r Inl)
  next
    case (Inr res)
    note i = run_Inr [OF r [unfolded Inr]]
    have "fs_lookup fs' q = fs_lookup fs q" if "(if dry p then None else Some (path p)) \<noteq> Some q" for q
      using i(3) that other_files [OF r, of q] by (auto split: if_splits)
    then show ?thesis by (simp add: r Inr ends_finish_changed)
  qed
qed

end

lemma codex_command_ends:
  "ends (integration_file codex_flags (drop 1 args) ''config'' (codex_path d)) fs (runCodexIntegrationCommand (uncut d) args fs) (runCodexIntegrationCommand d args fs)"
proof (cases args)
  case Nil
  then show ?thesis by (simp add: runCodexIntegrationCommand_def)
next
  case (Cons action rest)
  show ?thesis
    unfolding Cons runCodexIntegrationCommand_def list.case uncut_simps
  proof (rule ends_with_flags)
    fix f left assume p: "flags_Parse codex_flags rest = Inr (f, left)"
    let ?run = "\<lambda>env. case codex_path d (string_flag f ''config'') of
         Inl err \<Rightarrow> stop 2 [ResolveFailed ''Codex config'' err] fs
       | Inr path \<Rightarrow>
           (case ApplyCodexIntegration (dp_Tables d) (codex_options_of action path f) env fs of
              (Inl err, fs') \<Rightarrow> stop 1 [InstallFailed ''Codex'' err] fs'
            | (Inr r, fs') \<Rightarrow>
                finish 0 (integration_report (cx_Message r) (cx_Path r) (cx_Changed r) (cx_DryRun r) (cx_Preview r)) fs')"
    show "ends (integration_file codex_flags (drop 1 (action # rest)) ''config'' (codex_path d)) fs
      (?run ((dp_Install d)\<lparr>ie_Cut := Map.empty\<rparr>)) (?run (dp_Install d))"
      using codex.ends_run [of "codex_options_of action _ f" fs]
      by (auto simp: integration_file_def p codex_options_of_def split: sum.split)
  qed
qed

lemma claude_command_ends:
  "ends (integration_file claude_flags (drop 1 args) ''settings'' (claude_path d)) fs (runClaudeIntegrationCommand (uncut d) args fs) (runClaudeIntegrationCommand d args fs)"
proof (cases args)
  case Nil
  then show ?thesis by (simp add: runClaudeIntegrationCommand_def)
next
  case (Cons action rest)
  show ?thesis
    unfolding Cons runClaudeIntegrationCommand_def list.case uncut_simps
  proof (rule ends_with_flags)
    fix f left assume p: "flags_Parse claude_flags rest = Inr (f, left)"
    let ?run = "\<lambda>env. case claude_path d (string_flag f ''settings'') of
         Inl err \<Rightarrow> stop 2 [ResolveFailed ''Claude settings'' err] fs
       | Inr path \<Rightarrow>
           (case ApplyClaudeIntegration (claude_options_of action path f) env fs of
              (Inl err, fs') \<Rightarrow> stop 1 [InstallFailed ''Claude'' err] fs'
            | (Inr r, fs') \<Rightarrow>
                finish 0 (integration_report (cr_Message r) (cr_Path r) (cr_Changed r) (cr_DryRun r) (cr_Preview r)) fs')"
    show "ends (integration_file claude_flags (drop 1 (action # rest)) ''settings'' (claude_path d)) fs
      (?run ((dp_Install d)\<lparr>ie_Cut := Map.empty\<rparr>)) (?run (dp_Install d))"
      using claude.ends_run [of "claude_options_of action _ f" fs]
      by (auto simp: integration_file_def p claude_options_of_def split: sum.split)
  qed
qed

lemma runIntegrationsCommand_ends:
  "ends (written_file d (''integrations'' # args)) fs (runIntegrationsCommand (uncut d) args fs) (runIntegrationsCommand d args fs)"
proof (cases "length args < 2")
  case True
  then show ?thesis by (simp add: runIntegrationsCommand_def)
next
  case False
  then obtain name rest where a: "args = name # rest" by (cases args) auto
  have "ends wr fs r0 (runRecipeCommand d rest fs)" "ends wr fs r0 (runMCPCommand rest fs)" for wr r0
    unfolding runRecipeCommand_def runMCPCommand_def
    by (auto simp: with_flags_def split: sum.splits list.splits)
  then show ?thesis
    using False codex_command_ends [of rest d fs] claude_command_ends [of rest d fs]
    by (simp add: a runIntegrationsCommand_def written_file_def)
qed

lemma runProxy_ends: "ends wr fs r0 (runProxy d args fs)"
  unfolding runProxy_def by (auto simp: with_flags_def split: option.splits sum.splits)

text \<open>C36. Every command of the program ends in one of three ways: with exit code 0, an answer and no
  diagnostics; with a diagnostic on standard error only and exit code 1 or 2; or, the doctor only, with a report
  that has failures and exit code 1. A successful command changes one file at most: the configuration that a
  run of an integration is about, unless it is a dry run, or the marker of the plugin that is switched on or off.
  A command that fails leaves every file as it was, except when the write of that one file fails on the way: the
  exit code is 1 then, and the file holds only the beginning of what the same command, without this fault,
  ends with in it.\<close>

theorem RunWithDeps_ends:
  "case RunWithDeps d args fs of r \<Rightarrow>
     (if rs_Code r = 0
      then rs_Stderr r = [] \<and> list_all (\<lambda>q. written_file d args = Some q \<or> fs_lookup (rs_Fs r) q = fs_lookup fs q) paths
      else rs_Code r \<in> {1, 2} \<and> (rs_Stderr r = [] \<longleftrightarrow> rs_Stdout r \<noteq> []) \<and>
        (if rs_Stderr r = [] then take 1 args = [''doctor''] else rs_Stdout r = []) \<and>
        (rs_Fs r = fs \<or>
         rs_Code r = 1 \<and> rs_Code (RunWithDeps (uncut d) args fs) = 0 \<and>
         (\<exists>q n whole t. written_file d args = Some q \<and>
            fs_lookup (rs_Fs (RunWithDeps (uncut d) args fs)) q = Some \<lparr>f_Content = whole, f_ModTime = t\<rparr> \<and>
            rs_Fs r = fs_write q \<lparr>f_Content = take n whole, f_ModTime = t\<rparr> fs)))"
proof -
  have e: "case r of r \<Rightarrow>
     (if rs_Code r = 0
      then rs_Stderr r = [] \<and> list_all (\<lambda>q. written_file d args = Some q \<or> fs_lookup (rs_Fs r) q = fs_lookup fs q) paths
      else rs_Code r \<in> {1, 2} \<and> (rs_Stderr r = [] \<longleftrightarrow> rs_Stdout r \<noteq> []) \<and>
        (if rs_Stderr r = [] then take 1 args = [''doctor''] else rs_Stdout r = []) \<and>
        (rs_Fs r = fs \<or>
         rs_Code r = 1 \<and> rs_Code (RunWithDeps (uncut d) args fs) = 0 \<and>
         (\<exists>q n whole t. written_file d args = Some q \<and>
            fs_lookup (rs_Fs (RunWithDeps (uncut d) args fs)) q = Some \<lparr>f_Content = whole, f_ModTime = t\<rparr> \<and>
            rs_Fs r = fs_write q \<lparr>f_Content = take n whole, f_ModTime = t\<rparr> fs)))"
    if "ends (written_file d args) fs (RunWithDeps (uncut d) args fs) r" for r
  proof (cases "rs_Code r = 0")
    case True
    then show ?thesis using that by (auto simp: ends_def list_all_iff)
  next
    case False
    then have "rs_Code r \<in> {1, 2} \<and> rs_Stderr r \<noteq> [] \<and> rs_Stdout r = []"
      "rs_Fs r = fs \<or> breaks_off (written_file d args) fs (RunWithDeps (uncut d) args fs) r"
      using that by (auto simp: ends_def)
    then show ?thesis using False unfolding breaks_off_def by simp
  qed
  show ?thesis
  proof (cases args)
    case Nil
    then show ?thesis by (intro e) (simp add: RunWithDeps_def)
  next
    case (Cons command rest)
    show ?thesis
    proof (cases "command = ''doctor''")
      case False
      then have "ends (written_file d args) fs (RunWithDeps (uncut d) args fs) (RunWithDeps d args fs)"
        using runProxy_ends [of _ fs _ d rest] runIntegrationsCommand_ends [of d rest fs] runPluginCommand_ends [of d rest fs]
        by (simp add: Cons RunWithDeps_def)
      then show ?thesis by (rule e)
    next
      case True
      have d: "RunWithDeps d args fs = runDoctorCommand d rest fs" by (simp add: Cons True RunWithDeps_def)
      show ?thesis
      proof (cases "flags_Parse (target_flags d) rest")
        case (Inl err)
        then show ?thesis by (intro e) (unfold d, simp add: runDoctorCommand_def with_flags_def)
      next
        case (Inr g)
        have "report_String checks \<noteq> []" if "HasFailures checks" for checks
          using that by (cases checks) (simp_all add: HasFailures_def report_String_def)
        then show ?thesis
          unfolding d using Inr by (cases g) (simp add: runDoctorCommand_def with_flags_def finish_def Let_def list_all_iff Cons True)
      qed
    qed
  qed
qed

section \<open>Commands one after another\<close>

text \<open>Whatever follows an argument that is no flag is not looked at, \<open>--dry-run\<close> included.\<close>

lemma arguments_ignored:
  assumes "length x < 2 \<or> hd x \<noteq> CHR ''-''"
  shows "RunWithDeps d (''integrations'' # ''codex'' # action # x # rest) fs =
    RunWithDeps d [''integrations'', ''codex'', action] fs"
  using flags_Parse_positional [OF assms]
  by (simp add: RunWithDeps_def runIntegrationsCommand_def runCodexIntegrationCommand_def with_flags_def)

lemma codex_paths_agree:
  "codex_path d [] = Inr path \<Longrightarrow> dc_CodexConfigPath (doctor_config_of d target listen) = path"
  by (auto simp: codex_path_def doctor_config_of_def Let_def DefaultCodexConfigPath_def collectDoctorEnv_def doctor_keys_def
      homeFromEnv_def envValue_def split: if_splits)

lemma codex_command_Inr:
  assumes "rs_Code (RunWithDeps d (''integrations'' # ''codex'' # action # flags) fs) = 0"
    and "flags_Parse codex_flags flags = Inr (f, left)"
  obtains path r where "codex_path d (string_flag f ''config'') = Inr path"
    "ApplyCodexIntegration (dp_Tables d) (codex_options_of action path f) (dp_Install d) fs =
      (Inr r, rs_Fs (RunWithDeps d (''integrations'' # ''codex'' # action # flags) fs))"
  using assms
  by (auto simp: RunWithDeps_def runIntegrationsCommand_def runCodexIntegrationCommand_def with_flags_def stop_def finish_def
      split: sum.splits prod.splits)

lemma Contains_report:
  "c \<in> set checks \<Longrightarrow> Contains (report_String checks) (status_text (ck_Status c) @ '' '' @ ck_Name c @ '': '')"
proof -
  assume c: "c \<in> set checks"
  obtain as bs where s: "checks = as @ c # bs" by (meson c split_list)
  have "report_String checks = report_String as @ (status_text (ck_Status c) @ '' '' @ ck_Name c @ '': '') @
      (ck_Message c @ [NL] @ report_String bs)"
    by (simp add: s report_String_def)
  then show ?thesis using Contains_middle by metis
qed

text \<open>C22. What one command sets up the other finds: after \<open>cachy integrations codex install\<close> on the default
  configuration has ended with exit code 0, \<open>cachy doctor\<close> in the same environment reports the integration as
  OK, wherever the environment says that the configuration is.\<close>

theorem install_then_doctor:
  assumes "RunWithDeps d (''integrations'' # ''codex'' # action # flags) fs = r" and "rs_Code r = 0"
    and "flags_Parse codex_flags flags = Inr (f, left)" and "\<not> bool_flag f ''dry-run''" and "string_flag f ''config'' = []"
    and "action = CodexInstall \<or> action = CodexRepair"
    and "\<And>p. ie_Read (dp_Install d) p = None" and "\<And>p. de_Read denv p = None"
    and "dp_Getenv d' = dp_Getenv d" and "dp_RunDoctor d' = RunChecks T (denv\<lparr>de_Fs := rs_Fs r\<rparr>)"
    and "flags_Parse (target_flags d') dargs = Inr (g, left')"
  shows "Contains (rs_Stdout (RunWithDeps d' (''doctor'' # dargs) (rs_Fs r))) ''OK codex-integration: ''"
proof -
  obtain path res where p: "codex_path d [] = Inr path"
    "ApplyCodexIntegration (dp_Tables d) (codex_options_of action path f) (dp_Install d) fs = (Inr res, rs_Fs r)"
    by (rule codex_command_Inr [of d action flags fs f left]) (use assms(1-3,5) in auto)
  have q: "codex_path d' = codex_path d" by (simp add: codex_path_def assms(9) fun_eq_iff)
  let ?o = "codex_options_of action path f" and ?c = "doctor_config_of d' (string_flag g ''target'') (string_flag g ''listen'')"
  have a: "co_Action (codex_defaults ?o) = action"
    using assms(6) by (auto simp: codex_defaults_def codex_options_of_def CodexInstall_def CodexRepair_def Let_def)
  have "cx_Action res = co_Action (codex_defaults ?o)"
    by (rule codex_outcome_Inr [OF codex.run_Inr(2) [OF p(2)]]) simp
  then have "cx_Action res \<noteq> CodexUninstall"
    using assms(6) by (auto simp: a CodexInstall_def CodexRepair_def CodexUninstall_def)
  moreover have "\<not> co_DryRun ?o" "co_ConfigPath ?o = path"
    using assms(4) by (simp_all add: codex_options_of_def)
  ultimately have "ck_Status (checkCodexIntegration (denv\<lparr>de_Fs := rs_Fs r\<rparr>) path None) = StatusOK"
    using codex_check_after [OF p(2)] assms(7,8) by simp
  moreover have "ck_Name (checkCodexIntegration e path x) = ''codex-integration''" for e x
    by (simp add: checkCodexIntegration_def codex_check_text_def Let_def split: sum.split)
  moreover have "checkCodexIntegration (denv\<lparr>de_Fs := rs_Fs r\<rparr>) path None \<in>
      set (RunChecks T (denv\<lparr>de_Fs := rs_Fs r\<rparr>) ?c)"
    using codex_paths_agree [OF p(1) [folded q]] by (simp add: RunChecks_def doctor_config_of_def Let_def)
  ultimately have "Contains (report_String (RunChecks T (denv\<lparr>de_Fs := rs_Fs r\<rparr>) ?c)) ''OK codex-integration: ''"
    using Contains_report by fastforce
  then show ?thesis
    by (simp add: RunWithDeps_def runDoctorCommand_def with_flags_def assms(10,11) finish_def Let_def)
qed

subsection \<open>A concrete session\<close>

definition sample_deps :: deps where
  "sample_deps = \<lparr>dp_Getenv = (\<lambda>k. if k = ''HOME'' then ''/h'' else []), dp_ServeProxy = (\<lambda>_. None),
     dp_RunDoctor = (\<lambda>_. []), dp_RunPlugin = None, dp_Tables = ascii_tables,
     dp_Host = \<lparr>ho_GOOS = ''linux'', ho_Getenv = (\<lambda>_. []), ho_UserHomeDir = Inl []\<rparr>, dp_Install = calm_install,
     dp_Plugin = example_env, dp_Engine = (\<lambda>_ _. \<lparr>eo_HostError = Some ''none'', eo_ModuleError = None, eo_HasRun = False, eo_RunError = None, eo_Writes = []\<rparr>), dp_SortPlugins = id\<rparr>"

lemma sample_install: "rs_Code (RunWithDeps sample_deps [''integrations'', ''codex'', ''install''] []) = 0"
proof -
  have p: "codex_path sample_deps [] = Inr ''/h/.codex/config.toml''"
    by (simp add: codex_path_def sample_deps_def DefaultCodexConfigPath_def go_eval)
  let ?o = "codex_options_of ''install'' ''/h/.codex/config.toml'' codex_flags"
  have o: "codex_defaults ?o = ?o" "co_Action ?o = CodexInstall" "co_ConfigPath ?o = ''/h/.codex/config.toml''" "\<not> co_DryRun ?o"
    "co_ProxyBaseURL ?o = ''http://127.0.0.1:8787/v1''" "CodexInstall \<noteq> CodexUninstall"
    by (simp_all add: codex_defaults_def codex_options_of_def codex_flags_def string_flag_def bool_flag_def CodexInstall_def CodexUninstall_def)
  have "validateProxyBaseURL ''http://127.0.0.1:8787/v1'' = None"
    by (simp add: validateProxyBaseURL_def go_eval)
  moreover have "readOptionalFile calm_install path [] = Inr []" for path
    by (simp add: readOptionalFile_def os_ReadFile_def calm_install_def fs_lookup_def path_exists_def)
  ultimately have "\<exists>r. codex_outcome ascii_tables ?o calm_install [] = Inr r"
    by (simp add: codex_outcome_def o planCodexConfig_def Let_def)
  then obtain r where "codex_outcome ascii_tables (codex_defaults ?o) calm_install [] = Inr r" using o(1) by auto
  moreover obtain f where "write_config calm_install (cx_Path r) (cx_Preview r) [] = (None, f)"
    by (simp add: write_config_def os_MkdirAll_def os_WriteFile_def os_Create_def calm_install_def fs_lookup_def path_exists_def)
  ultimately have "\<exists>r f. ApplyCodexIntegration ascii_tables ?o calm_install [] = (Inr r, f)"
    by (simp add: ApplyCodexIntegration_def o(3) commit_plan_def)
  then have "\<exists>r f. ApplyCodexIntegration (dp_Tables sample_deps) ?o (dp_Install sample_deps) [] = (Inr r, f)"
    by (simp add: sample_deps_def)
  moreover have "string_flag codex_flags ''config'' = []" by (simp add: codex_flags_def string_flag_def)
  ultimately show ?thesis
    by (auto simp: RunWithDeps_def runIntegrationsCommand_def runCodexIntegrationCommand_def with_flags_def p finish_def)
qed

lemma install_then_doctor_witness:
  "case RunWithDeps sample_deps [''integrations'', ''codex'', ''install''] [] of r \<Rightarrow>
     Contains (rs_Stdout (RunWithDeps (sample_deps\<lparr>dp_RunDoctor := RunChecks ascii_tables (quiet_env\<lparr>de_Fs := rs_Fs r\<rparr>)\<rparr>)
       [''doctor''] (rs_Fs r))) ''OK codex-integration: ''"
proof -
  have b: "\<not> bool_flag codex_flags ''dry-run''" "string_flag codex_flags ''config'' = []" "''install'' = CodexInstall"
    by (simp_all add: bool_flag_def string_flag_def codex_flags_def CodexInstall_def)
  have e: "ie_Read (dp_Install sample_deps) p = None" "de_Read quiet_env p = None" for p
    by (simp_all add: sample_deps_def calm_install_def quiet_env_def)
  show ?thesis
    using install_then_doctor [OF refl sample_install flags_Parse.simps(1) b(1,2) disjI1 [OF b(3)] e, of _ ascii_tables "[]"]
    by simp
qed

end
