(* ===== verification/Go_Json_Roundtrip.thy ===== *)
theory Go_Json_Roundtrip
  imports Go_Json_Value
begin

text \<open>
  What \<open>json.MarshalIndent\<close> prints is accepted by the scanner and decoded to the value it was printed of:
  strings in valid UTF-8 come back whatever runes they hold, members of arrays and objects are told apart
  by the separators outside all brackets and literals, and keys in order come back in order.
\<close>

section \<open>Runes\<close>

text \<open>A rune that was decoded is encoded by the bytes it was decoded from, which decode to it wherever they stand.\<close>

lemma div_mod_64: "y < 64 \<Longrightarrow> (x * 64 + y) div 64 = (x :: nat)" "y < 64 \<Longrightarrow> (x * 64 + y) mod 64 = (y :: nat)"
  by simp_all

definition stands_for :: "rune \<Rightarrow> string \<Rightarrow> bool" where
  "stands_for r bs \<longleftrightarrow> bs \<noteq> [] \<and> EncodeRune r = bs \<and> (\<forall>t. DecodeRune (bs @ t) = (r, length bs)) \<and>
     (128 \<le> r \<longrightarrow> list_all (\<lambda>c. 128 \<le> byte c) bs) \<and> (r < 128 \<longrightarrow> bs = [char_of r])"

lemma stands_for_2:
  assumes "194 \<le> byte c" "byte c \<le> 223" "is_cont c1"
  shows "stands_for ((byte c - 192) * 64 + (byte c1 - 128)) [c, c1]"
proof -
  define x y where "x = byte c - 192" and "y = byte c1 - 128"
  have b: "byte c = 192 + x" "byte c1 = 128 + y" "2 \<le> x" "x < 32" "y < 64"
    using assms by (auto simp: x_def y_def is_cont_def)
  then have c: "char_of (192 + x) = c" "char_of (128 + y) = c1" by (metis char_of_char)+
  show ?thesis
    using b assms by (simp add: stands_for_def EncodeRune_def DecodeRune_def div_mod_64 c)
qed

lemma stands_for_3:
  assumes "224 \<le> byte c" "byte c \<le> 239" "second_ok (byte c) c1" "is_cont c2"
  shows "stands_for ((byte c - 224) * 4096 + (byte c1 - 128) * 64 + (byte c2 - 128)) [c, c1, c2]"
proof -
  define x y z where "x = byte c - 224" and "y = byte c1 - 128" and "z = byte c2 - 128"
  have b: "byte c = 224 + x" "byte c1 = 128 + y" "byte c2 = 128 + z" "x < 16" "y < 64" "z < 64"
    "x = 0 \<Longrightarrow> 32 \<le> y" "x = 13 \<Longrightarrow> y < 32"
    using assms by (auto simp: x_def y_def z_def is_cont_def second_ok_def split: if_splits)
  define r where "r = (x * 64 + y) * 64 + z"
  have d: "r div 64 = x * 64 + y" "r mod 64 = z" using b by (simp_all only: r_def div_mod_64)
  have e: "r div 4096 = x" "r div 64 mod 64 = y"
    using b d by (simp_all add: div_mod_64 div_mult2_eq [of r 64 64, simplified])
  have lo: "2048 \<le> r" and nosur: "r < 55296 \<or> 57343 < r" and hi: "r < 65536"
    using b unfolding r_def by (cases "x = 0"; cases "x < 13"; cases "x = 13"; auto)+
  have c: "char_of (224 + x) = c" "char_of (128 + y) = c1" "char_of (128 + z) = c2"
    using b by (metis char_of_char)+
  have "EncodeRune r = [c, c1, c2]"
    using lo nosur hi b(5) by (auto simp: EncodeRune_def e d c)
  moreover have "(byte c - 224) * 4096 + (byte c1 - 128) * 64 + (byte c2 - 128) = r"
    by (simp add: b r_def)
  moreover have "DecodeRune ([c, c1, c2] @ t) = (r, 3)" for t
    using assms by (simp add: DecodeRune_def Let_def calculation(2) [symmetric])
  ultimately show ?thesis
    using lo b assms(3,4) by (simp add: stands_for_def)
qed

lemma stands_for_4:
  assumes "240 \<le> byte c" "byte c \<le> 244" "second_ok (byte c) c1" "is_cont c2" "is_cont c3"
  shows "stands_for ((byte c - 240) * 262144 + (byte c1 - 128) * 4096 + (byte c2 - 128) * 64 + (byte c3 - 128)) [c, c1, c2, c3]"
proof -
  define x y z w where "x = byte c - 240" and "y = byte c1 - 128" and "z = byte c2 - 128" and "w = byte c3 - 128"
  have b: "byte c = 240 + x" "byte c1 = 128 + y" "byte c2 = 128 + z" "byte c3 = 128 + w" "x < 5" "y < 64" "z < 64" "w < 64"
    "x = 0 \<Longrightarrow> 16 \<le> y" "x = 4 \<Longrightarrow> y < 16"
    using assms by (auto simp: x_def y_def z_def w_def is_cont_def second_ok_def split: if_splits)
  define q where "q = (x * 64 + y) * 64 + z"
  define r where "r = q * 64 + w"
  have d: "r div 64 = q" "r mod 64 = w" "q div 64 = x * 64 + y" "q mod 64 = z"
    using b by (simp_all only: r_def q_def div_mod_64)
  have e: "r div 4096 = x * 64 + y" "r div 262144 = x"
    using b d by (simp_all add: div_mod_64 div_mult2_eq [of r 64 64, simplified] div_mult2_eq [of r 64 4096, simplified]
        div_mult2_eq [of q 64 64, simplified])
  have lo: "65536 \<le> r" and hi: "r \<le> 1114111"
    using b unfolding r_def q_def by (cases "x = 0"; cases "x = 4"; auto)+
  have c: "char_of (240 + x) = c" "char_of (128 + y) = c1" "char_of (128 + z) = c2" "char_of (128 + w) = c3"
    using b by (metis char_of_char)+
  have "EncodeRune r = [c, c1, c2, c3]"
    using lo hi b by (auto simp: EncodeRune_def e d c div_mod_64)
  moreover have "(byte c - 240) * 262144 + (byte c1 - 128) * 4096 + (byte c2 - 128) * 64 + (byte c3 - 128) = r"
    by (simp add: b r_def q_def)
  moreover have "DecodeRune ([c, c1, c2, c3] @ t) = (r, 4)" for t
    using assms by (simp add: DecodeRune_def Let_def calculation(2) [symmetric])
  ultimately show ?thesis
    using lo b assms(3,4,5) by (simp add: stands_for_def)
qed

lemma stands_for_1: "byte c < 128 \<Longrightarrow> stands_for (byte c) [c]"
  by (simp add: stands_for_def EncodeRune_def DecodeRune_def)

lemma DecodeRune_stands_for:
  assumes "s \<noteq> []" and "DecodeRune s = (r, n)" and "\<not> (r = RuneError \<and> n = 1)"
  shows "stands_for r (take n s)"
  using assms stands_for_1 stands_for_2 stands_for_3 stands_for_4
  by (cases s) (auto simp: DecodeRune_def Let_def split: if_splits list.splits)

lemma runes_stand_for: "ch \<in> set (runes s) \<Longrightarrow> \<not> bad_chunk ch \<Longrightarrow> stands_for (fst ch) (snd ch)"
proof (induction s rule: runes.induct)
  case (1 s)
  show ?case
  proof (cases "s = []")
    case False
    obtain r n where d: "DecodeRune s = (r, n)" by (cases "DecodeRune s")
    have n: "n \<le> length s" using DecodeRune_width [OF False] d by simp
    consider "ch = (r, take n s)" | "ch \<in> set (runes (drop n s))"
      using 1(2) d by (auto simp: runes_step [OF False])
    then show ?thesis
    proof cases
      case 1
      then show ?thesis
        using DecodeRune_stands_for [OF False d] \<open>\<not> bad_chunk ch\<close> n by (auto simp: bad_chunk_def)
    next
      case 2
      then show ?thesis using 1(1) [OF False] 1(3) d by auto
    qed
  qed (use 1(2) in simp)
qed

lemma ValidString_chunks: "ValidString s \<Longrightarrow> ch \<in> set (runes s) \<Longrightarrow> stands_for (fst ch) (snd ch) \<and> \<not> bad_chunk ch"
  using runes_stand_for by (auto simp: ValidString_def list_all_iff)

section \<open>String literals\<close>

text \<open>What may stand between the quotes: no quote but behind a backslash.\<close>

fun literal_body :: "string \<Rightarrow> bool" where
  "literal_body [] = True"
| "literal_body (c # cs) =
     (if c = BACKSLASH then (case cs of [] \<Rightarrow> False | e # cs' \<Rightarrow> literal_body cs') else c \<noteq> QUOTE \<and> literal_body cs)"

lemma literal_body_append: "literal_body s \<Longrightarrow> literal_body t \<Longrightarrow> literal_body (s @ t)"
  by (induction s rule: literal_body.induct) (auto split: list.splits)

lemma literal_body_high: "list_all (\<lambda>c. 128 \<le> byte c) s \<Longrightarrow> literal_body s"
  by (induction s) auto

lemma hex_lower_eq:
  "hex_lower n = ''0123456789abcdef'' ! (n mod 16)"
  by (simp add: hex_lower_def)

lemma less_16_cases:
  fixes n :: nat
  assumes "n < 16"
  obtains "n = 0" | "n = 1" | "n = 2" | "n = 3" | "n = 4" | "n = 5" | "n = 6" | "n = 7" | "n = 8" | "n = 9"
    | "n = 10" | "n = 11" | "n = 12" | "n = 13" | "n = 14" | "n = 15"
proof -
  have "n \<in> set [0..<16]" using assms by simp
  also have "[0..<16] = [0, 1, 2, 3, 4, 5, 6, 7, 8, 9, 10, 11, 12, 13, 14, 15]" by (simp add: upt_rec)
  finally show ?thesis using that by (simp only: set_simps insert_iff empty_iff) blast
qed

lemma hex_lower_facts:
  "is_hex (hex_lower n)" "hex_val (hex_lower n) = n mod 16" "hex_lower n \<noteq> BACKSLASH" "hex_lower n \<noteq> QUOTE"
proof -
  have "is_hex (hex_lower n) \<and> hex_val (hex_lower n) = n mod 16 \<and> hex_lower n \<noteq> BACKSLASH \<and> hex_lower n \<noteq> QUOTE"
    by (rule less_16_cases [of "n mod 16"]) (simp_all add: hex_lower_def is_hex_def hex_val_def is_digit_def)
  then show "is_hex (hex_lower n)" "hex_val (hex_lower n) = n mod 16" "hex_lower n \<noteq> BACKSLASH" "hex_lower n \<noteq> QUOTE"
    by blast+
qed

text \<open>The escapes, by cases.\<close>

lemma quote_chunk_cases:
  assumes "stands_for (fst ch) (snd ch)" and "\<not> bad_chunk ch"
  obtains (escape) e c where "quote_chunk ch = [BACKSLASH, e]" "simple_escape e = Some c" "snd ch = [c]" "e \<noteq> CHR ''u''"
      "e \<in> set ''bfnrt/'' \<or> e = BACKSLASH \<or> e = QUOTE"
    | (hex) h1 h2 h3 h4 where "quote_chunk ch = [BACKSLASH, CHR ''u'', h1, h2, h3, h4]" "is_hex h1" "is_hex h2" "is_hex h3" "is_hex h4"
      "((hex_val h1 * 16 + hex_val h2) * 16 + hex_val h3) * 16 + hex_val h4 = fst ch" "fst ch < 55296"
    | (plain) c where "quote_chunk ch = [c]" "snd ch = [c]" "32 \<le> byte c" "byte c < 128" "c \<noteq> QUOTE" "c \<noteq> BACKSLASH"
    | (high) "quote_chunk ch = snd ch" "128 \<le> fst ch"
proof -
  let ?r = "fst ch"
  have s: "snd ch = [char_of ?r]" if "?r < 128" using assms(1) that by (simp add: stands_for_def)
  have q: "quote_chunk ch = (if ?r = 34 then [BACKSLASH, QUOTE] else if ?r = 92 then [BACKSLASH, BACKSLASH]
      else if ?r = 8 then BACKSLASH # ''b'' else if ?r = 12 then BACKSLASH # ''f'' else if ?r = 10 then BACKSLASH # ''n''
      else if ?r = 13 then BACKSLASH # ''r'' else if ?r = 9 then BACKSLASH # ''t''
      else if ?r < 32 \<or> ?r = 38 \<or> ?r = 60 \<or> ?r = 62 then BACKSLASH # ''u00'' @ [hex_lower (?r div 16), hex_lower ?r]
      else if ?r = 8232 \<or> ?r = 8233 then BACKSLASH # ''u202'' @ [hex_lower ?r] else snd ch)"
    using assms(2) by (simp add: quote_chunk_def Let_def)
  define A where "A \<longleftrightarrow> ?r \<in> {34, 92, 8, 12, 10, 13, 9}"
  define B where "B \<longleftrightarrow> ?r < 32 \<or> ?r = 38 \<or> ?r = 60 \<or> ?r = 62"
  define C where "C \<longleftrightarrow> ?r = 8232 \<or> ?r = 8233"
  consider (1) A | (2) "\<not> A" B | (3) C | (4) "\<not> A" "\<not> B" "\<not> C" "?r < 128" | (5) "\<not> A" "\<not> B" "\<not> C" "128 \<le> ?r"
    by (meson not_less)
  then show thesis
  proof cases
    case 1
    note c = 1 [unfolded A_def]
    have ec: "char_of (34 :: nat) = QUOTE" "char_of (92 :: nat) = BACKSLASH" "char_of (8 :: nat) = CHR 0x08"
      "char_of (12 :: nat) = CHR 0x0C" "char_of (10 :: nat) = NL" "char_of (13 :: nat) = CR" "char_of (9 :: nat) = TAB"
      by code_simp+
    have e: thesis if "?r = n" "n < 128" "quote_chunk ch = [BACKSLASH, x]" "simple_escape x = Some (char_of n)" "x \<noteq> CHR ''u''"
        "x \<in> set ''bfnrt/'' \<or> x = BACKSLASH \<or> x = QUOTE" for n x
      by (rule escape [OF that(3,4) _ that(5,6)]) (use s that(1,2) in simp)
    from c consider "?r = 34" | "?r = 92" | "?r = 8" | "?r = 12" | "?r = 10" | "?r = 13" | "?r = 9" by blast
    then show ?thesis
    proof cases
      case 1
      show ?thesis by (rule e [OF 1, of QUOTE]) (simp_all add: q 1 simple_escape_def ec)
    next
      case 2
      show ?thesis by (rule e [OF 2, of BACKSLASH]) (simp_all add: q 2 simple_escape_def ec)
    next
      case 3
      show ?thesis by (rule e [OF 3, of "CHR ''b''"]) (simp_all add: q 3 simple_escape_def ec)
    next
      case 4
      show ?thesis by (rule e [OF 4, of "CHR ''f''"]) (simp_all add: q 4 simple_escape_def ec)
    next
      case 5
      show ?thesis by (rule e [OF 5, of "CHR ''n''"]) (simp_all add: q 5 simple_escape_def ec)
    next
      case 6
      show ?thesis by (rule e [OF 6, of "CHR ''r''"]) (simp_all add: q 6 simple_escape_def ec)
    next
      case 7
      show ?thesis by (rule e [OF 7, of "CHR ''t''"]) (simp_all add: q 7 simple_escape_def ec)
    qed
  next
    case 2
    note c = 2 [unfolded A_def B_def C_def]
    have "quote_chunk ch = [BACKSLASH, CHR ''u'', CHR ''0'', CHR ''0'', hex_lower (?r div 16), hex_lower ?r]"
      using c by (auto simp: q)
    moreover have "is_hex (CHR ''0'')" "hex_val (CHR ''0'') = 0" by (simp_all add: is_hex_def hex_val_def is_digit_def)
    moreover have "?r div 16 mod 16 * 16 + ?r mod 16 = ?r" using c by auto
    ultimately show ?thesis using hex [OF _ _ _ hex_lower_facts(1,1)] c by (auto simp: hex_lower_facts)
  next
    case 3
    note c = 3 [unfolded C_def]
    have "quote_chunk ch = [BACKSLASH, CHR ''u'', CHR ''2'', CHR ''0'', CHR ''2'', hex_lower ?r]"
      using c by (auto simp: q)
    moreover have "is_hex (CHR ''2'')" "hex_val (CHR ''2'') = 2" "is_hex (CHR ''0'')" "hex_val (CHR ''0'') = 0"
      by (simp_all add: is_hex_def hex_val_def is_digit_def)
    ultimately show ?thesis using hex [OF _ _ _ _ hex_lower_facts(1)] c by (auto simp: hex_lower_facts)
  next
    case 4
    note c = 4 [unfolded A_def B_def C_def]
    show ?thesis
      by (rule plain [of "char_of ?r"]) (use c s in \<open>auto simp: q of_char_mod_256 dest!: arg_cong [of _ _ byte]\<close>)
  next
    case 5
    note c = 5 [unfolded A_def B_def C_def]
    show ?thesis by (rule high) (use c in \<open>simp_all add: q\<close>)
  qed
qed

lemma is_hex_not_special: "is_hex h \<Longrightarrow> h \<noteq> BACKSLASH \<and> h \<noteq> QUOTE"
  by (auto simp: is_hex_def is_digit_def)

lemma literal_body_chunk:
  assumes "stands_for (fst ch) (snd ch)" and "\<not> bad_chunk ch"
  shows "literal_body (quote_chunk ch)"
  using assms
proof (cases rule: quote_chunk_cases)
  case (hex h1 h2 h3 h4)
  then show ?thesis using is_hex_not_special by simp
next
  case high
  then show ?thesis using assms(1) by (simp add: stands_for_def literal_body_high)
qed auto

text \<open>The text between the quotes.\<close>

definition quoted_body :: "string \<Rightarrow> string" where
  "quoted_body s = concat (map quote_chunk (runes s))"

lemma json_quote_body: "json_quote s = QUOTE # quoted_body s @ [QUOTE]"
  by (simp add: json_quote_def quoted_body_def)

lemma literal_quoted_body:
  assumes "ValidString s"
  shows "literal_body (quoted_body s)"
proof -
  have "literal_body (concat (map quote_chunk chs))" if "set chs \<subseteq> set (runes s)" for chs
    using that
  proof (induction chs)
    case (Cons ch chs)
    then show ?case
      using ValidString_chunks [OF assms, of ch] by (auto intro!: literal_body_append literal_body_chunk)
  qed simp
  then show ?thesis by (simp add: quoted_body_def)
qed

subsection \<open>Unquoting\<close>

lemma unquote_body_fuel:
  "length s \<le> n \<Longrightarrow> length s \<le> m \<Longrightarrow> unquote_body n s = unquote_body m s"
proof (induction s arbitrary: n m rule: length_induct)
  case (1 s)
  show ?case
  proof (cases "s = []")
    case True
    then show ?thesis by (cases n; cases m) simp_all
  next
    case False
    then obtain n' m' where m: "n = Suc n'" "m = Suc m'" using 1(2,3) by (cases n; cases m) auto
    have d: "unquote_body n' (drop k s) = unquote_body m' (drop k s)" if "1 \<le> k" for k
      using 1 False that unfolding m by (intro 1(1) [rule_format]) auto
    have t: "unquote_body n' (tl s) = unquote_body m' (tl s)" using d [of 1] by (simp add: drop_Suc)
    have w: "1 \<le> snd (DecodeRune s)" using DecodeRune_width [OF False] by simp
    show ?thesis
      unfolding m unquote_body.simps t d [OF w] d [of 2, simplified] d [of 6, simplified] d [of 12, simplified] ..
  qed
qed

lemma unquote_body_u:
  "s \<noteq> [] \<Longrightarrow> hd s = BACKSLASH \<Longrightarrow> tl s \<noteq> [] \<Longrightarrow> hd (tl s) = CHR ''u'' \<Longrightarrow> getu4 s = Some r \<Longrightarrow> \<not> is_surrogate r \<Longrightarrow>
     unquote_body (Suc n) s = map_option ((@) (EncodeRune r)) (unquote_body n (drop 6 s))"
  by simp

lemma unquote_body_chunk:
  assumes "stands_for (fst ch) (snd ch)" and "\<not> bad_chunk ch" and "length (quote_chunk ch @ rest) \<le> n" and "length rest \<le> m"
  shows "unquote_body n (quote_chunk ch @ rest) = map_option ((@) (snd ch)) (unquote_body m rest)"
proof -
  obtain k where n: "n = Suc k" and q: "quote_chunk ch \<noteq> []"
  proof -
    have "quote_chunk ch \<noteq> []"
      using assms(1,2)
    proof (cases rule: quote_chunk_cases)
      case high
      then show ?thesis using assms(1) by (simp add: stands_for_def)
    qed simp_all
    then show thesis using that assms(3) by (cases n) auto
  qed
  have r: "unquote_body k rest = unquote_body m rest"
    using assms(3,4) q unfolding n by (intro unquote_body_fuel) (cases "quote_chunk ch"; simp)+
  show ?thesis
    using assms(1,2)
  proof (cases rule: quote_chunk_cases)
    case (escape e c)
    then show ?thesis by (cases "unquote_body m rest") (simp_all add: n r)
  next
    case (hex h1 h2 h3 h4)
    have g: "getu4 (quote_chunk ch @ rest) = Some (fst ch)" using hex by (simp add: getu4_def)
    have s: "\<not> is_surrogate (fst ch)" using hex by (simp add: is_surrogate_def)
    have e: "EncodeRune (fst ch) = snd ch" using assms(1) by (simp add: stands_for_def)
    have "quote_chunk ch @ rest \<noteq> []" "hd (quote_chunk ch @ rest) = BACKSLASH" "tl (quote_chunk ch @ rest) \<noteq> []"
      "hd (tl (quote_chunk ch @ rest)) = CHR ''u''" and d: "drop 6 (quote_chunk ch @ rest) = rest"
      using hex by simp_all
    from unquote_body_u [OF this(1-4) g s, of k] show ?thesis by (simp only: n d e r)
  next
    case (plain c)
    then show ?thesis by (cases "unquote_body m rest") (simp_all add: n r)
  next
    case high
    have d: "DecodeRune (snd ch @ rest) = (fst ch, length (snd ch))" "EncodeRune (fst ch) = snd ch" "snd ch \<noteq> []"
      "list_all (\<lambda>c. 128 \<le> byte c) (snd ch)"
      using assms(1) high by (auto simp: stands_for_def)
    then have "128 \<le> byte (hd (snd ch))" by (cases "snd ch") auto
    moreover from this have "hd (snd ch) \<noteq> BACKSLASH" "hd (snd ch) \<noteq> QUOTE" by auto
    ultimately show ?thesis using high d by (simp add: n r)
  qed
qed

lemma unquote_quoted_body:
  assumes "ValidString s" and "length (quoted_body s) \<le> n"
  shows "unquote_body n (quoted_body s) = Some s"
proof -
  have "unquote_body n (concat (map quote_chunk chs)) = Some (concat (map snd chs))"
    if "set chs \<subseteq> set (runes s)" "length (concat (map quote_chunk chs)) \<le> n" for chs n
    using that
  proof (induction chs arbitrary: n)
    case Nil
    then show ?case by (cases n) simp_all
  next
    case (Cons ch chs)
    show ?case
      using Cons ValidString_chunks [OF assms(1), of ch]
        unquote_body_chunk [of ch "concat (map quote_chunk chs)" n "length (concat (map quote_chunk chs))"]
      by simp
  qed
  from this [of "runes s" n] show ?thesis
    using assms(2) by (simp add: quoted_body_def concat_runes)
qed

lemma unquote_json_quote: "ValidString s \<Longrightarrow> unquote (json_quote s) = Some s"
  by (simp add: json_quote_body unquote_def butlast_append unquote_quoted_body del: unquote_body.simps)

section \<open>Separators\<close>

lemma prepend_append [simp]: "prepend (a @ b) xs = prepend a (prepend b xs)"
  by (cases xs) simp_all

lemma prepend_Cons: "b \<noteq> [] \<Longrightarrow> prepend (c # b) xs = prepend [c] (prepend b xs)"
  using prepend_append [of "[c]" b xs] by simp

lemma split_top_nonempty: "split_top sep d q s \<noteq> []"
proof -
  have "prepend x xs \<noteq> []" for x xs by (cases xs) simp_all
  then show ?thesis by (cases "(sep, d, q, s)" rule: split_top.cases) simp_all
qed

lemma prepend_Nil: "xs \<noteq> [] \<Longrightarrow> prepend [] xs = xs"
  by (cases xs) simp_all

lemma split_top_literal:
  "literal_body b \<Longrightarrow> split_top sep d True (b @ QUOTE # rest) = prepend (b @ [QUOTE]) (split_top sep d False rest)"
proof (induction b rule: literal_body.induct)
  case 1
  show ?case by (cases rest) simp_all
next
  case (2 c cs)
  show ?case
  proof (cases "c = BACKSLASH")
    case True
    then obtain e cs' where "cs = e # cs'" "literal_body cs'" using 2(3) by (auto split: list.splits)
    then show ?thesis using 2(1) [OF True] True prepend_append [of "[c, e]" "cs' @ [QUOTE]"] by simp
  next
    case False
    then have l: "c \<noteq> QUOTE" "literal_body cs" using 2(3) by auto
    obtain e r where e: "cs @ QUOTE # rest = e # r" by (cases "cs @ QUOTE # rest") auto
    have "split_top sep d True (c # cs @ QUOTE # rest) = prepend [c] (split_top sep d True (cs @ QUOTE # rest))"
      using False l by (simp add: e)
    then show ?thesis using 2(2) [OF False l(2)] prepend_append [of "[c]" "cs @ [QUOTE]"] by simp
  qed
qed

text \<open>A text without a separator outside of its own brackets and literals.\<close>

definition passes :: "char \<Rightarrow> nat \<Rightarrow> string \<Rightarrow> bool" where
  "passes sep d t \<longleftrightarrow> (\<forall>rest. split_top sep d False (t @ rest) = prepend t (split_top sep d False rest))"

lemma passesD: "passes sep d t \<Longrightarrow> split_top sep d False (t @ rest) = prepend t (split_top sep d False rest)"
  by (simp add: passes_def)

lemma passes_end: "passes sep d t \<Longrightarrow> split_top sep d False t = [t]"
  using passesD [of sep d t "[]"] by simp

lemma passes_Nil: "passes sep d []"
  by (simp add: passes_def prepend_Nil split_top_nonempty)

lemma passes_append: "passes sep d s \<Longrightarrow> passes sep d t \<Longrightarrow> passes sep d (s @ t)"
  by (simp add: passes_def)

definition bracket :: "char \<Rightarrow> bool" where
  "bracket c \<longleftrightarrow> c = QUOTE \<or> c = CHR ''['' \<or> c = CHR '']'' \<or> c = CHR ''{'' \<or> c = CHR ''}''"

lemma passes_char: "\<not> bracket c \<Longrightarrow> c \<noteq> sep \<or> 0 < d \<Longrightarrow> passes sep d [c]"
  by (auto simp: passes_def bracket_def)

lemma passes_chars: "list_all (\<lambda>c. \<not> bracket c \<and> (c \<noteq> sep \<or> 0 < d)) t \<Longrightarrow> passes sep d t"
proof (induction t)
  case (Cons c t)
  then show ?case using passes_append [of sep d "[c]" t] passes_char [of c sep d] by simp
qed (simp add: passes_Nil)

lemma passes_quote: "ValidString s \<Longrightarrow> passes sep d (json_quote s)"
  using split_top_literal [OF literal_quoted_body [of s], of sep d] prepend_append [of "[QUOTE]" "quoted_body s @ [QUOTE]"]
  by (simp add: passes_def json_quote_body)

lemma passes_brackets:
  assumes "passes sep (Suc d) t" and "\<not> bracket sep" and "(b, e) \<in> {(CHR ''['', CHR '']''), (CHR ''{'', CHR ''}'')}"
  shows "passes sep d (b # t @ [e])"
proof -
  have "split_top sep d False (b # t @ e # rest) = prepend [b] (prepend t (prepend [e] (split_top sep d False rest)))" for rest
    using assms passesD [OF assms(1), of "e # rest"] by (auto simp: bracket_def)
  then show ?thesis using prepend_append [of "[b]" "t @ [e]"] by (simp add: passes_def)
qed

lemma passes_Join:
  "list_all (passes sep (Suc d)) xs \<Longrightarrow> passes sep (Suc d) (Join xs '','')"
proof (induction xs "'',''" rule: Join.induct)
  case (3 x y ys)
  have "passes sep (Suc d) '',''" by (rule passes_char) (simp_all add: bracket_def)
  then have "passes sep (Suc d) (x @ '','' @ Join (y # ys) '','')" using 3 by (intro passes_append) simp_all
  then show ?case by (simp only: Join.simps)
qed (simp_all add: passes_Nil)

lemma split_Join:
  assumes "xs \<noteq> []" and "list_all (passes (CHR '','') 0) xs" and "passes (CHR '','') 0 tail"
  shows "split_top (CHR '','') 0 False (Join xs '','' @ tail) = butlast xs @ [last xs @ tail]"
  using assms(1,2)
proof (induction xs "'',''" rule: Join.induct)
  case (2 x)
  then show ?case using passes_end [OF passes_append [OF _ assms(3)]] by simp
next
  case (3 x y ys)
  have "split_top (CHR '','') 0 False (x @ '','' @ Join (y # ys) '','' @ tail) =
      prepend x ([] # split_top (CHR '','') 0 False (Join (y # ys) '','' @ tail))"
    using 3(3) passesD [of "CHR '',''" 0 x] by simp
  then show ?case using 3 by simp
qed simp
section \<open>Values\<close>

text \<open>
  Values that are told from their text: strings in valid UTF-8, keys in order, and numbers whose shortest
  decimal is read back as the number, in the syntax of JSON. Every number the program puts into a
  configuration is; of the numbers a user has in there this is checked by \<open>number_ok\<close> itself.
\<close>

definition number_char :: "char \<Rightarrow> bool" where
  "number_char c \<longleftrightarrow> is_digit c \<or> c \<in> {CHR ''-'', CHR ''+'', CHR ''.'', CHR ''e''}"

lemma number_char_facts:
  "number_char c \<Longrightarrow> \<not> json_space c" "number_char c \<Longrightarrow> \<not> bracket c" "number_char c \<Longrightarrow> c \<noteq> CHR '','' \<and> c \<noteq> CHR '':''"
  by (auto simp: number_char_def json_space_def bracket_def is_digit_def)

definition number_ok :: "float64 \<Rightarrow> bool" where
  "number_ok x \<longleftrightarrow> ParseFloat (float_text x) = Some x \<and> json_Valid (float_text x) \<and> list_all number_char (float_text x)"

fun encodable :: "json \<Rightarrow> bool" where
  "encodable (JNumber x) = number_ok x"
| "encodable (JInt i) = False"
| "encodable (JString s) = ValidString s"
| "encodable (JArray vs) = list_all encodable vs"
| "encodable (JObject kvs) = (ordered_map kvs \<and> list_all (\<lambda>kv. ValidString (fst kv) \<and> encodable (snd kv)) kvs)"
| "encodable JNull = True"
| "encodable (JBool b) = True"

lemma number_text_start:
  assumes "json_Valid t" and "list_all number_char t"
  shows "\<exists>c cs. t = c # cs \<and> (is_digit c \<or> c = CHR ''-'')"
proof (cases t)
  case Nil
  then show ?thesis using assms(1) by (simp add: go_eval)
next
  case (Cons c cs)
  have n: "number_char c" using assms(2) Cons by simp
  have "begin_value [] c \<noteq> scan_error"
    using assms(1) number_char_facts(1) [OF n]
    by (auto simp: json_Valid_def Cons compact_from_eval [of "(BeginValue, [])"] scan_init_def scan_error_def)
  then have "is_digit c \<or> c = CHR ''-''"
    using n by (auto simp: number_char_def begin_value_def)
  then show ?thesis using Cons by blast
qed

text \<open>Text that begins and ends with something.\<close>

definition solid_ends :: "string \<Rightarrow> bool" where
  "solid_ends t \<longleftrightarrow> t \<noteq> [] \<and> \<not> json_space (hd t) \<and> \<not> json_space (last t)"

lemma dropWhile_spaces: "list_all json_space ws \<Longrightarrow> \<not> json_space (hd t) \<Longrightarrow> t \<noteq> [] \<Longrightarrow> dropWhile json_space (ws @ t) = t"
  by (induction ws) (auto simp: neq_Nil_conv)

lemma json_trim_solid:
  assumes "solid_ends t" and "list_all json_space ws" and "list_all json_space ws'"
  shows "json_trim (ws @ t @ ws') = t"
proof -
  have "dropWhile json_space (ws @ t @ ws') = t @ ws'"
    using dropWhile_spaces [of ws "t @ ws'"] assms by (simp add: solid_ends_def)
  moreover have "dropWhile json_space (rev ws' @ rev t) = rev t"
    using dropWhile_spaces [of "rev ws'" "rev t"] assms by (simp add: solid_ends_def hd_rev list_all_iff)
  ultimately show ?thesis by (simp add: json_trim_def)
qed

lemma json_trim_id: "solid_ends t \<Longrightarrow> json_trim t = t"
  using json_trim_solid [of t "[]" "[]"] by simp

lemma number_text_solid: "list_all number_char t \<Longrightarrow> t \<noteq> [] \<Longrightarrow> solid_ends t"
  by (simp add: solid_ends_def list_all_iff number_char_facts)

lemma json_newline_spaces [simp]: "list_all json_space (json_newline d)"
  by (simp add: json_newline_def json_space_def list_all_iff)

lemma solid_brackets: "solid_ends (CHR ''['' # t @ [CHR '']''])" "solid_ends (CHR ''{'' # t @ [CHR ''}''])" "solid_ends (json_quote s)"
  by (simp_all add: solid_ends_def json_space_def json_quote_body)

text \<open>The text of an array and of an object.\<close>

definition array_items :: "nat \<Rightarrow> json list \<Rightarrow> string list" where
  "array_items d vs = map (\<lambda>v. json_newline (Suc d) @ json_indent (Suc d) v) vs"

definition object_items :: "nat \<Rightarrow> (string \<times> json) list \<Rightarrow> string list" where
  "object_items d kvs = map (\<lambda>kv. json_newline (Suc d) @ json_quote (fst kv) @ '': '' @ json_indent (Suc d) (snd kv)) kvs"

lemma json_indent_array:
  "json_indent d (JArray vs) = CHR ''['' # (if vs = [] then [] else Join (array_items d vs) '','' @ json_newline d) @ [CHR '']'']"
  by (simp add: array_items_def)

lemma json_indent_object:
  "json_indent d (JObject kvs) = CHR ''{'' # (if kvs = [] then [] else Join (object_items d kvs) '','' @ json_newline d) @ [CHR ''}'']"
  by (simp add: object_items_def)

lemma solid_indent: "encodable v \<Longrightarrow> solid_ends (json_indent d v)"
proof (cases v)
  case (JNumber x)
  assume "encodable v"
  then have n: "json_Valid (float_text x)" "list_all number_char (float_text x)" by (simp_all add: JNumber number_ok_def)
  then have "float_text x \<noteq> []" using number_text_start by fastforce
  then show ?thesis using number_text_solid n(2) by (simp add: JNumber)
qed (simp_all add: json_indent_array json_indent_object solid_brackets, simp_all add: solid_ends_def json_space_def)

lemma passes_newline: "0 < k \<or> \<not> json_space sep \<Longrightarrow> passes sep k (json_newline d)"
  by (rule passes_chars) (auto simp: json_newline_def bracket_def list_all_iff json_space_def)

lemma passes_indent:
  "encodable v \<Longrightarrow> sep \<in> {CHR '','', CHR '':''} \<Longrightarrow> passes sep k (json_indent d v)"
proof (induction d v arbitrary: k rule: json_indent.induct)
  case (3 d x)
  then have "list_all number_char (float_text x)" by (simp add: number_ok_def)
  then show ?case
    using 3(2) number_char_facts by (auto intro!: passes_chars simp: list_all_iff)
next
  case (6 d vs)
  have "passes sep (Suc k) (json_indent (Suc d) v)" if "v \<in> set vs" for v
    using 6(1) [OF _ that] 6(2,3) that by (cases "vs = []") (simp_all add: list_all_iff)
  then have "list_all (passes sep (Suc k)) (array_items d vs)"
    by (auto simp: array_items_def list_all_iff intro!: passes_append passes_newline)
  then show ?case
    using 6(3) unfolding json_indent_array
    by (intro passes_brackets) (auto intro!: passes_append passes_Join passes_newline simp: passes_Nil bracket_def)
next
  case (7 d kvs)
  have v: "passes sep (Suc k) (json_indent (Suc d) (snd kv))" "ValidString (fst kv)" if "kv \<in> set kvs" for kv
    using 7(1) [OF _ that] 7(2,3) that by (cases "kvs = []"; simp add: list_all_iff)+
  have "passes sep (Suc k) '': ''" by (rule passes_chars) (simp add: bracket_def)
  then have "list_all (passes sep (Suc k)) (object_items d kvs)"
    unfolding object_items_def list_all_iff set_map ball_simps
    by (intro ballI passes_append passes_newline passes_quote v) auto
  then show ?case
    using 7(3) unfolding json_indent_object
    by (intro passes_brackets) (auto intro!: passes_append passes_Join passes_newline simp: passes_Nil bracket_def)
qed (auto intro!: passes_chars passes_quote simp: bracket_def)

section \<open>Decoding\<close>

lemma json_trim_eq_Nil: "json_trim s = [] \<longleftrightarrow> list_all json_space s"
proof
  assume "json_trim s = []"
  then have a: "list_all json_space (dropWhile json_space s)" by (simp add: json_trim_def list_all_iff)
  have "dropWhile json_space s = []"
  proof (rule ccontr)
    assume n: "dropWhile json_space s \<noteq> []"
    then have "\<not> json_space (hd (dropWhile json_space s))" by (rule hd_dropWhile)
    then show False using a n by (simp add: list_all_iff)
  qed
  then show "list_all json_space s" by (simp add: list_all_iff)
next
  assume "list_all json_space s"
  then have "dropWhile json_space s = []" by (simp add: list_all_iff)
  then show "json_trim s = []" by (simp add: json_trim_def del: dropWhile_eq_Nil_conv)
qed

lemma members_of_items:
  assumes "xs \<noteq> []" and "list_all (passes (CHR '','') 0) xs" and "\<And>x. x \<in> set xs \<Longrightarrow> json_trim x = f x \<and> json_trim (x @ json_newline d) = f x"
    and "\<And>x. x \<in> set xs \<Longrightarrow> f x \<noteq> []"
  shows "members (Join xs '','' @ json_newline d) = map f xs"
proof -
  have t: "passes (CHR '','') 0 (json_newline d)" by (rule passes_newline) (simp add: json_space_def)
  have s: "map json_trim (split_top (CHR '','') 0 False (Join xs '','' @ json_newline d)) = map f xs"
  proof -
    have "map json_trim (butlast xs) = map f (butlast xs)" using assms(3) by (auto dest: in_set_butlastD)
    moreover have "json_trim (last xs @ json_newline d) = f (last xs)" using assms(1,3) by simp
    moreover have "map f (butlast xs) @ [f (last xs)] = map f xs"
      using assms(1) by (metis append_butlast_last_id list.simps(8,9) map_append)
    ultimately show ?thesis by (simp only: split_Join [OF assms(1,2) t] map_append list.map)
  qed
  have "json_trim (Join xs '','' @ json_newline d) \<noteq> []"
  proof
    assume e: "json_trim (Join xs '','' @ json_newline d) = []"
    then have "list_all json_space (Join xs '','' @ json_newline d)" by (simp only: json_trim_eq_Nil)
    moreover obtain x ys where "xs = x # ys" using assms(1) by (cases xs) auto
    then have "set x \<subseteq> set (Join xs '','')" by (cases ys) auto
    ultimately have "list_all json_space x" by (auto simp: list_all_iff)
    then have "json_trim x = []" by (simp only: json_trim_eq_Nil)
    then show False using assms(3,4) \<open>xs = x # ys\<close> by fastforce
  qed
  then show ?thesis using s by (simp add: members_def)
qed

lemma members_empty: "members [] = []"
  by (simp add: members_def json_trim_def)

lemma members_array:
  assumes "list_all encodable vs"
  shows "members (if vs = [] then [] else Join (array_items d vs) '','' @ json_newline d) = map (json_indent (Suc d)) vs"
proof (cases "vs = []")
  case False
  have t: "json_trim (json_newline (Suc d) @ json_indent (Suc d) v @ ws) = json_indent (Suc d) v"
    if "v \<in> set vs" "list_all json_space ws" for v ws
    using that assms by (intro json_trim_solid solid_indent json_newline_spaces) (simp_all add: list_all_iff)
  define f where "f x = json_trim x" for x
  have "members (Join (array_items d vs) '','' @ json_newline d) = map f (array_items d vs)"
  proof (rule members_of_items)
    show "list_all (passes (CHR '','') 0) (array_items d vs)"
      using assms by (auto simp: array_items_def list_all_iff intro!: passes_append passes_newline passes_indent simp: json_space_def)
    show "json_trim x = f x \<and> json_trim (x @ json_newline d) = f x" if "x \<in> set (array_items d vs)" for x
      using that t [of _ "[]"] t [of _ "json_newline d"] by (auto simp: array_items_def f_def)
    show "f x \<noteq> []" if "x \<in> set (array_items d vs)" for x
      using that t [of _ "[]"] assms solid_indent by (fastforce simp: array_items_def f_def list_all_iff solid_ends_def)
  qed (use False in \<open>simp add: array_items_def\<close>)
  also have "\<dots> = map (json_indent (Suc d)) vs"
    using t [of _ "[]"] by (simp add: array_items_def f_def)
  finally show ?thesis using False by simp
qed (simp add: members_empty)

definition member_text :: "nat \<Rightarrow> string \<times> json \<Rightarrow> string" where
  "member_text d kv = json_quote (fst kv) @ '': '' @ json_indent (Suc d) (snd kv)"

lemma member_text_solid: "encodable (snd kv) \<Longrightarrow> solid_ends (member_text d kv)"
  using solid_indent [of "snd kv" "Suc d"] by (auto simp: solid_ends_def member_text_def json_quote_body json_space_def)

lemma members_object:
  assumes "list_all (\<lambda>kv. ValidString (fst kv) \<and> encodable (snd kv)) kvs"
  shows "members (if kvs = [] then [] else Join (object_items d kvs) '','' @ json_newline d) = map (member_text d) kvs"
proof (cases "kvs = []")
  case False
  have t: "json_trim (json_newline (Suc d) @ member_text d kv @ ws) = member_text d kv"
    if "kv \<in> set kvs" "list_all json_space ws" for kv ws
    using that assms by (intro json_trim_solid member_text_solid json_newline_spaces) (simp_all add: list_all_iff)
  have i: "object_items d kvs = map (\<lambda>kv. json_newline (Suc d) @ member_text d kv) kvs"
    by (simp add: object_items_def member_text_def)
  define f where "f x = json_trim x" for x
  have "passes (CHR '','') 0 '': ''" by (rule passes_chars) (simp add: bracket_def)
  then have p: "list_all (passes (CHR '','') 0) (object_items d kvs)"
    unfolding i list_all_iff set_map ball_simps member_text_def
    using assms by (intro ballI passes_append passes_newline passes_quote passes_indent) (auto simp: json_space_def list_all_iff)
  have "members (Join (object_items d kvs) '','' @ json_newline d) = map f (object_items d kvs)"
  proof (rule members_of_items [OF _ p])
    show "json_trim x = f x \<and> json_trim (x @ json_newline d) = f x" if "x \<in> set (object_items d kvs)" for x
      using that t [of _ "[]"] t [of _ "json_newline d"] by (auto simp: i f_def)
    show "f x \<noteq> []" if "x \<in> set (object_items d kvs)" for x
      using that t [of _ "[]"] by (auto simp: i f_def member_text_def json_quote_body)
  qed (use False in \<open>simp add: i\<close>)
  also have "\<dots> = map (member_text d) kvs"
    using t [of _ "[]"] by (simp add: i f_def)
  finally show ?thesis using False by simp
qed (simp add: members_empty)

lemma key_value_member:
  assumes "ValidString (fst kv)" and "encodable (snd kv)"
  shows "key_value (member_text d kv) = (fst kv, json_indent (Suc d) (snd kv))"
proof -
  let ?v = "CHR '' '' # json_indent (Suc d) (snd kv)"
  have "passes (CHR '':'') 0 ([CHR '' ''] @ json_indent (Suc d) (snd kv))"
    by (intro passes_append passes_indent passes_char) (use assms in \<open>simp_all add: bracket_def\<close>)
  from passes_end [OF this] have "split_top (CHR '':'') 0 False ?v = [?v]" by simp
  then have s: "split_top (CHR '':'') 0 False (member_text d kv) = [json_quote (fst kv), ?v]"
    using passesD [OF passes_quote [OF assms(1), of "CHR '':''" 0], of "CHR '':'' # ?v"] by (simp add: member_text_def)
  have "json_trim ([CHR '' ''] @ json_indent (Suc d) (snd kv) @ []) = json_indent (Suc d) (snd kv)"
    by (intro json_trim_solid solid_indent) (use assms in \<open>simp_all add: json_space_def\<close>)
  then show ?thesis
    by (simp add: key_value_def s json_trim_id [OF solid_brackets(3)] unquote_json_quote [OF assms(1)])
qed

lemma put_entries_ordered: "ordered_map kvs \<Longrightarrow> put_entries kvs = kvs"
proof -
  have "map_put k x kvs = kvs @ [(k, x)]" if "\<forall>kv \<in> set kvs. fst kv < k" for k and x :: 'a and kvs
    using that by (induction kvs) auto
  then have "ordered_map (m @ kvs) \<Longrightarrow> foldl (\<lambda>m kv. map_put (fst kv) (snd kv) m) m kvs = m @ kvs" for m kvs :: "(string \<times> 'a) list"
    by (induction kvs arbitrary: m) (auto simp: ordered_map_def sorted_wrt_append)
  from this [of "[]"] show "ordered_map kvs \<Longrightarrow> put_entries kvs = kvs" by (simp add: put_entries_def)
qed

lemma those_map_Some: "(\<And>x. x \<in> set xs \<Longrightarrow> f x = Some (g x)) \<Longrightarrow> those (map f xs) = Some (map g xs)"
  by (induction xs) simp_all

lemma inner_brackets: "inner (c # t @ [e]) = t"
  by (simp add: inner_def)

theorem decode_json_indent:
  "encodable v \<Longrightarrow> json_trim raw = json_indent d v \<Longrightarrow> decode_any raw = Some v"
proof (induction v arbitrary: raw d rule: encodable.induct)
  case (1 x)
  then have n: "ParseFloat (float_text x) = Some x" "json_Valid (float_text x)" "list_all number_char (float_text x)"
    by (simp_all add: number_ok_def)
  obtain c cs where c: "float_text x = c # cs" "is_digit c \<or> c = CHR ''-''"
    using number_text_start [OF n(2,3)] by blast
  have "c \<noteq> CHR ''n''" "c \<noteq> QUOTE" "c \<noteq> CHR ''[''" "c \<noteq> CHR ''{''" "c \<noteq> CHR ''t''" "c \<noteq> CHR ''f''"
    using c(2) by (auto simp: is_digit_def)
  then show ?case
    using 1(2) n(1) c(1) by (simp add: decode_any.simps [of raw] shape_of_def decode_literal_def HasPrefix_single)
next
  case (3 s)
  then have "hd (json_trim raw) = QUOTE" "json_trim raw \<noteq> []" "unquote (json_trim raw) = Some s"
    by (simp_all add: unquote_json_quote) (simp_all add: json_quote_body)
  then show ?case by (simp add: decode_any.simps [of raw] shape_of_def)
next
  case (4 vs)
  have "shape_of raw = ShArray (map (json_indent (Suc d)) vs)"
    using 4(3) members_array [of vs d] 4(2) unfolding json_indent_array
    by (simp add: shape_of_def inner_brackets)
  moreover have "those (map (\<lambda>v. decode_any (json_indent (Suc d) v)) vs) = Some (map id vs)"
  proof (rule those_map_Some)
    fix v assume v: "v \<in> set vs"
    then have "encodable v" using 4(2) by (simp add: list_all_iff)
    then show "decode_any (json_indent (Suc d) v) = Some (id v)"
      using 4(1) [OF v _ json_trim_id [OF solid_indent]] by simp
  qed
  ultimately show ?case by (simp add: decode_any.simps [of raw] comp_def)
next
  case (5 kvs)
  let ?kvs = "map (\<lambda>kv. (fst kv, json_indent (Suc d) (snd kv))) kvs"
  have "map key_value (map (member_text d) kvs) = ?kvs"
    using 5(2) by (simp add: key_value_member list_all_iff)
  then have "shape_of raw = ShObject ?kvs"
    using 5(3) members_object [of kvs d] 5(2) unfolding json_indent_object
    by (simp add: shape_of_def inner_brackets)
  moreover have "those (map (\<lambda>kv. decode_any (json_indent (Suc d) (snd kv))) kvs) = Some (map snd kvs)"
  proof (rule those_map_Some)
    fix kv assume v: "kv \<in> set kvs"
    then have "encodable (snd kv)" using 5(2) by (simp add: list_all_iff)
    then show "decode_any (json_indent (Suc d) (snd kv)) = Some (snd kv)"
      using 5(1) [OF v _ json_trim_id [OF solid_indent]] by simp
  qed
  moreover have "zip (map fst kvs) (map snd kvs) = kvs" by (simp add: zip_map_fst_snd)
  ultimately show ?case
    using 5(2) by (simp add: decode_any.simps [of raw] comp_def put_entries_ordered)
next
  case 6
  then show ?case by (simp add: decode_any.simps [of raw] shape_of_def)
next
  case (7 b)
  then show ?case by (cases b) (simp_all add: decode_any.simps [of raw] shape_of_def decode_literal_def HasPrefix_single)
qed simp

section \<open>The scanner\<close>

fun scan_all :: "scanner \<Rightarrow> string \<Rightarrow> scanner option" where
  "scan_all sc [] = Some sc"
| "scan_all sc (c # cs) = (if snd (scan_step sc c) = ScanError then None else scan_all (fst (scan_step sc c)) cs)"

lemma compact_scan_all: "compact_from sc s \<noteq> None \<longleftrightarrow> (\<exists>sc'. scan_all sc s = Some sc' \<and> scan_eof sc')"
proof (induction s arbitrary: sc)
  case (Cons c cs)
  then show ?case by (cases "snd (scan_step sc c)") (auto simp: compact_from_eval [of sc])
qed simp

lemma scan_all_append:
  "scan_all sc (s @ t) = (case scan_all sc s of None \<Rightarrow> None | Some sc' \<Rightarrow> scan_all sc' t)"
  by (induction s arbitrary: sc) simp_all

lemma scan_keep: "scan_step sc c = keep st stk \<Longrightarrow> scan_all sc (c # cs) = scan_all (st, stk) cs"
  by (simp add: keep_def)

subsection \<open>Strings\<close>

lemma scan_high: "list_all (\<lambda>c. 128 \<le> byte c) s \<Longrightarrow> scan_all (InString, stk) s = Some (InString, stk)"
  by (induction s) (auto simp: keep_def)

lemma scan_chunk:
  assumes "stands_for (fst ch) (snd ch)" and "\<not> bad_chunk ch"
  shows "scan_all (InString, stk) (quote_chunk ch) = Some (InString, stk)"
  using assms
proof (cases rule: quote_chunk_cases)
  case (hex h1 h2 h3 h4)
  then show ?thesis by (simp add: keep_def)
next
  case high
  then show ?thesis using assms(1) by (simp add: stands_for_def scan_high)
qed (auto simp: keep_def)

lemma scan_quote:
  assumes "ValidString s"
  shows "scan_all (InString, stk) (quoted_body s @ [QUOTE]) = Some (EndValue, stk)"
proof -
  have "scan_all (InString, stk) (concat (map quote_chunk chs)) = Some (InString, stk)" if "set chs \<subseteq> set (runes s)" for chs
    using that
  proof (induction chs)
    case (Cons ch chs)
    then show ?case using ValidString_chunks [OF assms, of ch] scan_chunk [of ch stk] by (simp add: scan_all_append)
  qed simp
  then show ?thesis by (simp add: scan_all_append quoted_body_def keep_def)
qed

subsection \<open>Numbers\<close>

text \<open>Inside a number the scanner does not look at its stack.\<close>

definition number_state :: "scan_state \<Rightarrow> bool" where
  "number_state st \<longleftrightarrow> st \<in> {Neg, Num1, Num0, Dot, Dot0, ExpE, ExpESign, ExpE0}"

lemma end_value_number: "number_char c \<Longrightarrow> end_value stk c = scan_error"
  using number_char_facts [of c]
  by (cases stk) (auto simp: bracket_def scan_result_defs split: parse_state.split)

fun number_next :: "scan_state \<Rightarrow> char \<Rightarrow> scan_state option" where
  "number_next Neg c = (if c = CHR ''0'' then Some Num0 else if is_digit c then Some Num1 else None)"
| "number_next Num1 c = (if is_digit c then Some Num1 else if c = CHR ''.'' then Some Dot else if c = CHR ''e'' then Some ExpE else None)"
| "number_next Num0 c = (if c = CHR ''.'' then Some Dot else if c = CHR ''e'' then Some ExpE else None)"
| "number_next Dot c = (if is_digit c then Some Dot0 else None)"
| "number_next Dot0 c = (if is_digit c then Some Dot0 else if c = CHR ''e'' then Some ExpE else None)"
| "number_next ExpE c = (if c = CHR ''+'' \<or> c = CHR ''-'' then Some ExpESign else if is_digit c then Some ExpE0 else None)"
| "number_next ExpESign c = (if is_digit c then Some ExpE0 else None)"
| "number_next ExpE0 c = (if is_digit c then Some ExpE0 else None)"
| "number_next _ c = None"

lemma number_next_state: "number_next st c = Some st' \<Longrightarrow> number_state st'"
  by (cases "(st, c)" rule: number_next.cases) (auto simp: number_state_def split: if_splits)

lemma number_next_step:
  assumes "number_state st" and "number_char c"
  shows "scan_step (st, stk) c = (case number_next st c of None \<Rightarrow> scan_error | Some st' \<Rightarrow> keep st' stk)"
proof -
  have "c \<noteq> CHR ''E''" using assms(2) by (auto simp: number_char_def is_digit_def)
  then show ?thesis
    using assms(1) unfolding number_state_def insert_iff empty_iff
    by (elim disjE) (simp_all add: num0_def end_value_number [OF assms(2)])
qed

lemma number_step:
  assumes "number_state st" and "number_char c"
  shows "(\<exists>st'. number_state st' \<and> scan_step (st, stk) c = keep st' stk \<and> scan_step (st, stk') c = keep st' stk') \<or>
    scan_step (st, stk) c = scan_error \<and> scan_step (st, stk') c = scan_error"
proof (cases "number_next st c")
  case None
  then show ?thesis by (simp add: number_next_step [OF assms])
next
  case (Some st')
  then show ?thesis using number_next_state [OF Some] by (intro disjI1 exI [of _ st']) (simp add: number_next_step [OF assms])
qed

lemma number_scan:
  assumes "number_state st" and "list_all number_char t" and "scan_all (st, stk) t = Some sc"
  shows "\<exists>st'. number_state st' \<and> sc = (st', stk) \<and> scan_all (st, stk') t = Some (st', stk')"
  using assms
proof (induction t arbitrary: st)
  case (Cons c t)
  have c: "number_char c" "list_all number_char t" using Cons.prems(2) by simp_all
  consider st' where "number_state st'" "scan_step (st, stk) c = keep st' stk" "scan_step (st, stk') c = keep st' stk'"
    | "scan_step (st, stk) c = scan_error"
    using number_step [OF Cons.prems(1) c(1), of stk stk'] by blast
  then show ?case
  proof cases
    case 1
    then show ?thesis using Cons.IH [OF 1(1) c(2)] Cons.prems(3) by (simp add: keep_def)
  next
    case 2
    then show ?thesis using Cons.prems(3) by (simp add: scan_error_def)
  qed
qed simp

lemma number_eof: "number_state st \<Longrightarrow> scan_eof (st, []) \<Longrightarrow> value_end st"
  by (auto simp: number_state_def value_end_def scan_eof_def keep_def scan_error_def is_digit_def)

lemma scan_number:
  assumes "json_Valid t" and "list_all number_char t"
  shows "\<exists>st. value_end st \<and> scan_all (BeginValue, stk) t = Some (st, stk)"
proof -
  obtain c cs where t: "t = c # cs" "is_digit c \<or> c = CHR ''-''" using number_text_start [OF assms] by blast
  then have n: "\<not> json_space c" "list_all number_char cs"
    using assms(2) number_char_facts(1) by auto
  obtain st where st: "number_state st" "begin_value k c = keep st k" for k
  proof -
    have "c \<noteq> CHR ''{'' \<and> c \<noteq> CHR ''['' \<and> c \<noteq> QUOTE \<and> c \<noteq> CHR ''t'' \<and> c \<noteq> CHR ''f'' \<and> c \<noteq> CHR ''n''"
      using t(2) by (auto simp: is_digit_def)
    then have "begin_value k c = keep (if c = CHR ''-'' then Neg else if c = CHR ''0'' then Num0 else Num1) k" for k
      using t(2) by (auto simp: begin_value_def)
    then show thesis by (intro that) (auto simp: number_state_def)
  qed
  obtain sc where sc: "scan_all (BeginValue, []) t = Some sc" "scan_eof sc"
    using assms(1) compact_scan_all [of scan_init t] by (auto simp: json_Valid_def scan_init_def)
  then have "scan_all (st, []) cs = Some sc" using t n st(2) by (simp add: keep_def)
  from number_scan [OF st(1) n(2) this, of stk] sc(2)
  obtain st' where "value_end st'" "scan_all (st, stk) cs = Some (st', stk)" using number_eof by blast
  then show ?thesis using t n st(2) by (auto simp: keep_def)
qed

subsection \<open>Whole values\<close>

fun json_depth :: "json \<Rightarrow> nat" where
  "json_depth (JArray vs) = Suc (foldr (\<lambda>v. max (json_depth v)) vs 0)"
| "json_depth (JObject kvs) = Suc (foldr (\<lambda>kv. max (json_depth (snd kv))) kvs 0)"
| "json_depth v = 0"

lemma foldr_max: "x \<in> set xs \<Longrightarrow> f x \<le> foldr (\<lambda>x. max (f x)) xs (0 :: nat)"
  by (induction xs) (auto simp: le_max_iff_disj)

lemma scan_spaces:
  assumes "st \<in> {BeginValue, BeginValueOrEmpty, BeginString, BeginStringOrEmpty}" and "list_all json_space ws"
  shows "scan_all (st, stk) (ws @ t) = scan_all (st, stk) t"
  using assms(2) by (induction ws) (use assms(1) in auto)

text \<open>The state after a value; behind it stands a separator, a bracket or white space.\<close>

definition after_value :: "scan_state \<Rightarrow> parse_state list \<Rightarrow> bool" where
  "after_value st stk \<longleftrightarrow> value_end st \<or> st = EndTop \<and> stk = []"

lemma after_value_nested: "after_value st (p # stk) \<longleftrightarrow> value_end st"
  by (simp add: after_value_def)

lemma after_value_step:
  "value_end st \<Longrightarrow> c \<in> {CHR '','', CHR '':'', CHR '']'', CHR ''}''} \<Longrightarrow> scan_step (st, p # stk) c = end_value (p # stk) c"
  by (rule value_end_step) (auto simp: is_digit_def)

lemma scan_after_spaces:
  assumes "value_end st" and "list_all json_space ws"
  shows "\<exists>st'. value_end st' \<and> scan_all (st, p # stk) (ws @ t) = scan_all (st', p # stk) t"
  using assms
proof (induction ws arbitrary: st)
  case (Cons c ws)
  have "scan_step (st, p # stk) c = ((EndValue, p # stk), DropSpace)"
    using value_end_step [OF Cons.prems(1), of c "p # stk"] json_space_not_digit [of c] Cons.prems(2) by simp
  then show ?case using Cons.IH [of EndValue] Cons.prems(2) by (simp add: value_end_def)
qed auto

lemma scan_begin_empty:
  assumes "list_all json_space ws" and "t \<noteq> []" and "\<not> json_space (hd t)" and "hd t \<noteq> CHR '']''"
  shows "scan_all (BeginValueOrEmpty, stk) (ws @ t) = scan_all (BeginValue, stk) t"
proof -
  have "scan_all (BeginValueOrEmpty, stk) t = scan_all (BeginValue, stk) t"
    using assms(2-4) by (cases t) simp_all
  then show ?thesis using scan_spaces [OF _ assms(1), of BeginValueOrEmpty] by simp
qed

lemma after_value_pop: "after_value (if stk = [] then EndTop else EndValue) stk"
  by (simp add: after_value_def value_end_def)

lemma indent_start:
  assumes "encodable v"
  shows "json_indent d v \<noteq> [] \<and> \<not> json_space (hd (json_indent d v)) \<and> hd (json_indent d v) \<noteq> CHR '']''"
proof (cases v)
  case (JNumber x)
  then obtain c cs where "float_text x = c # cs" "is_digit c \<or> c = CHR ''-''"
    using assms number_text_start [of "float_text x"] by (auto simp: number_ok_def)
  moreover from this have "c \<noteq> CHR '']''" by (auto simp: is_digit_def)
  ultimately show ?thesis using solid_indent [OF assms, of d] JNumber by (auto simp: solid_ends_def)
qed (use solid_indent [OF assms, of d] assms in \<open>auto simp: solid_ends_def json_indent_array json_indent_object json_quote_body split: if_splits\<close>)

text \<open>A value is read to its end wherever one may begin.\<close>

definition reads :: "parse_state list \<Rightarrow> string \<Rightarrow> bool" where
  "reads stk t \<longleftrightarrow> (\<exists>st. after_value st stk \<and> scan_all (BeginValue, stk) t = Some (st, stk))"

lemma scan_items:
  assumes "vs \<noteq> []" and "\<And>v. v \<in> set vs \<Longrightarrow> reads (ParseArrayValue # stk) (json_indent (Suc d) v)"
  shows "\<exists>st. value_end st \<and> scan_all (BeginValue, ParseArrayValue # stk) (Join (array_items d vs) '','') = Some (st, ParseArrayValue # stk)"
  using assms
proof (induction vs)
  case (Cons v vs)
  obtain st where st: "value_end st" "scan_all (BeginValue, ParseArrayValue # stk) (json_indent (Suc d) v) = Some (st, ParseArrayValue # stk)"
    using Cons.prems(2) [of v] by (auto simp: reads_def after_value_nested)
  have i: "scan_all (BeginValue, ParseArrayValue # stk) (json_newline (Suc d) @ json_indent (Suc d) v @ t) =
      scan_all (st, ParseArrayValue # stk) t" for t
    using scan_spaces [of BeginValue "json_newline (Suc d)" "ParseArrayValue # stk" "json_indent (Suc d) v @ t"]
    by (simp add: scan_all_append [of _ "json_indent (Suc d) v"] st(2) del: append_assoc)
  show ?case
  proof (cases "vs = []")
    case True
    then show ?thesis using i [of "[]"] st(1) by (simp add: array_items_def)
  next
    case False
    obtain st' where "value_end st'" "scan_all (BeginValue, ParseArrayValue # stk) (Join (array_items d vs) '','') = Some (st', ParseArrayValue # stk)"
      using Cons False by auto
    moreover have "Join (array_items d (v # vs)) '','' = json_newline (Suc d) @ json_indent (Suc d) v @ '','' @ Join (array_items d vs) '',''"
      using False by (simp add: array_items_def Join_Cons)
    ultimately show ?thesis
      using after_value_step [OF st(1), of "CHR '',''" ParseArrayValue stk] by (simp add: i keep_def json_space_def)
  qed
qed simp

lemma scan_member:
  assumes "ValidString (fst kv)" and "reads (ParseObjectValue # stk) (json_indent (Suc d) (snd kv))"
  shows "\<exists>st. value_end st \<and> (\<forall>t. scan_all (BeginString, ParseObjectKey # stk) (json_newline (Suc d) @ member_text d kv @ t) =
    scan_all (st, ParseObjectValue # stk) t)"
proof -
  obtain st where st: "value_end st"
    "scan_all (BeginValue, ParseObjectValue # stk) (json_indent (Suc d) (snd kv)) = Some (st, ParseObjectValue # stk)"
    using assms(2) by (auto simp: reads_def after_value_nested)
  have k: "scan_all (BeginString, ParseObjectKey # stk) (json_quote (fst kv)) = Some (EndValue, ParseObjectKey # stk)"
    using scan_quote [OF assms(1), of "ParseObjectKey # stk"] by (simp add: json_quote_body begin_string_def keep_def json_space_def)
  have "scan_all (BeginString, ParseObjectKey # stk) (json_newline (Suc d) @ member_text d kv @ t) = scan_all (st, ParseObjectValue # stk) t" for t
  proof -
    have "scan_all (BeginString, ParseObjectKey # stk) (json_newline (Suc d) @ member_text d kv @ t) =
        scan_all (BeginString, ParseObjectKey # stk) (json_quote (fst kv) @ '': '' @ json_indent (Suc d) (snd kv) @ t)"
      using scan_spaces [of BeginString "json_newline (Suc d)" "ParseObjectKey # stk"] by (simp add: member_text_def)
    also have "\<dots> = scan_all (EndValue, ParseObjectKey # stk) ('': '' @ json_indent (Suc d) (snd kv) @ t)"
      by (simp only: scan_all_append [of _ "json_quote (fst kv)"] k option.case)
    also have "\<dots> = scan_all (BeginValue, ParseObjectValue # stk) (json_indent (Suc d) (snd kv) @ t)"
      by (simp add: keep_def json_space_def)
    also have "\<dots> = scan_all (st, ParseObjectValue # stk) t"
      by (simp only: scan_all_append [of _ "json_indent (Suc d) (snd kv)"] st(2) option.case)
    finally show ?thesis .
  qed
  then show ?thesis using st(1) by blast
qed

lemma object_items_member: "object_items d kvs = map (\<lambda>kv. json_newline (Suc d) @ member_text d kv) kvs"
  by (simp add: object_items_def member_text_def)

lemma scan_members:
  assumes "kvs \<noteq> []" and "\<And>kv. kv \<in> set kvs \<Longrightarrow> ValidString (fst kv) \<and> reads (ParseObjectValue # stk) (json_indent (Suc d) (snd kv))"
  shows "\<exists>st. value_end st \<and> scan_all (BeginString, ParseObjectKey # stk) (Join (object_items d kvs) '','') = Some (st, ParseObjectValue # stk)"
  using assms
proof (induction kvs)
  case (Cons kv kvs)
  obtain st where st: "value_end st" "\<And>t. scan_all (BeginString, ParseObjectKey # stk) (json_newline (Suc d) @ member_text d kv @ t) =
      scan_all (st, ParseObjectValue # stk) t"
    using scan_member [of kv stk d] Cons.prems(2) [of kv] by auto
  show ?case
  proof (cases "kvs = []")
    case True
    then show ?thesis using st(2) [of "[]"] st(1) by (simp add: object_items_member)
  next
    case False
    obtain st' where "value_end st'" "scan_all (BeginString, ParseObjectKey # stk) (Join (object_items d kvs) '','') = Some (st', ParseObjectValue # stk)"
      using Cons False by auto
    moreover have "Join (object_items d (kv # kvs)) '','' = json_newline (Suc d) @ member_text d kv @ '','' @ Join (object_items d kvs) '',''"
      using False by (simp add: object_items_member Join_Cons)
    ultimately show ?thesis
      using after_value_step [OF st(1), of "CHR '',''" ParseObjectValue stk] by (simp add: st(2) keep_def json_space_def)
  qed
qed simp

lemma reads_array:
  assumes "list_all (\<lambda>v. encodable v \<and> reads (ParseArrayValue # stk) (json_indent (Suc d) v)) vs" and "length stk < max_nesting"
  shows "reads stk (json_indent d (JArray vs))"
proof -
  let ?s = "ParseArrayValue # stk"
  have b: "scan_all (BeginValue, stk) (CHR ''['' # t) = scan_all (BeginValueOrEmpty, ?s) t" for t
    using assms(2) by (simp add: begin_value_def push_state_def keep_def json_space_def)
  have e: "scan_step (st, ?s) (CHR '']'') = pop_state stk" if "value_end st" for st
    using after_value_step [OF that, of "CHR '']''" ParseArrayValue stk] by (simp add: json_space_def)
  show ?thesis
  proof (cases "vs = []")
    case True
    have "scan_all (BeginValue, stk) (json_indent d (JArray vs)) = Some (if stk = [] then EndTop else EndValue, stk)"
      unfolding json_indent_array b using True by (simp add: pop_state_def keep_def json_space_def)
    then show ?thesis using after_value_pop [of stk] by (simp add: reads_def)
  next
    case False
    obtain st where st: "value_end st" "scan_all (BeginValue, ?s) (Join (array_items d vs) '','') = Some (st, ?s)"
      using scan_items [OF False, of stk d] assms(1) by (auto simp: list_all_iff)
    obtain v vs' where vs: "vs = v # vs'" using False by (cases vs) auto
    define u where "u = json_indent (Suc d) v @ (if vs' = [] then [] else '','' @ Join (array_items d vs') '','')"
    have j: "Join (array_items d vs) '','' = json_newline (Suc d) @ u"
      by (simp add: vs u_def array_items_def Join_Cons)
    have "encodable v" using assms(1) vs by simp
    then have h: "u @ w \<noteq> []" "\<not> json_space (hd (u @ w))" "hd (u @ w) \<noteq> CHR '']''" for w
      using indent_start [of v "Suc d"] by (simp_all add: u_def)
    have o: "scan_all (BeginValueOrEmpty, ?s) (Join (array_items d vs) '','' @ w) = scan_all (BeginValue, ?s) (Join (array_items d vs) '','' @ w)" for w
      using scan_begin_empty [of "json_newline (Suc d)" "u @ w" ?s, OF json_newline_spaces h]
        scan_spaces [of BeginValue "json_newline (Suc d)" ?s "u @ w"] by (simp add: j)
    obtain st' where st': "value_end st'" "scan_all (st, ?s) (json_newline d @ '']'') = scan_all (st', ?s) '']''"
      using scan_after_spaces [OF st(1) json_newline_spaces] by blast
    have m: "scan_all (BeginValueOrEmpty, ?s) (Join (array_items d vs) '','' @ json_newline d @ '']'') = scan_all (st', ?s) '']''"
      by (subst o) (simp only: scan_all_append [of _ "Join (array_items d vs) '',''"] st(2) option.case st'(2))
    have "scan_all (BeginValue, stk) (json_indent d (JArray vs)) = scan_all (st', ?s) '']''"
      unfolding json_indent_array b m [symmetric] using False by simp
    then show ?thesis
      using after_value_pop [of stk] e [OF st'(1)] by (simp add: reads_def pop_state_def keep_def)
  qed
qed

lemma reads_object:
  assumes "list_all (\<lambda>kv. ValidString (fst kv) \<and> reads (ParseObjectValue # stk) (json_indent (Suc d) (snd kv))) kvs"
    and "length stk < max_nesting"
  shows "reads stk (json_indent d (JObject kvs))"
proof -
  let ?k = "ParseObjectKey # stk" and ?s = "ParseObjectValue # stk"
  have b: "scan_all (BeginValue, stk) (CHR ''{'' # t) = scan_all (BeginStringOrEmpty, ?k) t" for t
    using assms(2) by (simp add: begin_value_def push_state_def keep_def json_space_def)
  have e: "scan_step (st, ?s) (CHR ''}'') = pop_state stk" if "value_end st" for st
    using after_value_step [OF that, of "CHR ''}''" ParseObjectValue stk] by (simp add: json_space_def)
  show ?thesis
  proof (cases "kvs = []")
    case True
    have "scan_all (BeginValue, stk) (json_indent d (JObject kvs)) = Some (if stk = [] then EndTop else EndValue, stk)"
      unfolding json_indent_object b using True by (simp add: pop_state_def keep_def json_space_def)
    then show ?thesis using after_value_pop [of stk] by (simp add: reads_def)
  next
    case False
    obtain st where st: "value_end st" "scan_all (BeginString, ?k) (Join (object_items d kvs) '','') = Some (st, ?s)"
      using scan_members [OF False, of stk d] assms(1) by (auto simp: list_all_iff)
    obtain kv kvs' where kvs: "kvs = kv # kvs'" using False by (cases kvs) auto
    have "member_text d kv = QUOTE # tl (member_text d kv)" by (simp add: member_text_def json_quote_body)
    then obtain u where j: "Join (object_items d kvs) '','' = json_newline (Suc d) @ QUOTE # u"
      by (simp add: kvs object_items_member Join_Cons) (metis Cons_eq_appendI Join.simps(2) Join_Cons map_is_Nil_conv append_assoc)
    have o: "scan_all (BeginStringOrEmpty, ?k) (Join (object_items d kvs) '','' @ w) = scan_all (BeginString, ?k) (Join (object_items d kvs) '','' @ w)" for w
      using scan_spaces [of BeginString "json_newline (Suc d)" ?k "QUOTE # u @ w"]
        scan_spaces [of BeginStringOrEmpty "json_newline (Suc d)" ?k "QUOTE # u @ w"] by (simp add: j json_space_def)
    obtain st' where st': "value_end st'" "scan_all (st, ?s) (json_newline d @ ''}'') = scan_all (st', ?s) ''}''"
      using scan_after_spaces [OF st(1) json_newline_spaces] by blast
    have m: "scan_all (BeginStringOrEmpty, ?k) (Join (object_items d kvs) '','' @ json_newline d @ ''}'') = scan_all (st', ?s) ''}''"
      by (subst o) (simp only: scan_all_append [of _ "Join (object_items d kvs) '',''"] st(2) option.case st'(2))
    have "scan_all (BeginValue, stk) (json_indent d (JObject kvs)) = scan_all (st', ?s) ''}''"
      unfolding json_indent_object b m [symmetric] using False by simp
    then show ?thesis
      using after_value_pop [of stk] e [OF st'(1)] by (simp add: reads_def pop_state_def keep_def)
  qed
qed

lemma reads_literal: "reads stk ''null''" "reads stk ''true''" "reads stk ''false''"
  by (simp_all add: reads_def begin_value_def keep_def json_space_def is_digit_def after_value_def value_end_def)

lemma reads_indent:
  "encodable v \<Longrightarrow> length stk + json_depth v \<le> max_nesting \<Longrightarrow> reads stk (json_indent d v)"
proof (induction v arbitrary: stk d rule: encodable.induct)
  case (1 x)
  then obtain st where "value_end st" "scan_all (BeginValue, stk) (float_text x) = Some (st, stk)"
    using scan_number [of "float_text x" stk] by (auto simp: number_ok_def)
  then show ?case by (auto simp: reads_def after_value_def)
next
  case (3 s)
  then show ?case
    using scan_quote [of s stk] by (simp add: reads_def json_quote_body begin_value_def keep_def json_space_def after_value_def value_end_def)
next
  case (4 vs)
  have "reads (ParseArrayValue # stk) (json_indent (Suc d) v)" if "v \<in> set vs" for v
    using 4(1) [OF that, of "ParseArrayValue # stk"] 4(2,3) foldr_max [OF that, of json_depth] that by (simp add: list_all_iff)
  then show ?case
    using 4(2,3) by (intro reads_array) (auto simp: list_all_iff)
next
  case (5 kvs)
  have "reads (ParseObjectValue # stk) (json_indent (Suc d) (snd kv))" if "kv \<in> set kvs" for kv
    using 5(1) [OF that, of "ParseObjectValue # stk"] 5(2,3) foldr_max [OF that, of "\<lambda>kv. json_depth (snd kv)"] that
    by (simp add: list_all_iff)
  then show ?case
    using 5(2,3) by (intro reads_object) (auto simp: list_all_iff)
next
  case (7 b)
  then show ?case using reads_literal by simp
qed (simp_all add: reads_literal)

lemma scan_eof_value: "value_end st \<Longrightarrow> scan_eof (st, [])"
  using value_end_step [of st "CHR '' ''" "[]"] by (simp add: scan_eof_def is_digit_def json_space_def)

lemma scan_end_spaces: "after_value st [] \<Longrightarrow> list_all json_space ws \<Longrightarrow> \<exists>st'. after_value st' [] \<and> scan_all (st, []) ws = Some (st', [])"
proof (induction ws arbitrary: st)
  case (Cons c ws)
  have "scan_step (st, []) c = ((EndTop, []), DropSpace)"
    using Cons.prems value_end_step [of st c "[]"] json_space_not_digit [of c] by (auto simp: after_value_def)
  then show ?case using Cons.IH [of EndTop] Cons.prems(2) by (simp add: after_value_def)
qed simp

text \<open>What is printed is valid, with white space behind it.\<close>

lemma json_Valid_indent:
  assumes "encodable v" and "json_depth v \<le> max_nesting" and "list_all json_space ws"
  shows "json_Valid (json_indent d v @ ws)"
proof -
  obtain st where st: "after_value st []" "scan_all (BeginValue, []) (json_indent d v) = Some (st, [])"
    using reads_indent [OF assms(1), of "[]" d] assms(2) by (auto simp: reads_def)
  obtain st' where "after_value st' []" "scan_all (BeginValue, []) (json_indent d v @ ws) = Some (st', [])"
    using scan_end_spaces [OF st(1) assms(3)] st(2) by (auto simp: scan_all_append)
  moreover from this have "scan_eof (st', [])" using scan_eof_value by (auto simp: after_value_def scan_eof_def)
  ultimately show ?thesis
    using compact_scan_all [of scan_init "json_indent d v @ ws"] by (auto simp: json_Valid_def scan_init_def)
qed

text \<open>And read back.\<close>

lemma Unmarshal_indent:
  assumes "encodable (JObject kvs)" and "json_depth (JObject kvs) \<le> max_nesting"
  shows "Unmarshal_map (json_indent 0 (JObject kvs) @ [NL]) = Some (Some kvs)"
proof -
  have "json_trim (json_indent 0 (JObject kvs) @ [NL]) = json_indent 0 (JObject kvs)"
    using json_trim_solid [OF solid_indent [OF assms(1), of 0], of "[]" "[NL]"] by (simp add: json_space_def)
  from decode_json_indent [OF assms(1) this] show ?thesis
    using json_Valid_indent [OF assms, of "[NL]" 0] by (simp add: Unmarshal_map_def json_space_def)
qed

end
