(* ===== verification/Claude_Files.thy ===== *)
theory Claude_Files
  imports Doctor Go_Json_Roundtrip
begin

text \<open>
  The settings file of Claude as a file: what an installation writes, a later run and the doctor read. It
  joins \<open>internal/install/claude.go\<close>, \<open>internal/doctor/doctor.go\<close> and the encoder and decoder of package
  \<open>encoding/json\<close>.
\<close>

section \<open>Settings that are kept by the plan\<close>

text \<open>
  A property of values that holds of an object when its keys are in order and in valid UTF-8 and it holds
  of what is under them: the plan of the integration keeps it.
\<close>

locale json_property =
  fixes Q :: "json \<Rightarrow> bool"
  assumes Q_object: "Q (JObject kvs) \<longleftrightarrow> ordered_map kvs \<and> list_all (\<lambda>kv. ValidString (fst kv) \<and> Q (snd kv)) kvs"
    and Q_string: "Q (JString s) \<longleftrightarrow> ValidString s"
    and Q_bool: "Q (JBool b)"
begin

lemma Q_put:
  assumes "Q (JObject kvs)" and "ValidString k" and "Q v"
  shows "Q (JObject (map_put k v kvs))"
proof -
  have "set (map_put k v kvs) \<subseteq> insert (k, v) (set kvs)" by (induction kvs) auto
  then show ?thesis using assms by (fastforce simp: Q_object list_all_iff)
qed

lemma Q_child: "Q (JObject s) \<Longrightarrow> Q (JObject (fst (childMap s k)))"
proof (cases "\<exists>c. map_of s k = Some (JObject c)")
  case True
  assume "Q (JObject s)"
  moreover from True obtain c where "map_of s k = Some (JObject c)" by blast
  ultimately show ?thesis by (auto simp: Q_object [of s] childMap_def list_all_iff dest!: map_of_SomeD)
next
  case False
  then have "fst (childMap s k) = []" by (auto simp: childMap_def split: option.splits json.splits)
  then show ?thesis by (simp add: Q_object ordered_map_def)
qed

lemma Q_install:
  assumes "Q (JObject s)" and "ValidString u"
  shows "Q (JObject (fst (install_settings u s)))"
proof -
  have "Q (JObject (managed_metadata u (metadata_of s)))" "Q (JObject (next_env u s))"
    using Q_child [OF assms(1)] assms(2)
    by (auto simp: managed_metadata_def metadata_of_def next_env_def env_of_def Q_string Q_bool ValidString_ascii intro!: Q_put)
  moreover have "ordered_map s" using assms(1) by (simp add: Q_object)
  ultimately show ?thesis
    using assms(1) by (simp add: install_settings_eq Q_put ValidString_ascii)
qed

lemma Q_delete: "Q (JObject kvs) \<Longrightarrow> Q (JObject (map_delete k kvs))"
  by (auto simp: Q_object list_all_iff map_delete_def ordered_map_def sorted_wrt_map sorted_wrt_filter)

lemma Q_uninstall: "Q (JObject s) \<Longrightarrow> Q (JObject (uninstall_settings s))"
proof -
  assume s: "Q (JObject s)"
  have "Q (JObject (remove_managed_url u s))" for u
  proof (cases "\<exists>c. map_of s ''env'' = Some (JObject c)")
    case True
    then obtain c where c: "map_of s ''env'' = Some (JObject c)" by blast
    then have "Q (JObject c)" using Q_child [OF s, of "''env''"] by (simp add: childMap_def)
    then show ?thesis using s c by (auto simp: remove_managed_url_def Let_def ValidString_ascii intro!: Q_put Q_delete)
  next
    case False
    then have "remove_managed_url u s = s" by (auto simp: remove_managed_url_def split: option.splits json.splits)
    then show ?thesis using s by simp
  qed
  then show ?thesis
    using s by (auto simp: uninstall_settings_def intro!: Q_delete split: option.split json.split)
qed

lemma Q_plan:
  assumes "Q (JObject s)" and "ValidString (cl_AnthropicBaseURL options)" and "planClaudeSettings s options = Inr (t, m)"
  shows "Q (JObject t)"
  using assms(3) Q_install [OF assms(1,2)] Q_uninstall [OF assms(1)]
  by (auto simp: planClaudeSettings_def Let_def split: if_splits dest: arg_cong [of _ _ fst])

end

interpretation encodable: json_property encodable
  by unfold_locales simp_all

text \<open>What the decoder gives: maps in order, all strings and keys in valid UTF-8.\<close>

fun typed_json :: "json \<Rightarrow> bool" where
  "typed_json (JInt i) = False"
| "typed_json (JString s) = ValidString s"
| "typed_json (JArray vs) = list_all typed_json vs"
| "typed_json (JObject kvs) = (ordered_map kvs \<and> list_all (\<lambda>kv. ValidString (fst kv) \<and> typed_json (snd kv)) kvs)"
| "typed_json v = True"

interpretation typed: json_property typed_json
  by unfold_locales simp_all

fun numbers_ok :: "json \<Rightarrow> bool" where
  "numbers_ok (JNumber x) = number_ok x"
| "numbers_ok (JArray vs) = list_all numbers_ok vs"
| "numbers_ok (JObject kvs) = list_all (\<lambda>kv. numbers_ok (snd kv)) kvs"
| "numbers_ok v = True"

lemma encodable_typed: "typed_json v \<Longrightarrow> numbers_ok v \<Longrightarrow> encodable v"
  by (induction v rule: encodable.induct) (auto simp: list_all_iff)

lemma key_value_valid: "kv = key_value t \<Longrightarrow> ValidString (fst kv)"
  by (auto simp: key_value_def dest: unquote_valid split: list.split option.split)

lemma shape_valid:
  "shape_of raw = ShString t \<Longrightarrow> ValidString t"
  "shape_of raw = ShObject kvs \<Longrightarrow> list_all (\<lambda>kv. ValidString (fst kv)) kvs"
  by (auto simp: shape_of_def Let_def list_all_iff dest: unquote_valid key_value_valid split: if_splits option.splits)
    (metis fst_conv key_value_valid)

lemma decode_any_typed: "decode_any raw = Some v \<Longrightarrow> typed_json v"
proof (induction raw arbitrary: v rule: decode_any.induct)
  case (1 raw)
  show ?case
  proof (cases "shape_of raw")
    case (ShArray raws)
    then obtain vs where "those (map decode_any raws) = Some vs" "v = JArray vs"
      using 1(3) by (auto simp: decode_any.simps [of raw])
    then show ?thesis using those_Some_set 1(1) [OF ShArray] by (fastforce simp: list_all_iff)
  next
    case (ShObject kvs)
    then obtain vs where vs: "those (map (\<lambda>kv. decode_any (snd kv)) kvs) = Some vs"
      "v = JObject (put_entries (zip (map fst kvs) vs))"
      using 1(3) by (auto simp: decode_any.simps [of raw])
    have "typed_json x" if "x \<in> set vs" for x
      using those_Some_set [OF vs(1) that] 1(2) [OF ShObject] by auto
    moreover have "fst kv \<in> set (map fst kvs) \<and> snd kv \<in> set vs" if "kv \<in> set (put_entries (zip (map fst kvs) vs))" for kv
    proof -
      have "(fst kv, snd kv) \<in> set (zip (map fst kvs) vs)"
        using that put_entries_set [of "zip (map fst kvs) vs"] by auto
      from set_zip_leftD [OF this] set_zip_rightD [OF this] show ?thesis by simp
    qed
    ultimately show ?thesis
      using shape_valid(2) [OF ShObject] by (fastforce simp: vs(2) ordered_put_entries list_all_iff)
  next
    case (ShString t)
    then show ?thesis using 1(3) shape_valid(1) by (auto simp: decode_any.simps [of raw])
  qed (use 1(3) in \<open>auto simp: decode_any.simps [of raw] decode_literal_def Let_def split: if_splits\<close>)
qed

lemma parseJSONMap_typed: "parseJSONMap text = Inr s \<Longrightarrow> typed_json (JObject s)"
  using decode_any_typed [of "text"]
  by (auto simp: parseJSONMap_def Unmarshal_map_def ordered_map_def split: if_splits option.splits json.splits)

subsection \<open>Nesting\<close>

lemma json_depth_object: "json_depth (JObject kvs) \<le> Suc m \<longleftrightarrow> list_all (\<lambda>kv. json_depth (snd kv) \<le> m) kvs"
proof -
  have "foldr (\<lambda>kv. max (json_depth (snd kv))) kvs 0 \<le> m \<longleftrightarrow> list_all (\<lambda>kv. json_depth (snd kv) \<le> m) kvs"
    by (induction kvs) auto
  then show ?thesis by simp
qed

lemma depth_put:
  "json_depth (JObject kvs) \<le> Suc m \<Longrightarrow> json_depth v \<le> m \<Longrightarrow> json_depth (JObject (map_put k v kvs)) \<le> Suc m"
proof -
  have "set (map_put k v kvs) \<subseteq> insert (k, v) (set kvs)" by (induction kvs) auto
  then show "json_depth (JObject kvs) \<le> Suc m \<Longrightarrow> json_depth v \<le> m \<Longrightarrow> json_depth (JObject (map_put k v kvs)) \<le> Suc m"
    unfolding json_depth_object list_all_iff by fastforce
qed

lemma depth_child:
  assumes "json_depth (JObject s) \<le> Suc (Suc m)"
  shows "json_depth (JObject (fst (childMap s k))) \<le> Suc m"
proof (cases "\<exists>c. map_of s k = Some (JObject c)")
  case True
  then obtain c where c: "map_of s k = Some (JObject c)" by blast
  then have "(k, JObject c) \<in> set s" by (rule map_of_SomeD)
  then have "json_depth (JObject c) \<le> Suc m" using assms unfolding json_depth_object [of s] list_all_iff by fastforce
  then show ?thesis using c by (simp add: childMap_def)
next
  case False
  then have "fst (childMap s k) = []" by (auto simp: childMap_def split: option.splits json.splits)
  then show ?thesis by simp
qed

lemma depth_install:
  assumes "json_depth (JObject s) \<le> max_nesting" and "ordered_map s"
  shows "json_depth (JObject (fst (install_settings u s))) \<le> max_nesting"
proof -
  obtain m where m: "max_nesting = Suc (Suc m)" by (simp add: max_nesting_def numeral_eq_Suc)
  note c = depth_child [OF assms(1) [unfolded m]]
  have "json_depth (JObject (managed_metadata u (metadata_of s))) \<le> Suc m" "json_depth (JObject (next_env u s)) \<le> Suc m"
    using c by (auto simp: managed_metadata_def metadata_of_def next_env_def env_of_def simp del: json_depth.simps(2) intro!: depth_put)
  then show ?thesis
    using assms unfolding m install_settings_eq [OF assms(2)] by (intro depth_put)
qed
section \<open>Written and read back\<close>

lemma parse_marshal:
  assumes "encodable (JObject t)" and "json_depth (JObject t) \<le> max_nesting"
  shows "parseJSONMap (marshalSettings t) = Inr t"
  using Unmarshal_indent [OF assms] by (simp add: parseJSONMap_def marshalSettings_def del: json_indent.simps)

lemma normalize_marshal:
  "encodable (JObject t) \<Longrightarrow> json_depth (JObject t) \<le> max_nesting \<Longrightarrow> normalizeJSON (marshalSettings t) = marshalSettings t"
  by (simp add: normalizeJSON_def parse_marshal)

lemma map_at_childMap: "map_at s k = fst (childMap s k)"
  by (simp add: map_at_def childMap_def split: option.split json.split)

lemma installed_configured:
  assumes "ordered_json (JObject s)" and "u \<noteq> []"
  shows "settings_configured (fst (install_settings u s)) \<longleftrightarrow> \<not> own_url s \<or> url_of s = u"
proof -
  let ?t = "fst (install_settings u s)"
  have o: "ordered_map (metadata_of s)" using childMap_ordered [OF assms(1)] by (simp add: metadata_of_def)
  note f = installed_facts [OF assms(1), of u]
  have "map_of (metadata_of ?t) ''managed'' = Some (JBool True)"
    by (simp add: f(3) managed_metadata_def map_of_put o)
  moreover have "string_at (metadata_of ?t) ''anthropic_base_url'' = u"
    using f(4) by (simp add: managed_url_def)
  moreover have "string_at (env_of ?t) ''ANTHROPIC_BASE_URL'' = (if own_url s then url_of s else u)"
    using f(5) by (simp add: url_of_def)
  ultimately show ?thesis
    using assms(2) by (auto simp: settings_configured_def Let_def map_at_childMap own_url_def simp flip: env_of_def metadata_of_def)
qed

text \<open>A run that installs: the settings it finds, those it plans, and what is then in the file.\<close>

lemma claude_run_facts:
  assumes "ApplyClaudeIntegration options env fs = (Inr res, fs')" and "\<not> cl_DryRun options"
    and "cl_Action (claude_defaults options) = ClaudeInstall \<or> cl_Action (claude_defaults options) = ClaudeRepair"
    and "ValidString (cl_AnthropicBaseURL (claude_defaults options))" and "ie_Read env (cl_SettingsPath options) = None"
    and "readOptionalFile env (cl_SettingsPath options) fs = Inr text" and "parseJSONMap text = Inr s"
    and "numbers_ok (JObject s)" and "json_depth (JObject s) \<le> max_nesting"
  shows "\<exists>raw. readOptionalFile env (cl_SettingsPath options) fs' = Inr raw \<and>
    parseJSONMap raw = Inr (fst (install_settings (cl_AnthropicBaseURL (claude_defaults options)) s)) \<and>
    encodable (JObject (fst (install_settings (cl_AnthropicBaseURL (claude_defaults options)) s))) \<and>
    json_depth (JObject (fst (install_settings (cl_AnthropicBaseURL (claude_defaults options)) s))) \<le> max_nesting \<and>
    validateBaseURL (cl_AnthropicBaseURL (claude_defaults options)) = None"
proof -
  let ?o = "claude_defaults options" and ?p = "cl_SettingsPath options"
  let ?t = "fst (install_settings (cl_AnthropicBaseURL ?o) s)"
  obtain raw current kvs where r: "readOptionalFile env ?p fs = Inr raw" "parseJSONMap raw = Inr current"
    "planClaudeSettings current ?o = Inr (kvs, cr_Message res)" "cr_Preview res = marshalSettings kvs"
    "cr_Changed res = (normalizeJSON raw \<noteq> normalizeJSON (marshalSettings kvs))"
    "cl_Action ?o = ClaudeUninstall \<or> validateBaseURL (cl_AnthropicBaseURL ?o) = None"
    by (rule claude_outcome_Inr [OF claude.run_Inr(2) [OF assms(1)]]) simp
  have cur: "raw = text" "current = s" using r(1,2) assms(6,7) by simp_all
  have "planClaudeSettings s ?o = Inr (install_settings (cl_AnthropicBaseURL ?o) s)"
    using assms(3) by (auto simp: planClaudeSettings_def)
  then have "install_settings (cl_AnthropicBaseURL ?o) s = (kvs, cr_Message res)" using r(3) by (simp add: cur)
  then have k: "kvs = ?t" by simp
  have typed: "typed_json (JObject s)" by (rule parseJSONMap_typed [OF assms(7)])
  then have s: "encodable (JObject s)" using assms(8) by (rule encodable_typed)
  have t: "encodable (JObject ?t)" "json_depth (JObject ?t) \<le> max_nesting"
    using encodable.Q_install [OF s assms(4)] depth_install [OF assms(9)] typed by simp_all
  have v: "validateBaseURL (cl_AnthropicBaseURL ?o) = None"
    using r(6) assms(3) by (auto simp: ClaudeInstall_def ClaudeRepair_def ClaudeUninstall_def)
  show ?thesis
  proof (cases "cr_Changed res")
    case True
    have "readOptionalFile env ?p fs' = Inr (marshalSettings ?t)"
      using claude.read_after_run [OF assms(1) True assms(2,5)] r(4) k by simp
    then show ?thesis using parse_marshal [OF t] t v by blast
  next
    case False
    then have "fs' = fs" using claude.run_Inr(3) [OF assms(1)] by simp
    then have f: "readOptionalFile env ?p fs' = Inr text" using assms(6) by simp
    have m: "marshalSettings s = marshalSettings ?t"
      using False r(5) assms(7) normalize_marshal [OF t] by (simp add: cur k normalizeJSON_def)
    have "Inr s = parseJSONMap (marshalSettings s)" by (rule parse_marshal [OF s assms(9), symmetric])
    also have "\<dots> = parseJSONMap (marshalSettings ?t)" by (rule arg_cong [OF m])
    also have "\<dots> = Inr ?t" by (rule parse_marshal [OF t])
    finally have "Inr s = (Inr ?t :: install_error + settings)" .
    with assms(7) have e: "parseJSONMap text = Inr ?t" by (rule trans)
    show ?thesis by (intro exI [of _ "text"] conjI) (rule f e t v)+
  qed
qed

section \<open>Properties\<close>

lemma env_of_cases: "env_of s = (case map_of s ''env'' of Some (JObject env) \<Rightarrow> env | _ \<Rightarrow> [])"
  "metadata_of s = (case map_of s ''cachy'' of Some (JObject meta) \<Rightarrow> meta | _ \<Rightarrow> [])"
  by (simp_all add: env_of_def metadata_of_def childMap_def split: option.split json.split)

lemma string_at_JString: "string_at kvs k = u \<Longrightarrow> u \<noteq> [] \<Longrightarrow> map_of kvs k = Some (JString u)"
  by (auto simp: string_at_def split: option.splits json.splits)

lemma install_settings_typed:
  assumes "ordered_json (JObject s)" and "install_settings u s = (t, m)"
  shows "\<exists>env meta url. map_of t ''env'' = Some (JObject env) \<and> map_of env ''ANTHROPIC_BASE_URL'' = Some (JString url) \<and>
    (url = u \<or> url \<noteq> [] \<and> map_of (env_of s) ''ANTHROPIC_BASE_URL'' = Some (JString url)) \<and>
    map_of t ''cachy'' = Some (JObject meta) \<and> map_of meta ''managed'' = Some (JBool True) \<and>
    map_of meta ''anthropic_base_url'' = Some (JString u) \<and>
    list_all (\<lambda>k. (k = ''env'' \<or> k = ''cachy'' \<or> map_of t k = map_of s k) \<and>
      (k = ''ANTHROPIC_BASE_URL'' \<or> map_of env k = map_of (env_of s) k) \<and>
      (k = ''managed'' \<or> k = ''anthropic_base_url'' \<or> map_of meta k = map_of (metadata_of s) k)) keys"
proof -
  have o: "ordered_map s" "ordered_map (env_of s)" "ordered_map (metadata_of s)"
    using assms(1) childMap_ordered [OF assms(1)] by (simp_all add: env_of_def metadata_of_def)
  have t: "t = map_put ''env'' (JObject (next_env u s)) (map_put ''cachy'' (JObject (managed_metadata u (metadata_of s))) s)"
    using install_settings_eq [OF o(1), of u] assms(2) by simp
  have e: "map_of t ''env'' = Some (JObject (next_env u s))"
    "map_of t ''cachy'' = Some (JObject (managed_metadata u (metadata_of s)))"
    by (simp_all add: t o map_of_put)
  have url: "map_of (next_env u s) ''ANTHROPIC_BASE_URL'' = Some (JString (if own_url s then url_of s else u))"
    using string_at_JString [of "env_of s" "''ANTHROPIC_BASE_URL''" "url_of s"]
    by (auto simp: next_env_def o map_of_put own_url_def url_of_def)
  have own: "url_of s \<noteq> [] \<and> map_of (env_of s) ''ANTHROPIC_BASE_URL'' = Some (JString (url_of s))" if "own_url s"
    using that string_at_JString [of "env_of s" "''ANTHROPIC_BASE_URL''" "url_of s"] by (simp add: own_url_def url_of_def)
  have meta: "map_of (managed_metadata u (metadata_of s)) ''managed'' = Some (JBool True)"
    "map_of (managed_metadata u (metadata_of s)) ''anthropic_base_url'' = Some (JString u)"
    by (simp_all add: managed_metadata_def o map_of_put)
  have keys: "list_all (\<lambda>k. (k = ''env'' \<or> k = ''cachy'' \<or> map_of t k = map_of s k) \<and>
      (k = ''ANTHROPIC_BASE_URL'' \<or> map_of (next_env u s) k = map_of (env_of s) k) \<and>
      (k = ''managed'' \<or> k = ''anthropic_base_url'' \<or>
        map_of (managed_metadata u (metadata_of s)) k = map_of (metadata_of s) k)) keys"
    by (simp add: list_all_iff t o map_of_put next_env_def managed_metadata_def)
  show ?thesis
    by (intro exI [of _ "next_env u s"] exI [of _ "managed_metadata u (metadata_of s)"]
        exI [of _ "if own_url s then url_of s else u"] conjI e url meta keys) (use own in auto)
qed

lemma uninstall_settings_typed:
  assumes "ordered_map s"
  shows "map_of (uninstall_settings s) ''cachy'' = None"
    "k \<noteq> ''env'' \<Longrightarrow> k \<noteq> ''cachy'' \<Longrightarrow> map_of (uninstall_settings s) k = map_of s k"
    "map_of (uninstall_settings s) ''env'' = map_of s ''env'' \<or>
     (\<exists>env env'. map_of s ''env'' = Some (JObject env) \<and>
        (env' = env \<or> env' = map_delete ''ANTHROPIC_BASE_URL'' env \<and> managed_url s \<noteq> [] \<and>
           map_of env ''ANTHROPIC_BASE_URL'' = Some (JString (managed_url s))) \<and>
        map_of (uninstall_settings s) ''env'' = (if env' = [] then None else Some (JObject env')))"
proof -
  show "map_of (uninstall_settings s) ''cachy'' = None" by (simp add: uninstall_settings_def map_of_delete)
  have r: "map_of (remove_managed_url u s) k = map_of s k" if "k \<noteq> ''env''" for u k
    using that assms by (auto simp: remove_managed_url_def Let_def map_of_put map_of_delete split: option.split json.split)
  show "k \<noteq> ''env'' \<Longrightarrow> k \<noteq> ''cachy'' \<Longrightarrow> map_of (uninstall_settings s) k = map_of s k"
    by (simp add: uninstall_settings_def map_of_delete r split: option.split json.split)
  show "map_of (uninstall_settings s) ''env'' = map_of s ''env'' \<or>
     (\<exists>env env'. map_of s ''env'' = Some (JObject env) \<and>
        (env' = env \<or> env' = map_delete ''ANTHROPIC_BASE_URL'' env \<and> managed_url s \<noteq> [] \<and>
           map_of env ''ANTHROPIC_BASE_URL'' = Some (JString (managed_url s))) \<and>
        map_of (uninstall_settings s) ''env'' = (if env' = [] then None else Some (JObject env')))"
  proof (cases "managed_url s \<noteq> [] \<and> (\<exists>env. map_of s ''env'' = Some (JObject env))")
    case True
    then obtain env where env: "map_of s ''env'' = Some (JObject env)" and u: "managed_url s \<noteq> []" by blast
    obtain meta where meta: "map_of s ''cachy'' = Some (JObject meta)" "string_at meta ''anthropic_base_url'' = managed_url s"
      using u by (auto simp: managed_url_def env_of_cases string_at_def split: option.splits json.splits)
    let ?e = "if string_at env ''ANTHROPIC_BASE_URL'' = managed_url s then map_delete ''ANTHROPIC_BASE_URL'' env else env"
    have "map_of (uninstall_settings s) ''env'' = (if ?e = [] then None else Some (JObject ?e))"
      using u assms by (auto simp: uninstall_settings_def meta remove_managed_url_def env Let_def map_of_put map_of_delete)
    moreover have "?e = env \<or> ?e = map_delete ''ANTHROPIC_BASE_URL'' env \<and> managed_url s \<noteq> [] \<and>
        map_of env ''ANTHROPIC_BASE_URL'' = Some (JString (managed_url s))"
      using u string_at_JString by auto
    ultimately show ?thesis using env by blast
  next
    case False
    then have "map_of (uninstall_settings s) ''env'' = map_of s ''env''"
      by (auto simp: uninstall_settings_def remove_managed_url_def map_of_delete managed_url_def env_of_cases
          split: option.split json.split)
    then show ?thesis ..
  qed
qed

text \<open>C40. What is planned from settings that could be read has the types that the code expects when it reads it
  again. After an installation or repair \<open>env\<close> is an object whose \<open>ANTHROPIC_BASE_URL\<close> is a string, the proxy's URL
  or the one the user has had there, \<open>cachy\<close> is an object with \<open>managed\<close> true and the proxy's URL as a string, and
  every other entry of the settings and of the two objects is as before. After an uninstallation there is no
  \<open>cachy\<close>, \<open>env\<close> is as before but for the managed URL, or gone when it is empty, and every other entry is as before.\<close>

theorem claude_settings_typed:
  assumes "parseJSONMap text = Inr s" and "planClaudeSettings s options = Inr (t, m)"
  shows "if cl_Action options = ''uninstall''
    then map_of t ''cachy'' = None \<and> list_all (\<lambda>k. k = ''env'' \<or> k = ''cachy'' \<or> map_of t k = map_of s k) keys \<and>
      (map_of t ''env'' = map_of s ''env'' \<or>
       (\<exists>env env'. map_of s ''env'' = Some (JObject env) \<and>
          (env' = env \<or> env' = map_delete ''ANTHROPIC_BASE_URL'' env \<and> managed_url s \<noteq> [] \<and>
             map_of env ''ANTHROPIC_BASE_URL'' = Some (JString (managed_url s))) \<and>
          map_of t ''env'' = (if env' = [] then None else Some (JObject env'))))
    else \<exists>env meta url. map_of t ''env'' = Some (JObject env) \<and> map_of env ''ANTHROPIC_BASE_URL'' = Some (JString url) \<and>
      (url = cl_AnthropicBaseURL options \<or> url \<noteq> [] \<and> map_of (env_of s) ''ANTHROPIC_BASE_URL'' = Some (JString url)) \<and>
      map_of t ''cachy'' = Some (JObject meta) \<and> map_of meta ''managed'' = Some (JBool True) \<and>
      map_of meta ''anthropic_base_url'' = Some (JString (cl_AnthropicBaseURL options)) \<and>
      list_all (\<lambda>k. (k = ''env'' \<or> k = ''cachy'' \<or> map_of t k = map_of s k) \<and>
        (k = ''ANTHROPIC_BASE_URL'' \<or> map_of env k = map_of (env_of s) k) \<and>
        (k = ''managed'' \<or> k = ''anthropic_base_url'' \<or> map_of meta k = map_of (metadata_of s) k)) keys"
proof (cases "cl_Action options = ''uninstall''")
  case True
  have o: "ordered_map s" using parseJSONMap_ordered [OF assms(1)] by simp
  have "t = uninstall_settings s"
    using assms(2) by (simp add: planClaudeSettings_def True ClaudeInstall_def ClaudeRepair_def ClaudeUninstall_def)
  moreover have "list_all (\<lambda>k. k = ''env'' \<or> k = ''cachy'' \<or> map_of (uninstall_settings s) k = map_of s k) keys"
    using uninstall_settings_typed(2) [OF o] by (auto simp: list_all_iff)
  ultimately show ?thesis using uninstall_settings_typed(1,3) [OF o] by (simp add: True)
next
  case False
  then have "install_settings (cl_AnthropicBaseURL options) s = (t, m)"
    using assms(2) by (auto simp: planClaudeSettings_def ClaudeUninstall_def split: if_splits)
  from install_settings_typed [OF parseJSONMap_ordered [OF assms(1)] this, of keys] show ?thesis
    by (simp only: False if_False)
qed

text \<open>C11. Settings survive being written: when an installation succeeds, the file holds a text that is read back
  as the settings that were planned, running the installation again finds nothing to change and leaves the
  files alone, and the doctor finds the file configured, unless the user's own URL, another one, is kept. The
  numbers in the settings must be ones whose shortest decimal is read back, the nesting within the limit of
  the decoder, and the URL valid UTF-8.\<close>

theorem claude_settings_read_back:
  assumes "ApplyClaudeIntegration options env fs = (Inr res, fs')" and "\<not> cl_DryRun options"
    and "cl_Action (claude_defaults options) = ClaudeInstall \<or> cl_Action (claude_defaults options) = ClaudeRepair"
    and "ValidString (cl_AnthropicBaseURL (claude_defaults options))" and "ie_Read env (cl_SettingsPath options) = None"
    and "readOptionalFile env (cl_SettingsPath options) fs = Inr text" and "parseJSONMap text = Inr s"
    and "numbers_ok (JObject s)" and "json_depth (JObject s) \<le> max_nesting"
  shows "\<exists>raw. readOptionalFile env (cl_SettingsPath options) fs' = Inr raw \<and>
    map_sum id Inr (parseJSONMap raw) = map_sum id (Inr \<circ> fst) (planClaudeSettings s (claude_defaults options)) \<and>
    (case ApplyClaudeIntegration options env fs' of
       (Inr again, fs'') \<Rightarrow> \<not> cr_Changed again \<and> fs'' = fs' | (Inl _, _) \<Rightarrow> False) \<and>
    ck_Status (claude_check_text (cl_SettingsPath options) raw) =
      (if own_url s \<and> url_of s \<noteq> cl_AnthropicBaseURL (claude_defaults options) then StatusWarn else StatusOK)"
proof -
  let ?o = "claude_defaults options" and ?p = "cl_SettingsPath options"
  let ?u = "cl_AnthropicBaseURL ?o" let ?t = "fst (install_settings ?u s)"
  obtain raw where raw: "readOptionalFile env ?p fs' = Inr raw" "parseJSONMap raw = Inr ?t" "encodable (JObject ?t)"
    "json_depth (JObject ?t) \<le> max_nesting" "validateBaseURL ?u = None"
    using claude_run_facts [OF assms] by blast
  have ordered: "ordered_json (JObject s)" by (rule parseJSONMap_ordered [OF assms(7)])
  have plan: "planClaudeSettings v ?o = Inr (install_settings ?u v)" for v
    using assms(3) by (auto simp: planClaudeSettings_def)
  have idem: "fst (install_settings ?u ?t) = ?t" by (rule install_settings_idem [OF ordered])
  have "\<exists>again. claude_outcome ?o env fs' = Inr again \<and> \<not> cr_Changed again"
  proof -
    obtain m where m: "install_settings ?u ?t = (?t, m)" using idem by (metis prod.collapse)
    have "normalizeJSON raw = normalizeJSON (marshalSettings ?t)"
      using normalize_marshal [OF raw(3,4)] by (simp add: normalizeJSON_def [of raw] raw(2))
    then show ?thesis
      by (simp add: claude_outcome_def Let_def raw(1,2,5) plan m)
  qed
  then obtain again where again: "claude_outcome ?o env fs' = Inr again" "\<not> cr_Changed again" by blast
  have "?p \<noteq> []" using claude.run_Inr(1) [OF assms(1)] .
  from claude.run_unchanged [OF this again] have second: "ApplyClaudeIntegration options env fs' = (Inr again, fs')" .
  have u: "?u \<noteq> []" by (auto simp: claude_defaults_def defaultClaudeAnthropicBaseURL_def Let_def)
  have "raw \<noteq> []"
  proof
    assume "raw = []"
    then have "?t = []" using raw(2) by (simp add: parseJSONMap_def)
    then show False using installed_facts(4) [OF ordered, of ?u] u
      by (simp add: managed_url_def metadata_of_def childMap_def string_at_def)
  qed
  then obtain kvs where kvs: "Unmarshal_map raw = Some kvs" "(case kvs of None \<Rightarrow> [] | Some m \<Rightarrow> m) = ?t"
    using raw(2) by (auto simp: parseJSONMap_def split: option.splits)
  have "ck_Status (claude_check_text ?p raw) = (if own_url s \<and> url_of s \<noteq> ?u then StatusWarn else StatusOK)"
    using installed_configured [OF ordered u] by (auto simp: claude_check_text_def Let_def kvs)
  then show ?thesis using raw(1,2) second again(2) by (intro exI [of _ raw]) (simp add: plan)
qed

subsection \<open>A concrete file\<close>

text \<open>A number that is read back: 3, as the decoder reads it.\<close>

lemma float_of_three: "float_of_decimal 3 0 = (6755399441055744, - 51)"
  by (simp add: float_of_decimal_def decimal_ratio_def nearest_float_def bit_length.simps scaled_def round_at_def round_half_even_def Let_def)

lemma read_three: "read_decimal ''3'' = (False, 3, 0)" "float_in_range ''3''"
  by (simp_all add: read_decimal_def float_in_range_def go_eval is_digit_def dec_val_def)

lemma number_three: "ParseFloat ''3'' = Some \<lparr>fl_Neg = False, fl_Mant = 6755399441055744, fl_Exp = - 51\<rparr>"
  by (simp add: ParseFloat_def read_three float_of_three)

lemma float_of_four: "float_of_decimal 4 0 = (4503599627370496, - 50)"
  by (simp add: float_of_decimal_def decimal_ratio_def nearest_float_def bit_length.simps scaled_def round_at_def round_half_even_def Let_def)

lemma candidate_three: "digits_candidate (6755399441055744, - 51) 1 = Some (3, 0)"
proof -
  have r: "float_ratio (6755399441055744, - 51) = (6755399441055744, 2251799813685248)" by (simp add: float_ratio_def)
  have "count_digits 3 = 1" by (subst count_digits.simps) simp
  then have d: "decimal_exponent 6755399441055744 2251799813685248 - int 1 = 0" by (simp add: decimal_exponent_def)
  have "6755399441055744 * 10 ^ nat (- 0) div (2251799813685248 * 10 ^ nat 0) = (3 :: nat)"
    "6755399441055744 * 10 ^ nat (- 0) mod (2251799813685248 * 10 ^ nat 0) = (0 :: nat)" "Suc 3 = 4"
    by simp_all
  then show ?thesis
    unfolding digits_candidate_def r prod.case Let_def d by (simp only: float_of_three float_of_four) simp
qed

lemma shortest_three: "shortest (6755399441055744, - 51) = (3, 0)"
proof -
  have "(17 :: nat) = Suc 16" by simp
  then show ?thesis unfolding shortest_def by (simp only: shortest_from.simps candidate_three option.case)
qed

lemma small_float: "ratio_less (float_ratio (float_of_decimal 1 (- 6))) (6755399441055744, 2251799813685248)"
  by (simp add: float_of_decimal_def decimal_ratio_def nearest_float_def bit_length.simps scaled_def round_at_def round_half_even_def
      Let_def ratio_less_def float_ratio_def)

lemma float_text_three: "float_text \<lparr>fl_Neg = False, fl_Mant = 6755399441055744, fl_Exp = - 51\<rparr> = ''3''"
  using small_float
  by (simp add: float_text_def shortest_three Let_def float_ratio_def ratio_less_def strip_zeros_def Itoa_def decimal.simps format_f_def digit_def zeros_def)

lemma number_three_ok: "number_ok \<lparr>fl_Neg = False, fl_Mant = 6755399441055744, fl_Exp = - 51\<rparr>"
  by (simp add: number_ok_def float_text_three number_three number_char_def go_eval is_digit_def)

text \<open>Settings with a variable of the user's and a number, as \<open>{"env":{"A":"b"},"n":3}\<close>.\<close>

definition numbered_text :: string where
  "numbered_text = ''{'' @ QUOTE # ''env'' @ QUOTE # '':{'' @ QUOTE # ''A'' @ QUOTE # '':'' @ QUOTE # ''b'' @ QUOTE # ''},'' @
     QUOTE # ''n'' @ QUOTE # '':3}''"

definition numbered_settings :: settings where
  "numbered_settings = [(''env'', JObject [(''A'', JString ''b'')]),
     (''n'', JNumber \<lparr>fl_Neg = False, fl_Mant = 6755399441055744, fl_Exp = - 51\<rparr>)]"

lemma parse_numbered: "parseJSONMap numbered_text = Inr numbered_settings"
proof -
  have "decode_any ''3'' = Some (JNumber \<lparr>fl_Neg = False, fl_Mant = 6755399441055744, fl_Exp = - 51\<rparr>)"
    by (simp add: decode_any.simps shape_of_def json_trim_def json_space_def decode_literal_def HasPrefix_single number_three)
  then show ?thesis
    by (simp add: parseJSONMap_def Unmarshal_map_def numbered_text_def decode_any.simps numbered_settings_def put_entries_def go_eval)
qed

definition untroubled :: install_env where
  "untroubled = \<lparr>ie_Read = Map.empty, ie_Mkdir = Map.empty, ie_Write = Map.empty, ie_Cut = Map.empty, ie_Now = 1\<rparr>"

definition numbered_file :: fs where
  "numbered_file = [(''s'', \<lparr>f_Content = numbered_text, f_ModTime = 0\<rparr>)]"

lemma sample_claude_defaults: "claude_defaults sample_claude = sample_claude"
  by (simp add: claude_defaults_def sample_claude_def)

lemma install_numbered: "\<exists>res fs'. ApplyClaudeIntegration sample_claude untroubled numbered_file = (Inr res, fs')"
proof -
  have r: "readOptionalFile untroubled ''s'' numbered_file = Inr numbered_text"
    by (simp add: readOptionalFile_def os_ReadFile_def untroubled_def numbered_file_def fs_lookup_def)
  have "planClaudeSettings numbered_settings sample_claude = Inr (install_settings ''http://h'' numbered_settings)"
    by (simp add: planClaudeSettings_def sample_claude_facts)
  moreover have "validateBaseURL ''http://h'' = None" by (simp add: validateBaseURL_def go_eval)
  moreover have p: "cl_SettingsPath sample_claude = ''s''" by (simp add: sample_claude_def)
  ultimately have "\<exists>res. claude_outcome sample_claude untroubled numbered_file = Inr res"
    by (simp add: claude_outcome_def r parse_numbered sample_claude_facts Let_def case_prod_unfold)
  then obtain res where o: "claude_outcome sample_claude untroubled numbered_file = Inr res" by blast
  have "cr_Path res = ''s''" by (rule claude_outcome_Inr [OF o]) (simp add: p)
  then obtain f where "write_config untroubled (cr_Path res) (cr_Preview res) numbered_file = (None, f)"
    by (simp add: write_config_def os_MkdirAll_def os_WriteFile_def os_Create_def untroubled_def numbered_file_def fs_lookup_def path_exists_def
        below_def go_eval)
  then show ?thesis by (simp add: ApplyClaudeIntegration_def sample_claude_defaults commit_plan_def o p)
qed

lemma claude_settings_typed_witness:
  "\<exists>t m env. planClaudeSettings numbered_settings sample_claude = Inr (t, m) \<and> map_of t ''env'' = Some (JObject env) \<and>
     map_of env ''A'' = Some (JString ''b'') \<and> map_of t ''n'' = map_of numbered_settings ''n''"
proof -
  obtain t m where "install_settings ''http://h'' numbered_settings = (t, m)" by (metis surj_pair)
  then have p: "planClaudeSettings numbered_settings sample_claude = Inr (t, m)"
    by (simp add: planClaudeSettings_def sample_claude_facts)
  have e: "env_of numbered_settings = [(''A'', JString ''b'')]" by (simp add: env_of_cases numbered_settings_def)
  have a: "cl_Action sample_claude \<noteq> ''uninstall''" by (simp add: sample_claude_def)
  from claude_settings_typed [OF parse_numbered p, of "[''A'', ''n'']"] show ?thesis
    unfolding if_not_P [OF a] e using p by auto
qed

lemma claude_settings_read_back_witness:
  "\<exists>res fs' raw. ApplyClaudeIntegration sample_claude untroubled numbered_file = (Inr res, fs') \<and>
     readOptionalFile untroubled ''s'' fs' = Inr raw \<and> ck_Status (claude_check_text ''s'' raw) = StatusOK"
proof -
  obtain res fs' where run: "ApplyClaudeIntegration sample_claude untroubled numbered_file = (Inr res, fs')"
    using install_numbered by blast
  have facts: "cl_SettingsPath sample_claude = ''s''" "\<not> cl_DryRun sample_claude" "ValidString ''http://h''"
    by (simp_all add: sample_claude_def ValidString_ascii)
  have r: "readOptionalFile untroubled ''s'' numbered_file = Inr numbered_text"
    by (simp add: readOptionalFile_def os_ReadFile_def untroubled_def numbered_file_def fs_lookup_def)
  have n: "numbers_ok (JObject numbered_settings)" "json_depth (JObject numbered_settings) \<le> max_nesting" "\<not> own_url numbered_settings"
    using number_three_ok by (simp_all add: numbered_settings_def max_nesting_def own_url_def url_of_def env_of_def childMap_def string_at_def)
  have "ie_Read untroubled p = None" for p by (simp add: untroubled_def)
  from claude_settings_read_back [OF run facts(2) _ _ this _ parse_numbered n(1,2)]
  show ?thesis
    using run r n(3) facts by (auto simp: sample_claude_defaults sample_claude_facts)
qed

end
