(* ===== verification/Mcp_Session.thy ===== *)
theory Mcp_Session
  imports Cli Claude_Files
begin

text \<open>
  Commands that work together: what \<open>cachy integrations mcp\<close> prints, read as the JSON it is, is a command
  line with which the command \<open>proxy\<close> of \<open>internal/cli/cli.go\<close> serves the same target.
\<close>

section \<open>What a client reads\<close>

definition json_strings :: "json list \<Rightarrow> string list option" where
  "json_strings vs = those (map (\<lambda>v. case v of JString s \<Rightarrow> Some s | _ \<Rightarrow> None) vs)"

text \<open>The command line of the server that is registered as \<open>cachy\<close>.\<close>

definition registered_command :: "string \<Rightarrow> (string \<times> string list) option" where
  "registered_command raw =
     (case parseJSONMap raw of
        Inl _ \<Rightarrow> None
      | Inr kvs \<Rightarrow>
          (let server = map_at (map_at kvs ''mcpServers'') ''cachy''
           in case map_of server ''args'' of
                Some (JArray vs) \<Rightarrow> map_option (Pair (string_at server ''command'')) (json_strings vs)
              | _ \<Rightarrow> None))"

lemma mcp_registration_encodable:
  assumes "ValidString (mo_Command options)" and "ValidString (mo_ListenAddress options)" and "ValidString (mo_TargetBaseURL options)"
  shows "encodable (JObject (mcp_registration options))" "json_depth (JObject (mcp_registration options)) \<le> max_nesting"
  using assms by (simp_all add: mcp_registration_def ordered_map_def ValidString_ascii max_nesting_def)

lemma registered_mcp:
  assumes "ValidString (mo_Command options)" and "ValidString (mo_ListenAddress options)" and "ValidString (mo_TargetBaseURL options)"
  shows "registered_command (marshalSettings (mcp_registration options)) =
    Some (mo_Command options, [''proxy'', ''--listen'', mo_ListenAddress options, ''--target'', mo_TargetBaseURL options])"
  by (simp add: registered_command_def parse_marshal [OF mcp_registration_encodable [OF assms]] Let_def)
    (simp add: mcp_registration_def map_at_def string_at_def json_strings_def)

lemma proxy_flags:
  "flags_Parse (target_flags d) [''--listen'', l, ''--target'', t] =
     Inr (\<lparr>fl_Strings = [(''listen'', l), (''target'', t)], fl_Bools = []\<rparr>, [])"
  by (simp add: target_flags_def flag_step_def flag_name_def split_flag_def HasPrefix_def)

lemma proxy_flag_values:
  "string_flag \<lparr>fl_Strings = [(''listen'', l), (''target'', t)], fl_Bools = bs\<rparr> ''listen'' = l"
  "string_flag \<lparr>fl_Strings = [(''listen'', l), (''target'', t)], fl_Bools = bs\<rparr> ''target'' = t"
  by (simp_all add: string_flag_def)

lemma validateBaseURL_nonempty: "validateBaseURL u = None \<Longrightarrow> u \<noteq> []"
proof
  assume v: "validateBaseURL u = None" and "u = []"
  moreover have "validateBaseURL [] \<noteq> None" by (simp add: validateBaseURL_def go_eval)
  ultimately show False by simp
qed

section \<open>Properties\<close>

text \<open>C21. The registration that \<open>cachy integrations mcp\<close> prints works: it is valid JSON, in which a client finds the
  command and the arguments; with these arguments \<open>cachy\<close> starts the proxy for the target and on the address
  that were asked for, and ends as the proxy does, whatever its own environment and files are.\<close>

theorem mcp_registration_starts_proxy:
  assumes "rs_Code (RunWithDeps d (''integrations'' # ''mcp'' # args) fs) = 0"
    and "flags_Parse mcp_flags args = Inr (f, left)"
    and "ValidString (string_flag f ''command'')" and "ValidString (string_flag f ''listen'')" and "ValidString (string_flag f ''target'')"
    and "listen = (if string_flag f ''listen'' = [] then ''127.0.0.1:8787'' else string_flag f ''listen'')"
  shows "case registered_command (rs_Stdout (RunWithDeps d (''integrations'' # ''mcp'' # args) fs)) of
      None \<Rightarrow> False
    | Some (command, arguments) \<Rightarrow>
        command = (if string_flag f ''command'' = [] then ''cachy'' else string_flag f ''command'') \<and>
        RunWithDeps d' arguments fs' =
          (case dp_ServeProxy d' \<lparr>cp_Listen = listen, cp_TargetBaseURL = string_flag f ''target''\<rparr> of
             Some err \<Rightarrow> stop 1 [ProxyStopped err] fs' | None \<Rightarrow> finish 0 [] fs')"
proof -
  let ?o = "mcp_defaults \<lparr>mo_Command = string_flag f ''command'', mo_ListenAddress = string_flag f ''listen'',
    mo_TargetBaseURL = string_flag f ''target''\<rparr>"
  obtain a1 rest where args: "args = a1 # rest"
    using assms(1) by (cases args) (auto simp: RunWithDeps_def runIntegrationsCommand_def stop_def)
  have run: "RunWithDeps d (''integrations'' # ''mcp'' # args) fs = runMCPCommand args fs"
    by (simp add: RunWithDeps_def runIntegrationsCommand_def args)
  have valid: "validateBaseURL (string_flag f ''target'') = None"
    using assms(1,2) unfolding run
    by (auto simp: runMCPCommand_def with_flags_def RenderMCPRegistration_def stop_def split: option.splits)
  have out: "rs_Stdout (runMCPCommand args fs) = marshalSettings (mcp_registration ?o)"
    using assms(2) valid by (simp add: runMCPCommand_def with_flags_def RenderMCPRegistration_def finish_def)
  have o: "mo_Command ?o = (if string_flag f ''command'' = [] then ''cachy'' else string_flag f ''command'')"
    "mo_ListenAddress ?o = listen" "mo_TargetBaseURL ?o = string_flag f ''target''"
    using assms(6) by (simp_all add: mcp_defaults_def Let_def)
  have "ValidString (mo_Command ?o)" "ValidString (mo_ListenAddress ?o)" "ValidString (mo_TargetBaseURL ?o)"
    unfolding o using assms(3-6) by (simp_all add: ValidString_ascii)
  note c = registered_mcp [OF this]
  have "RunWithDeps d' [''proxy'', ''--listen'', listen, ''--target'', string_flag f ''target''] fs' =
      (case dp_ServeProxy d' \<lparr>cp_Listen = listen, cp_TargetBaseURL = string_flag f ''target''\<rparr> of
         Some err \<Rightarrow> stop 1 [ProxyStopped err] fs' | None \<Rightarrow> finish 0 [] fs')"
    using validateBaseURL_nonempty [OF valid]
    by (simp add: RunWithDeps_def runProxy_def with_flags_def proxy_flags proxy_flag_values del: flags_Parse.simps)
  then show ?thesis unfolding run out c o by simp
qed

lemma mcp_registration_starts_proxy_witness:
  "case registered_command (rs_Stdout (RunWithDeps sample_deps [''integrations'', ''mcp'', ''--target'', ''http://h''] [])) of
     None \<Rightarrow> False
   | Some (command, arguments) \<Rightarrow> command = ''cachy'' \<and> rs_Code (RunWithDeps sample_deps arguments []) = 0"
proof -
  let ?f = "\<lparr>fl_Strings = [(''command'', ''cachy''), (''listen'', DefaultListenAddress), (''target'', ''http://h'')], fl_Bools = []\<rparr>"
  have p: "flags_Parse mcp_flags [''--target'', ''http://h''] = Inr (?f, [])"
    by (simp add: mcp_flags_def flag_step_def flag_name_def split_flag_def HasPrefix_def)
  have v: "validateBaseURL ''http://h'' = None" by (simp add: validateBaseURL_def go_eval)
  have s: "string_flag ?f ''command'' = ''cachy''" "string_flag ?f ''listen'' = DefaultListenAddress" "string_flag ?f ''target'' = ''http://h''"
    by (simp_all add: string_flag_def)
  have z: "rs_Code (RunWithDeps sample_deps (''integrations'' # ''mcp'' # [''--target'', ''http://h'']) []) = 0"
    by (simp add: RunWithDeps_def runIntegrationsCommand_def runMCPCommand_def with_flags_def p RenderMCPRegistration_def
        s v finish_def del: flags_Parse.simps)
  have sd: "dp_ServeProxy sample_deps = (\<lambda>_. None)" by (simp add: sample_deps_def)
  have "ValidString (string_flag ?f ''command'')" "ValidString (string_flag ?f ''listen'')" "ValidString (string_flag ?f ''target'')"
    unfolding s by (simp_all add: ValidString_ascii DefaultListenAddress_def)
  from mcp_registration_starts_proxy [OF z p this refl, of sample_deps "[]"] show ?thesis
    by (auto simp: s sd finish_def split: option.splits)
qed

end
