(* ===== verification/Release_Archive.thy ===== *)
theory Release_Archive
  imports Go_Os Go_Crypto
begin

text \<open>
  \<open>internal/release/archive.go\<close>: the archive of a release and its checksum file. The bytes that the packages
  \<open>archive/zip\<close>, \<open>archive/tar\<close> and \<open>compress/gzip\<close> make of one entry are functions of the environment; the
  entry is what the code hands to them. A write to the archive that fails while the binary is copied is an error of
  the run (\<open>re_Cut\<close>). Errors of the deferred \<open>Close\<close> calls are not looked at by the code:
  where \<open>re_Lost\<close> says so, only a beginning of the archive has reached the file by then.
\<close>

section \<open>State\<close>

record release_env =
  re_Read :: fault
  re_Mkdir :: fault
  re_Write :: fault
  re_Cut :: short_write
  re_Now :: time
  re_Lost :: "string \<Rightarrow> nat option"
  re_Zip :: "string \<Rightarrow> string \<Rightarrow> string"
  re_TarGz :: "string \<Rightarrow> int \<Rightarrow> string \<Rightarrow> string"
  re_DirSize :: int

datatype release_error =
    BinaryRequired
  | OutputDirRequired
  | UnsupportedTarget string string
  | UnsupportedFormat string
  | KindRequired
  | ArtifactRequired
  | OutputRequired
  | VersionRequired
  | ReleaseOs os_error

record archive_options =
  ao_BinaryPath :: string
  ao_OutputDir :: string
  ao_GOOS :: string
  ao_GOARCH :: string

record archive_artifact =
  aa_ArchivePath :: string
  aa_ChecksumPath :: string

section \<open>Operations\<close>

definition archiveFormat :: "string \<Rightarrow> string \<Rightarrow> release_error + string" where
  "archiveFormat goos goarch =
     (let target = goos @ ''/'' @ goarch
      in if target \<in> {''windows/amd64'', ''windows/arm64''} then Inr ''zip''
         else if target \<in> {''darwin/amd64'', ''darwin/arm64'', ''linux/amd64'', ''linux/arm64''} then Inr ''tar.gz''
         else Inl (UnsupportedTarget goos goarch))"

definition archiveName :: "string \<Rightarrow> string \<Rightarrow> string \<Rightarrow> string" where
  "archiveName goos goarch format = ''cachy_'' @ goos @ ''_'' @ goarch @ ''.'' @ format"

text \<open>Closing the writers, which puts the archive of what has been copied into the file.\<close>

definition close_archive :: "release_env \<Rightarrow> string \<Rightarrow> string \<Rightarrow> fs \<Rightarrow> fs" where
  "close_archive env path bytes fs =
     fs_write path \<lparr>f_Content = (case re_Lost env path of None \<Rightarrow> bytes | Some n \<Rightarrow> take n bytes),
       f_ModTime = re_Now env\<rparr> fs"

text \<open>
  Copying the binary into the archive fails when a write to the archive does: some of the archive is in the file
  by then.
\<close>

definition copy_into :: "release_env \<Rightarrow> string \<Rightarrow> string \<Rightarrow> fs \<Rightarrow> os_error option \<times> fs" where
  "copy_into env path bytes fs =
     (case re_Cut env path of
        Some (n, err) \<Rightarrow> (Some err, fs_write path \<lparr>f_Content = take n bytes, f_ModTime = re_Now env\<rparr> fs)
      | None \<Rightarrow> (None, close_archive env path bytes fs))"

definition writeZip :: "release_env \<Rightarrow> string \<Rightarrow> string \<Rightarrow> string \<Rightarrow> fs \<Rightarrow> os_error option \<times> fs" where
  "writeZip env archivePath binaryPath entryName fs =
     (case os_Create (re_Write env) (re_Now env) archivePath fs of
        (Some err, fs1) \<Rightarrow> (Some err, fs1)
      | (None, fs1) \<Rightarrow>
          (case os_ReadFile (re_Read env) binaryPath fs1 of
             Inl err \<Rightarrow> (Some err, close_archive env archivePath (re_Zip env entryName []) fs1)
           | Inr content \<Rightarrow> copy_into env archivePath (re_Zip env entryName content) fs1))"

definition file_size :: "release_env \<Rightarrow> string \<Rightarrow> fs \<Rightarrow> int" where
  "file_size env path fs =
     (case fs_lookup fs path of Some f \<Rightarrow> int (length (f_Content f)) | None \<Rightarrow> re_DirSize env)"

text \<open>The binary is open before the archive is created; it is read afterwards.\<close>

definition writeTarGz :: "release_env \<Rightarrow> string \<Rightarrow> string \<Rightarrow> string \<Rightarrow> fs \<Rightarrow> os_error option \<times> fs" where
  "writeTarGz env archivePath binaryPath entryName fs =
     (case os_Stat (re_Read env) binaryPath fs of
        Some err \<Rightarrow> (Some err, fs)
      | None \<Rightarrow>
          (case os_Create (re_Write env) (re_Now env) archivePath fs of
             (Some err, fs1) \<Rightarrow> (Some err, fs1)
           | (None, fs1) \<Rightarrow>
               (let sz = file_size env binaryPath fs
                in case os_ReadFile Map.empty binaryPath fs1 of
                     Inl err \<Rightarrow> (Some err, close_archive env archivePath (re_TarGz env entryName sz []) fs1)
                   | Inr content \<Rightarrow> copy_into env archivePath (re_TarGz env entryName sz content) fs1)))"

definition checksum_line :: "string \<Rightarrow> string \<Rightarrow> string" where
  "checksum_line content archivePath = hex_encode (sha256 content) @ ''  '' @ Base archivePath @ [NL]"

definition writeChecksum :: "release_env \<Rightarrow> string \<Rightarrow> string \<Rightarrow> fs \<Rightarrow> os_error option \<times> fs" where
  "writeChecksum env archivePath checksumPath fs =
     (case os_ReadFile (re_Read env) archivePath fs of
        Inl err \<Rightarrow> (Some err, fs)
      | Inr content \<Rightarrow> os_WriteFile (re_Write env) (re_Cut env) (re_Now env) checksumPath (checksum_line content archivePath) fs)"

definition write_archive :: "release_env \<Rightarrow> string \<Rightarrow> string \<Rightarrow> string \<Rightarrow> fs \<Rightarrow> release_error option \<times> fs" where
  "write_archive env format archivePath binaryPath fs =
     (if format = ''zip'' then map_prod (map_option ReleaseOs) id (writeZip env archivePath binaryPath ''cachy.exe'' fs)
      else if format = ''tar.gz'' then map_prod (map_option ReleaseOs) id (writeTarGz env archivePath binaryPath ''cachy'' fs)
      else (Some (UnsupportedFormat format), fs))"

definition PackageArchive ::
  "release_env \<Rightarrow> archive_options \<Rightarrow> fs \<Rightarrow> (release_error + archive_artifact) \<times> fs" where
  "PackageArchive env options fs =
     (if ao_BinaryPath options = [] then (Inl BinaryRequired, fs)
      else if ao_OutputDir options = [] then (Inl OutputDirRequired, fs)
      else case archiveFormat (ao_GOOS options) (ao_GOARCH options) of
        Inl err \<Rightarrow> (Inl err, fs)
      | Inr format \<Rightarrow>
          (case os_MkdirAll (re_Mkdir env) (ao_OutputDir options) fs of
             Some err \<Rightarrow> (Inl (ReleaseOs err), fs)
           | None \<Rightarrow>
               (let archivePath = path_Join [ao_OutputDir options, archiveName (ao_GOOS options) (ao_GOARCH options) format];
                    checksumPath = archivePath @ ''.sha256''
                in case write_archive env format archivePath (ao_BinaryPath options) fs of
                     (Some err, fs1) \<Rightarrow> (Inl err, fs1)
                   | (None, fs1) \<Rightarrow>
                       (case writeChecksum env archivePath checksumPath fs1 of
                          (Some err, fs2) \<Rightarrow> (Inl (ReleaseOs err), fs2)
                        | (None, fs2) \<Rightarrow>
                            (Inr \<lparr>aa_ArchivePath = archivePath, aa_ChecksumPath = checksumPath\<rparr>, fs2)))))"

section \<open>Facts about the files\<close>

lemma lookup_close_archive:
  "fs_lookup (close_archive env path bytes fs) q =
     (if q = path then Some \<lparr>f_Content = (case re_Lost env path of None \<Rightarrow> bytes | Some n \<Rightarrow> take n bytes), f_ModTime = re_Now env\<rparr>
      else fs_lookup fs q)"
  by (simp add: close_archive_def)

lemma copy_into_cases:
  "copy_into env path bytes fs = (None, fs') \<Longrightarrow> fs' = close_archive env path bytes fs"
  "copy_into env path bytes fs = (r, fs') \<Longrightarrow> q \<noteq> path \<Longrightarrow> fs_lookup fs' q = fs_lookup fs q"
  by (auto simp: copy_into_def lookup_close_archive split: option.splits)

text \<open>What the archive holds: the whole entry, unless the last of it was lost when it was closed.\<close>

definition archive_bytes :: "release_env \<Rightarrow> string \<Rightarrow> string \<Rightarrow> string" where
  "archive_bytes env format content =
     (if format = ''zip'' then re_Zip env ''cachy.exe'' content
      else re_TarGz env ''cachy'' (int (length content)) content)"

lemma write_archive_frame:
  "write_archive env format archivePath binaryPath fs = (r, fs1) \<Longrightarrow> q \<noteq> archivePath \<Longrightarrow> fs_lookup fs1 q = fs_lookup fs q"
  by (auto simp: write_archive_def writeZip_def writeTarGz_def map_prod_def lookup_close_archive Let_def
      dest!: os_Create_cases dest: copy_into_cases(2) split: if_splits option.splits sum.splits prod.splits)

lemma Base_path_Join1: "plain e \<Longrightarrow> Base (path_Join [root, e]) = e"
  using Base_path_Join [of root "[]" e] by (cases "root = []") (simp_all add: path_Join_nil Base_plain)

lemma write_archive_success:
  assumes "write_archive env format archivePath binaryPath fs = (None, fs1)" and "binaryPath \<noteq> archivePath"
  shows "\<exists>f. fs_lookup fs binaryPath = Some f \<and> fs1 = close_archive env archivePath (archive_bytes env format (f_Content f)) (snd (os_Create (re_Write env) (re_Now env) archivePath fs))"
proof -
  have z: ?thesis if f: "format = ''zip''" and w: "writeZip env archivePath binaryPath ''cachy.exe'' fs = (None, fs1)"
  proof -
    obtain fs0 where c: "os_Create (re_Write env) (re_Now env) archivePath fs = (None, fs0)"
      using w by (auto simp: writeZip_def split: prod.splits option.splits)
    then show ?thesis
      using f w assms(2) os_Create_cases(1) [OF c]
      by (auto dest!: copy_into_cases(1) simp: writeZip_def os_ReadFile_def archive_bytes_def split: sum.splits option.splits)
  qed
  have t: ?thesis if f: "format = ''tar.gz''" and w: "writeTarGz env archivePath binaryPath ''cachy'' fs = (None, fs1)"
  proof -
    obtain fs0 where c: "os_Create (re_Write env) (re_Now env) archivePath fs = (None, fs0)"
      using w by (auto simp: writeTarGz_def split: prod.splits option.splits)
    then show ?thesis
      using f w assms(2) os_Create_cases(1) [OF c]
      by (auto dest!: copy_into_cases(1) simp: writeTarGz_def Let_def os_ReadFile_def archive_bytes_def file_size_def split: sum.splits option.splits)
  qed
  show ?thesis
    using assms(1) z t by (auto simp: write_archive_def map_prod_def split: if_splits prod.splits)
qed


text \<open>A run that succeeds goes through every step.\<close>

lemma PackageArchive_Inr:
  assumes "PackageArchive env options fs = (Inr a, fs')"
  obtains format fs1 content where "archiveFormat (ao_GOOS options) (ao_GOARCH options) = Inr format"
    "aa_ArchivePath a = path_Join [ao_OutputDir options, archiveName (ao_GOOS options) (ao_GOARCH options) format]"
    "aa_ChecksumPath a = aa_ArchivePath a @ ''.sha256''"
    "write_archive env format (aa_ArchivePath a) (ao_BinaryPath options) fs = (None, fs1)"
    "os_ReadFile (re_Read env) (aa_ArchivePath a) fs1 = Inr content"
    "os_WriteFile (re_Write env) (re_Cut env) (re_Now env) (aa_ChecksumPath a) (checksum_line content (aa_ArchivePath a)) fs1 = (None, fs')"
  using assms
  by (auto simp: PackageArchive_def writeChecksum_def Let_def split: if_splits sum.splits option.splits prod.splits)

lemma split_at_slash:
  "a @ CHR ''/'' # b = c @ CHR ''/'' # d \<Longrightarrow> CHR ''/'' \<notin> set c \<Longrightarrow> CHR ''/'' \<notin> set d \<Longrightarrow> a = c \<and> b = d"
proof (induction a arbitrary: c)
  case Nil
  then show ?case by (cases c) auto
next
  case (Cons x a)
  then show ?case by (cases c) auto
qed

lemma archiveFormat_targets:
  assumes "archiveFormat goos goarch = Inr format"
  shows "goarch \<in> {''amd64'', ''arm64''} \<and>
    (goos = ''windows'' \<and> format = ''zip'' \<or> goos \<in> {''darwin'', ''linux''} \<and> format = ''tar.gz'')"
proof -
  have s: "goos @ ''/'' @ goarch = c @ ''/'' @ d \<Longrightarrow> CHR ''/'' \<notin> set c \<Longrightarrow> CHR ''/'' \<notin> set d \<Longrightarrow> goos = c \<and> goarch = d" for c d
    using split_at_slash [of goos goarch c d] by simp
  show ?thesis
    using assms s [of "''windows''" "''amd64''"] s [of "''windows''" "''arm64''"] s [of "''darwin''" "''amd64''"]
      s [of "''darwin''" "''arm64''"] s [of "''linux''" "''amd64''"] s [of "''linux''" "''arm64''"]
    by (auto simp: archiveFormat_def Let_def split: if_splits)
qed

lemma archiveName_plain: "archiveFormat goos goarch = Inr format \<Longrightarrow> plain (archiveName goos goarch format)"
  using archiveFormat_targets [of goos goarch format] by (auto simp: archiveName_def plain_def)

text \<open>What a run that succeeds leaves.\<close>

lemma package_facts:
  assumes "PackageArchive env options fs = (Inr a, fs')" and "ao_BinaryPath options \<noteq> aa_ArchivePath a"
  shows "\<exists>format binary archive.
    archiveFormat (ao_GOOS options) (ao_GOARCH options) = Inr format \<and>
    fs_lookup fs (ao_BinaryPath options) = Some binary \<and>
    fs_lookup fs' (aa_ArchivePath a) = Some archive \<and>
    f_Content archive = (case re_Lost env (aa_ArchivePath a) of
       None \<Rightarrow> archive_bytes env format (f_Content binary) | Some n \<Rightarrow> take n (archive_bytes env format (f_Content binary))) \<and>
    map_option f_Content (fs_lookup fs' (aa_ChecksumPath a)) = Some (checksum_line (f_Content archive) (aa_ArchivePath a)) \<and>
    Base (aa_ArchivePath a) = archiveName (ao_GOOS options) (ao_GOARCH options) format \<and>
    aa_ChecksumPath a = aa_ArchivePath a @ ''.sha256'' \<and>
    list_all (\<lambda>q. q = aa_ArchivePath a \<or> q = aa_ChecksumPath a \<or> fs_lookup fs' q = fs_lookup fs q) paths"
proof -
  obtain format fs1 content where p: "archiveFormat (ao_GOOS options) (ao_GOARCH options) = Inr format"
    "aa_ArchivePath a = path_Join [ao_OutputDir options, archiveName (ao_GOOS options) (ao_GOARCH options) format]"
    "aa_ChecksumPath a = aa_ArchivePath a @ ''.sha256''"
    "write_archive env format (aa_ArchivePath a) (ao_BinaryPath options) fs = (None, fs1)"
    "os_ReadFile (re_Read env) (aa_ArchivePath a) fs1 = Inr content"
    "os_WriteFile (re_Write env) (re_Cut env) (re_Now env) (aa_ChecksumPath a) (checksum_line content (aa_ArchivePath a)) fs1 = (None, fs')"
    by (rule PackageArchive_Inr [OF assms(1)])
  have w: "fs_lookup fs' q = (if q = aa_ChecksumPath a then
      Some \<lparr>f_Content = checksum_line content (aa_ArchivePath a), f_ModTime = re_Now env\<rparr> else fs_lookup fs1 q)" for q
    using os_WriteFile_cases(1) [OF p(6)] by simp
  obtain binary where b: "fs_lookup fs (ao_BinaryPath options) = Some binary"
    "fs1 = close_archive env (aa_ArchivePath a) (archive_bytes env format (f_Content binary)) (snd (os_Create (re_Write env) (re_Now env) (aa_ArchivePath a) fs))"
    using write_archive_success [OF p(4) assms(2)] by blast
  have "content = (case re_Lost env (aa_ArchivePath a) of
       None \<Rightarrow> archive_bytes env format (f_Content binary) | Some n \<Rightarrow> take n (archive_bytes env format (f_Content binary)))"
    using p(5) unfolding b(2) by (auto simp: os_ReadFile_def lookup_close_archive split: option.splits)
  moreover have "fs_lookup fs' (aa_ArchivePath a) = Some \<lparr>f_Content = content, f_ModTime = re_Now env\<rparr>"
    using p(3) calculation by (simp add: w b(2) lookup_close_archive)
  moreover have "Base (aa_ArchivePath a) = archiveName (ao_GOOS options) (ao_GOARCH options) format"
    unfolding p(2) by (rule Base_path_Join1 [OF archiveName_plain [OF p(1)]])
  moreover have "list_all (\<lambda>q. q = aa_ArchivePath a \<or> q = aa_ChecksumPath a \<or> fs_lookup fs' q = fs_lookup fs q) paths"
    using write_archive_frame [OF p(4)] by (auto simp: list_all_iff w)
  ultimately show ?thesis
    using p(1,3) b(1) by (simp add: w)
qed

section \<open>Properties\<close>

text \<open>C38. A packaged release can be checked: when packaging succeeds the archive is of a supported target, it
  was made of the binary as it stood, unless its end was lost when it was closed, and the checksum file
  next to it names the archive and holds the checksum of the bytes that are in it; no other file has
  changed.\<close>

theorem PackageArchive_checksum:
  assumes "PackageArchive env options fs = (Inr a, fs')" and "ao_BinaryPath options \<noteq> aa_ArchivePath a"
  shows "\<exists>format binary archive.
    archiveFormat (ao_GOOS options) (ao_GOARCH options) = Inr format \<and>
    fs_lookup fs (ao_BinaryPath options) = Some binary \<and>
    fs_lookup fs' (aa_ArchivePath a) = Some archive \<and>
    f_Content archive = (case re_Lost env (aa_ArchivePath a) of
       None \<Rightarrow> archive_bytes env format (f_Content binary) | Some n \<Rightarrow> take n (archive_bytes env format (f_Content binary))) \<and>
    map_option f_Content (fs_lookup fs' (aa_ChecksumPath a)) =
      Some (hex_encode (sha256 (f_Content archive)) @ ''  '' @ archiveName (ao_GOOS options) (ao_GOARCH options) format @ [NL]) \<and>
    list_all (\<lambda>q. q = aa_ArchivePath a \<or> q = aa_ChecksumPath a \<or> fs_lookup fs' q = fs_lookup fs q) paths"
  using package_facts [OF assms, of paths] by (auto simp: checksum_line_def)

subsection \<open>A concrete release\<close>

text \<open>The end of the archive is lost when it is closed, and nothing says so.\<close>

definition sample_release :: release_env where
  "sample_release = \<lparr>re_Read = Map.empty, re_Mkdir = Map.empty, re_Write = Map.empty, re_Cut = Map.empty, re_Now = 5, re_Lost = (\<lambda>_. Some 3),
     re_Zip = (\<lambda>name content. name @ content), re_TarGz = (\<lambda>name sz content. name @ content), re_DirSize = 0\<rparr>"

definition sample_target :: archive_options where
  "sample_target = \<lparr>ao_BinaryPath = ''b'', ao_OutputDir = ''d'', ao_GOOS = ''linux'', ao_GOARCH = ''amd64''\<rparr>"

definition sample_build :: fs where
  "sample_build = [(''b'', \<lparr>f_Content = ''elf'', f_ModTime = 1\<rparr>)]"

definition sample_packaged :: fs where
  "sample_packaged =
     [(''b'', \<lparr>f_Content = ''elf'', f_ModTime = 1\<rparr>), (''d/cachy_linux_amd64.tar.gz'', \<lparr>f_Content = ''cac'', f_ModTime = 5\<rparr>),
      (''d/cachy_linux_amd64.tar.gz.sha256'', \<lparr>f_Content = checksum_line ''cac'' ''d/cachy_linux_amd64.tar.gz'', f_ModTime = 5\<rparr>)]"

lemma sample_package:
  "PackageArchive sample_release sample_target sample_build =
    (Inr \<lparr>aa_ArchivePath = ''d/cachy_linux_amd64.tar.gz'', aa_ChecksumPath = ''d/cachy_linux_amd64.tar.gz.sha256''\<rparr>,
     sample_packaged)"
proof -
  have p: "path_Join [''d'', ''cachy_linux_amd64.tar.gz''] = ''d/cachy_linux_amd64.tar.gz''" by (simp add: go_eval)
  show ?thesis
    by (simp add: PackageArchive_def sample_target_def archiveFormat_def archiveName_def p sample_release_def
        sample_build_def os_MkdirAll_def go_eval below_def write_archive_def writeTarGz_def os_Stat_def os_Create_def copy_into_def
        os_WriteFile_def path_exists_def fs_lookup_def os_ReadFile_def close_archive_def writeChecksum_def Let_def sample_packaged_def)
qed

lemma PackageArchive_checksum_witness:
  "case PackageArchive sample_release sample_target sample_build of
     (Inr a, fs') \<Rightarrow> map_option f_Content (fs_lookup fs' (aa_ArchivePath a)) = Some ''cac'' | _ \<Rightarrow> False"
proof -
  have "archiveFormat (ao_GOOS sample_target) (ao_GOARCH sample_target) = Inr ''tar.gz''"
    by (simp add: sample_target_def archiveFormat_def)
  moreover have "take 3 (archive_bytes sample_release ''tar.gz'' c) = ''cac''" for c
    by (simp add: archive_bytes_def sample_release_def)
  moreover have "re_Lost sample_release q = Some 3" "ao_BinaryPath sample_target = ''b''" for q
    by (simp_all add: sample_release_def sample_target_def)
  ultimately show ?thesis
    using PackageArchive_checksum [OF sample_package, of "[]"] by (auto simp: sample_package)
qed

end
