(* ===== verification/Release_Evidence.thy ===== *)
theory Release_Evidence
  imports Release_Archive Go_Json_Value Go_Flag
begin

text \<open>
  \<open>internal/release/evidence.go\<close> and \<open>cmd/cachy-release/main.go\<close>: the list of parts and the notes of a
  release, and the commands that write them. The build information of the running program is a parameter;
  times are in UTC.
\<close>

section \<open>Time\<close>

text \<open>The date of a day since 1 January 1970, counted in cycles of 400 years that begin in March.\<close>

definition civil_date :: "int \<Rightarrow> int \<times> int \<times> int" where
  "civil_date days =
     (let z = days + 719468; era = z div 146097; doe = z mod 146097;
          yoe = (doe - doe div 1460 + doe div 36524 - doe div 146096) div 365;
          doy = doe - (365 * yoe + yoe div 4 - yoe div 100);
          mp = (5 * doy + 2) div 153; d = doy - (153 * mp + 2) div 5 + 1;
          m = (if mp < 10 then mp + 3 else mp - 9)
      in (yoe + era * 400 + (if m \<le> 2 then 1 else 0), m, d))"

definition padded :: "nat \<Rightarrow> int \<Rightarrow> string" where
  "padded n i = replicate (n - length (Itoa i)) (CHR ''0'') @ Itoa i"

text \<open>\<open>Format(time.RFC3339)\<close> of a time in nanoseconds since 1970.\<close>

definition format_rfc3339 :: "time \<Rightarrow> string" where
  "format_rfc3339 t =
     (let secs = t div 1000000000; (y, m, d) = civil_date (secs div 86400); s = secs mod 86400
      in padded 4 y @ ''-'' @ padded 2 m @ ''-'' @ padded 2 d @ ''T'' @
         padded 2 (s div 3600) @ '':'' @ padded 2 (s div 60 mod 60) @ '':'' @ padded 2 (s mod 60) @ ''Z'')"

section \<open>State\<close>

record sbom_options =
  so_Kind :: string
  so_Artifact :: string
  so_OutputPath :: string
  so_Version :: string
  so_GeneratedAt :: "time option"

record sbom_artifact =
  sa_Name :: string
  sa_Path :: string
  sa_SizeBytes :: int
  sa_SHA256 :: string

record sbom_component =
  sc_Type :: string
  sc_Name :: string
  sc_Version :: string

record sbom_document =
  sd_Name :: string
  sd_Version :: string
  sd_Kind :: string
  sd_GeneratedAt :: string
  sd_Artifact :: sbom_artifact
  sd_Components :: "sbom_component list"

text \<open>\<open>debug.BuildInfo\<close>: the main module and its dependencies, each with the version that replaces it.\<close>

record build_dep =
  bd_Path :: string
  bd_Version :: string
  bd_Replace :: "string option"

record build_info =
  bi_MainPath :: string
  bi_MainVersion :: string
  bi_Deps :: "build_dep list"

record notes_options =
  no_Version :: string
  no_Output :: string

section \<open>The parts list\<close>

definition buildComponents :: "build_info option \<Rightarrow> sbom_component list" where
  "buildComponents bi =
     (let cachy = \<lparr>sc_Type = ''go-module'', sc_Name = ''cachy'', sc_Version = []\<rparr>
      in case bi of
           None \<Rightarrow> [cachy]
         | Some b \<Rightarrow>
             (if bi_MainPath b \<noteq> [] then cachy\<lparr>sc_Name := bi_MainPath b, sc_Version := bi_MainVersion b\<rparr> else cachy) #
             map (\<lambda>dep. \<lparr>sc_Type = ''go-module'', sc_Name = bd_Path dep,
               sc_Version = (case bd_Replace dep of None \<Rightarrow> bd_Version dep | Some v \<Rightarrow> v)\<rparr>) (bi_Deps b))"

definition fileSHA256 :: "release_env \<Rightarrow> string \<Rightarrow> fs \<Rightarrow> os_error + string" where
  "fileSHA256 env path fs = map_sum id (\<lambda>payload. hex_encode (sha256 payload)) (os_ReadFile (re_Read env) path fs)"

definition artifactEvidence :: "release_env \<Rightarrow> string \<Rightarrow> fs \<Rightarrow> os_error + sbom_artifact" where
  "artifactEvidence env path fs =
     (case os_Stat (re_Read env) path fs of
        Some err \<Rightarrow> Inl err
      | None \<Rightarrow>
          (let artifact = \<lparr>sa_Name = Base path, sa_Path = path, sa_SizeBytes = file_size env path fs, sa_SHA256 = []\<rparr>
           in if fs_lookup fs path = None then Inr artifact
              else map_sum id (\<lambda>h. artifact\<lparr>sa_SHA256 := h\<rparr>) (fileSHA256 env path fs)))"

text \<open>The fields in the order of the structs; an empty field with \<open>omitempty\<close> is left out.\<close>

definition omitempty :: "string \<Rightarrow> string \<Rightarrow> (string \<times> json) list" where
  "omitempty name v = (if v = [] then [] else [(name, JString v)])"

definition artifact_json :: "sbom_artifact \<Rightarrow> json" where
  "artifact_json a =
     JObject ([(''name'', JString (sa_Name a)), (''path'', JString (sa_Path a)), (''size_bytes'', JInt (sa_SizeBytes a))] @
       omitempty ''sha256'' (sa_SHA256 a))"

definition component_json :: "sbom_component \<Rightarrow> json" where
  "component_json c =
     JObject ([(''type'', JString (sc_Type c)), (''name'', JString (sc_Name c))] @ omitempty ''version'' (sc_Version c))"

definition document_json :: "sbom_document \<Rightarrow> json" where
  "document_json d =
     JObject [(''name'', JString (sd_Name d)), (''version'', JString (sd_Version d)), (''kind'', JString (sd_Kind d)),
       (''generated_at'', JString (sd_GeneratedAt d)), (''artifact'', artifact_json (sd_Artifact d)),
       (''components'', JArray (map component_json (sd_Components d)))]"

text \<open>The directory of a file is made, then the file is written.\<close>

definition write_evidence :: "release_env \<Rightarrow> string \<Rightarrow> string \<Rightarrow> fs \<Rightarrow> (release_error + string) \<times> fs" where
  "write_evidence env path payload fs =
     (case os_MkdirAll (re_Mkdir env) (Dir path) fs of
        Some err \<Rightarrow> (Inl (ReleaseOs err), fs)
      | None \<Rightarrow>
          (case os_WriteFile (re_Write env) (re_Cut env) (re_Now env) path payload fs of
             (Some err, fs') \<Rightarrow> (Inl (ReleaseOs err), fs')
           | (None, fs') \<Rightarrow> (Inr path, fs')))"

definition sbom_document_of :: "release_env \<Rightarrow> build_info option \<Rightarrow> sbom_options \<Rightarrow> sbom_artifact \<Rightarrow> sbom_document" where
  "sbom_document_of env bi options artifact =
     \<lparr>sd_Name = ''cachy'', sd_Version = so_Version options, sd_Kind = so_Kind options,
      sd_GeneratedAt = format_rfc3339 (case so_GeneratedAt options of None \<Rightarrow> re_Now env | Some t \<Rightarrow> t),
      sd_Artifact = artifact, sd_Components = buildComponents bi\<rparr>"

definition GenerateSBOM ::
  "release_env \<Rightarrow> build_info option \<Rightarrow> sbom_options \<Rightarrow> fs \<Rightarrow> (release_error + string) \<times> fs" where
  "GenerateSBOM env bi options fs =
     (if so_Kind options = [] then (Inl KindRequired, fs)
      else if so_Artifact options = [] then (Inl ArtifactRequired, fs)
      else if so_OutputPath options = [] then (Inl OutputRequired, fs)
      else case artifactEvidence env (so_Artifact options) fs of
        Inl err \<Rightarrow> (Inl (ReleaseOs err), fs)
      | Inr artifact \<Rightarrow>
          write_evidence env (so_OutputPath options)
            (json_indent 0 (document_json (sbom_document_of env bi options artifact)) @ [NL]) fs)"

section \<open>The notes\<close>

definition notes_text :: "string \<Rightarrow> string" where
  "notes_text version =
     Join [''# Cachy '' @ version @ '' Release Notes'', [], ''## Artifacts'', [],
       ''- Windows archives are published as ZIP files with matching checksums.'',
       ''- macOS and Linux archives are published as tar.gz files with matching checksums.'',
       ''- Docker packaging produces a non-published multi-arch OCI artifact for linux/amd64 and linux/arm64.'',
       ''- SBOM JSON files are generated for release evidence where practical.'', [], ''## Verification'', [],
       ''- Verify each archive with its .sha256 sidecar before installation.'',
       ''- Inspect SBOM files alongside release artifacts.'',
       ''- Run '' @ [CHR 0x60] @ ''cachy doctor'' @ [CHR 0x60] @ '' after placing the binary on PATH.'',
       ''- Run '' @ [CHR 0x60] @ ''cachy proxy --listen 127.0.0.1:8787 --target <provider-url>'' @ [CHR 0x60] @
         '' for a local smoke check.'', [], ''## Known Limitations'', [],
       ''- Publishing public packages requires explicit owner approval.'',
       ''- Registry push, signing, notarization, Winget, Scoop, Homebrew, deb, and rpm packaging are later work.'',
       ''- Docker image publication is intentionally separated from non-published OCI artifact generation.'', []] [NL]"

definition GenerateReleaseNotes :: "release_env \<Rightarrow> notes_options \<Rightarrow> fs \<Rightarrow> (release_error + string) \<times> fs" where
  "GenerateReleaseNotes env options fs =
     (if no_Version options = [] then (Inl VersionRequired, fs)
      else if no_Output options = [] then (Inl OutputRequired, fs)
      else write_evidence env (no_Output options) (notes_text (no_Version options)) fs)"

section \<open>The commands\<close>

datatype release_diagnostic =
    ReleaseUsage
  | UnknownReleaseCommand string
  | ReleaseFlag flag_error
  | ReleaseFailed string release_error

text \<open>The exit code, what is printed and what is reported. A flag set with \<open>ExitOnError\<close> leaves with exit
  code 0 when help was asked for and with 2 otherwise.\<close>

record release_exit =
  rx_Code :: int
  rx_Stdout :: string
  rx_Stderr :: "release_diagnostic list"

definition with_exit_flags ::
  "(string \<times> string) list \<Rightarrow> string list \<Rightarrow> fs \<Rightarrow> (flag_set \<Rightarrow> release_exit \<times> fs) \<Rightarrow> release_exit \<times> fs" where
  "with_exit_flags strings args fs k =
     (case flags_Parse \<lparr>fl_Strings = strings, fl_Bools = []\<rparr> args of
        Inl err \<Rightarrow> (\<lparr>rx_Code = (if err = ErrHelp then 0 else 2), rx_Stdout = [], rx_Stderr = [ReleaseFlag err]\<rparr>, fs)
      | Inr (f, _) \<Rightarrow> k f)"

definition report_release :: "string \<Rightarrow> ('a \<Rightarrow> string) \<Rightarrow> (release_error + 'a) \<times> fs \<Rightarrow> release_exit \<times> fs" where
  "report_release name show_result r =
     (case fst r of
        Inl err \<Rightarrow> \<lparr>rx_Code = 1, rx_Stdout = [], rx_Stderr = [ReleaseFailed name err]\<rparr>
      | Inr a \<Rightarrow> \<lparr>rx_Code = 0, rx_Stdout = show_result a, rx_Stderr = []\<rparr>, snd r)"

definition runPackage :: "release_env \<Rightarrow> string list \<Rightarrow> fs \<Rightarrow> release_exit \<times> fs" where
  "runPackage env args fs =
     with_exit_flags [(''input'', []), (''goos'', []), (''goarch'', []), (''out'', ''dist'')] args fs (\<lambda>f.
       report_release ''package''
         (\<lambda>a. ''archive: '' @ aa_ArchivePath a @ [NL] @ ''checksum: '' @ aa_ChecksumPath a @ [NL])
         (PackageArchive env \<lparr>ao_BinaryPath = string_flag f ''input'', ao_OutputDir = string_flag f ''out'',
            ao_GOOS = string_flag f ''goos'', ao_GOARCH = string_flag f ''goarch''\<rparr> fs))"

definition runSBOM :: "release_env \<Rightarrow> build_info option \<Rightarrow> string list \<Rightarrow> fs \<Rightarrow> release_exit \<times> fs" where
  "runSBOM env bi args fs =
     with_exit_flags [(''kind'', []), (''artifact'', []), (''out'', []), (''version'', [])] args fs (\<lambda>f.
       report_release ''sbom'' (\<lambda>path. ''sbom: '' @ path @ [NL])
         (GenerateSBOM env bi \<lparr>so_Kind = string_flag f ''kind'', so_Artifact = string_flag f ''artifact'',
            so_OutputPath = string_flag f ''out'', so_Version = string_flag f ''version'', so_GeneratedAt = None\<rparr> fs))"

definition runNotes :: "release_env \<Rightarrow> string list \<Rightarrow> fs \<Rightarrow> release_exit \<times> fs" where
  "runNotes env args fs =
     with_exit_flags [(''version'', []), (''out'', [])] args fs (\<lambda>f.
       report_release ''notes'' (\<lambda>path. ''notes: '' @ path @ [NL])
         (GenerateReleaseNotes env \<lparr>no_Version = string_flag f ''version'', no_Output = string_flag f ''out''\<rparr> fs))"

definition release_main :: "release_env \<Rightarrow> build_info option \<Rightarrow> string list \<Rightarrow> fs \<Rightarrow> release_exit \<times> fs" where
  "release_main env bi args fs =
     (case args of
        [] \<Rightarrow> (\<lparr>rx_Code = 2, rx_Stdout = [], rx_Stderr = [ReleaseUsage]\<rparr>, fs)
      | command # rest \<Rightarrow>
          if command = ''package'' then runPackage env rest fs
          else if command = ''sbom'' then runSBOM env bi rest fs
          else if command = ''notes'' then runNotes env rest fs
          else (\<lparr>rx_Code = 2, rx_Stdout = [], rx_Stderr = [UnknownReleaseCommand command]\<rparr>, fs))"

section \<open>Facts\<close>

lemma civil_date_examples:
  "civil_date 0 = (1970, 1, 1)" "civil_date 11015 = (2000, 2, 28)" "civil_date 11016 = (2000, 2, 29)"
  "civil_date 11017 = (2000, 3, 1)" "civil_date (- 1) = (1969, 12, 31)"
  by code_simp+

lemma write_evidence_Inr:
  "write_evidence env path payload fs = (Inr r, fs') \<Longrightarrow>
     r = path \<and> fs_lookup fs' q = (if q = path then Some \<lparr>f_Content = payload, f_ModTime = re_Now env\<rparr> else fs_lookup fs q)"
  by (auto simp: write_evidence_def dest: os_WriteFile_cases(1) split: option.splits prod.splits)

lemma artifactEvidence_file:
  assumes "artifactEvidence env path fs = Inr art" and "fs_lookup fs path = Some f"
  shows "art = \<lparr>sa_Name = Base path, sa_Path = path, sa_SizeBytes = int (length (f_Content f)), sa_SHA256 = hex_encode (sha256 (f_Content f))\<rparr>"
  using assms
  by (auto simp: artifactEvidence_def fileSHA256_def os_ReadFile_def file_size_def Let_def split: option.splits)

lemma GenerateSBOM_Inr:
  assumes "GenerateSBOM env bi options fs = (Inr r, fs')"
  obtains art where "artifactEvidence env (so_Artifact options) fs = Inr art"
    "write_evidence env (so_OutputPath options)
       (json_indent 0 (document_json (sbom_document_of env bi options art)) @ [NL]) fs = (Inr r, fs')"
  using assms by (auto simp: GenerateSBOM_def split: if_splits sum.splits)

section \<open>Properties\<close>

text \<open>C39. The evidence of a release fits together: the parts list that is made of a packaged archive says of it
  the name and the checksum that the checksum file next to the archive says, and the number of its bytes;
  writing the parts list leaves the archive and its checksum as they are.\<close>

theorem release_evidence_consistent:
  assumes "PackageArchive env options fs = (Inr a, fs1)" and "ao_BinaryPath options \<noteq> aa_ArchivePath a"
    and "GenerateSBOM env bi sbom fs1 = (Inr r, fs2)" and "so_Artifact sbom = aa_ArchivePath a"
    and "so_OutputPath sbom \<noteq> aa_ArchivePath a" and "so_OutputPath sbom \<noteq> aa_ChecksumPath a"
  shows "\<exists>art archive.
    map_option f_Content (fs_lookup fs2 (so_OutputPath sbom)) =
      Some (json_indent 0 (document_json (sbom_document_of env bi sbom art)) @ [NL]) \<and>
    map_option f_Content (fs_lookup fs2 (aa_ArchivePath a)) = Some archive \<and>
    map_option f_Content (fs_lookup fs2 (aa_ChecksumPath a)) = Some (sa_SHA256 art @ ''  '' @ sa_Name art @ [NL]) \<and>
    sa_SHA256 art = hex_encode (sha256 archive) \<and> sa_SizeBytes art = int (length archive)"
proof -
  obtain archive where p: "fs_lookup fs1 (aa_ArchivePath a) = Some archive"
    "map_option f_Content (fs_lookup fs1 (aa_ChecksumPath a)) = Some (checksum_line (f_Content archive) (aa_ArchivePath a))"
    "aa_ChecksumPath a = aa_ArchivePath a @ ''.sha256''"
    using package_facts [OF assms(1,2)] by blast
  obtain art where s: "artifactEvidence env (so_Artifact sbom) fs1 = Inr art"
    "write_evidence env (so_OutputPath sbom)
       (json_indent 0 (document_json (sbom_document_of env bi sbom art)) @ [NL]) fs1 = (Inr r, fs2)"
    by (rule GenerateSBOM_Inr [OF assms(3)])
  note art = artifactEvidence_file [OF s(1) [unfolded assms(4)] p(1)]
  have "fs_lookup fs2 q = (if q = so_OutputPath sbom
      then Some \<lparr>f_Content = json_indent 0 (document_json (sbom_document_of env bi sbom art)) @ [NL], f_ModTime = re_Now env\<rparr>
      else fs_lookup fs1 q)" for q
    using write_evidence_Inr [OF s(2)] by blast
  then show ?thesis
    using assms(5,6) p by (intro exI [of _ art] exI [of _ "f_Content archive"]) (simp add: art checksum_line_def)
qed

lemma release_evidence_consistent_witness:
  "\<exists>a fs1 r fs2. PackageArchive sample_release sample_target sample_build = (Inr a, fs1) \<and>
     GenerateSBOM sample_release None \<lparr>so_Kind = ''archive'', so_Artifact = aa_ArchivePath a, so_OutputPath = ''o'',
       so_Version = ''1'', so_GeneratedAt = Some 0\<rparr> fs1 = (Inr r, fs2) \<and>
     (\<exists>art :: sbom_artifact. map_option f_Content (fs_lookup fs2 (aa_ChecksumPath a)) = Some (sa_SHA256 art @ ''  '' @ sa_Name art @ [NL]))"
proof -
  let ?a = "''d/cachy_linux_amd64.tar.gz''"
  let ?s = "\<lparr>so_Kind = ''archive'', so_Artifact = ?a, so_OutputPath = ''o'', so_Version = ''1'', so_GeneratedAt = Some 0\<rparr>"
  let ?f = sample_packaged
  have "\<exists>art. artifactEvidence sample_release ?a ?f = Inr art"
    by (simp add: sample_packaged_def artifactEvidence_def os_Stat_def sample_release_def path_exists_def fs_lookup_def Let_def
        fileSHA256_def os_ReadFile_def)
  moreover have "\<exists>fs2. write_evidence sample_release ''o'' payload ?f = (Inr ''o'', fs2)" for payload
    by (simp add: sample_packaged_def write_evidence_def os_MkdirAll_def os_WriteFile_def os_Create_def sample_release_def path_exists_def
        fs_lookup_def below_def go_eval)
  ultimately have "\<exists>r fs2. GenerateSBOM sample_release None ?s ?f = (Inr r, fs2)"
    by (auto simp: GenerateSBOM_def) blast
  then obtain r fs2 where g: "GenerateSBOM sample_release None ?s ?f = (Inr r, fs2)" by blast
  have n: "ao_BinaryPath sample_target \<noteq> ?a" by (simp add: sample_target_def)
  have "\<exists>art :: sbom_artifact. map_option f_Content (fs_lookup fs2 (?a @ ''.sha256'')) = Some (sa_SHA256 art @ ''  '' @ sa_Name art @ [NL])"
    using release_evidence_consistent [OF sample_package _ g] n by (simp del: map_option_eq_Some) blast
  then show ?thesis
    by (intro exI [of _ "\<lparr>aa_ArchivePath = ?a, aa_ChecksumPath = ?a @ ''.sha256''\<rparr>"] exI [of _ sample_packaged]
        exI [of _ r] exI [of _ fs2] conjI) (use sample_package g in simp_all)
qed

end
