(* ===== verification/Spec2Isabelle.thy ===== *)
theory Spec2Isabelle
  imports Request_Compression Ccr_Retention Ccr_Session Ccr_Concurrent Proxy_Stream Proxy_Admin Wasm_Compressor
    Mcp_Session Release_Evidence
begin

text \<open>
  Cachy: a local proxy between coding agents and the OpenAI and Anthropic APIs, with the library that
  compresses tool output before it leaves the machine, written in Go. This development models the
  packages below \<open>internal/\<close> and the commands \<open>cmd/cachy\<close> and \<open>cmd/cachy-release\<close>.

  \<^bold>\<open>The program and its theories.\<close> Each theory names its source files and keeps the names of the source
  (with a suffix where HOL has the name already). A struct is a record, an error result \<open>error + 'a\<close>.

  \<^item> \<open>internal/tokens\<close>: \<open>Tokens\<close>. Estimates, exact counters by provider and model, savings in 64-bit integers.
  \<^item> \<open>internal/compress\<close>: \<open>Blocks\<close> (blocks, classification), \<open>Live_Zone\<close> (decoding a request and
    listing its blocks), \<open>Native_Compress\<close> (the compressors for text, logs, JSON, diffs and code), \<open>Pipeline\<close> (\<open>Apply\<close>),
    \<open>Request_Compression\<close> (all of them on one request).
  \<^item> \<open>internal/ccr\<close>: \<open>Ccr_Marker\<close>, \<open>Ccr_Store\<close> (\<open>Put\<close> and \<open>Get\<close> as functions of the files and of what the
    environment makes each call return), \<open>Ccr_Retention\<close> (diagnostics and cleanup), \<open>Ccr_Session\<close> (histories of \<open>Put\<close>s and
    cleanups), \<open>Ccr_Concurrent\<close> (any number of \<open>Put\<close>s at the same time, call by call, over names and inodes, with
    crashes and removals by others; the drawing of a temporary name that another \<open>Put\<close> still uses is an event of
    its own).
  \<^item> \<open>internal/proxy\<close> and \<open>internal/observability\<close>: \<open>Telemetry\<close> (records, retention, log entries), \<open>Proxy\<close> (header filters, paths,
    the handler as a function from a request and what the network does to its effects), \<open>Proxy_Stream\<close> (the copy of
    a response body read by read, with the flushing of event streams).
  \<^item> \<open>internal/admin\<close>: \<open>Admin_Auth\<close> (token, listen address), \<open>Admin_Server\<close> (routes, handlers, the server's state),
    \<open>Proxy_Admin\<close> (sessions of the proxy and the metrics that report them).
  \<^item> \<open>internal/plugin\<close>: \<open>Plugin_Manifest\<close>, \<open>Plugin_Host\<close> (one run of a module), \<open>Plugin_Lifecycle\<close> (the directory of plugins),
    \<open>Wasm_Compressor\<close> (the enabled plugins as a compressor of the pipeline).
  \<^item> \<open>internal/platform\<close>: \<open>Platform_Paths\<close>.
  \<^item> \<open>internal/install\<close>: \<open>Install_Config\<close> (what the integrations share), \<open>Install_Codex\<close>, \<open>Install_Claude\<close>, \<open>Install_Recipes\<close>;
    \<open>internal/doctor\<close>: \<open>Doctor\<close>; \<open>Claude_Files\<close> (the settings file that one writes and the other reads).
  \<^item> \<open>internal/cli\<close>: \<open>Cli\<close> (every command: exit code, output, files), \<open>Mcp_Session\<close> (one command's output run as another).
  \<^item> \<open>internal/release\<close> and \<open>cmd/cachy-release\<close>: \<open>Release_Archive\<close>, \<open>Release_Evidence\<close>.
  \<^item> What these use of Go's library: \<open>Go_Prelude\<close> (integers with their wrap-around, shared facts), \<open>Go_Strings\<close>, \<open>Go_Unicode\<close>,
    \<open>Go_Filepath\<close>, \<open>Go_Os\<close>, \<open>Go_Sort\<close>, \<open>Go_Crypto\<close>, \<open>Go_Net\<close>, \<open>Go_Url\<close>, \<open>Go_Http\<close>, \<open>Go_Mux\<close>, \<open>Go_Flag\<close> and, for
    \<open>encoding/json\<close>, \<open>Go_Json_Scan\<close>, \<open>Go_Json_Decode\<close>, \<open>Go_Json_Value\<close>, \<open>Go_Json_Roundtrip\<close>.

  \<^bold>\<open>How the parts meet.\<close> A request's blocks go from \<open>Live_Zone\<close> to \<open>Pipeline\<close>, whose compressors are the native ones or the plugins
  of \<open>Wasm_Compressor\<close> and whose arbiter is \<open>Tokens\<close>; content taken out of a request lives in the store under the address its
  marker names. The proxy handler writes to the logger and to the telemetry store, which the admin server
  reads. The commands of \<open>Cli\<close> call \<open>Install_Codex\<close>, \<open>Install_Claude\<close>, \<open>Plugin_Lifecycle\<close> and \<open>Doctor\<close> on the same files.

  \<^bold>\<open>Effects.\<close> Files are an association list from paths to contents (\<open>Go_Os\<close>); operations return the files they leave. What the outside decides
  is an argument: the errors of each call of package \<open>os\<close> (a write to an open file may fail after some bytes, which stay
  in the file), clocks, random names and bytes, what the network answers, the Unicode tables for runes
  beyond ASCII, the orders \<open>sort.Slice\<close> leaves open, the WASM engine and the compressors of archives. The theorems quantify over all
  of these or state by name what they need (\<open>good_env\<close>, \<open>honest_engine\<close>, \<open>age_sort\<close>, \<open>remover\<close>). A locale states each
  contract between components and is interpreted on the model's own definitions.

  \<^bold>\<open>What is shown.\<close>
  \<^item> Compression: \<open>Apply\<close> implements the first acceptable proposal of each live block; an applied rewrite saves tokens; blocks are selected
    exactly when they are tool results; a log is run-length encoded by lines and plain text by paragraphs, a diff keeps the lines
    of five kinds with exact notes of what is left out, JSON loses exactly the white space outside of strings;
    and all of this holds together for a request from its bytes to its decisions.
  \<^item> Store: no failure or crash of one \<open>Put\<close> makes a partial or wrong object visible, nor does any interleaving of many, as long
    as no two of them have drawn the same temporary name (with two such collisions it can happen: \<open>temporary_names_can_collide\<close>); a
    scheduled \<open>Put\<close> comes to its end in any case, after at most \<open>8 + n\<close> of its own steps for content of \<open>n\<close> bytes
    (\<open>put_left\<close>); \<open>Put\<close> as a function is a run of its steps; cleanup enforces its policy; a marker leads back to its
    content through any history.
  \<^item> Proxy: what is forwarded where, which headers survive, by name; an event stream is flushed before each further read, the copy
    read by read refines the handler, and it returns exactly when the body or the client ends. Telemetry and logs never
    hold bodies or credentials.
  \<^item> Admin: it exists on loopback hosts only, spelled out, and nothing is served or changed without the token; the credential is
    never shown; an invariant of the server's state; the log and the metrics account for exactly the requests the proxy forwarded.
  \<^item> Plugins: the sandbox of a run and what is accepted of its output, the containment of inspection, enabling and disabling, and
    that a rewrite in the pipeline comes from an enabled plugin.
  \<^item> Integrations: only their file is written, and left cut short only when the write itself fails; planned settings have the types
    that are read again; installations are idempotent, uninstalling restores, settings survive being written and read, what
    install sets up doctor finds, doctor's report is independent of credentials.
  \<^item> Commands: the exit code, the diagnostics and the effects of every command agree, a write that fails on the way included; the
    printed MCP registration starts the proxy.
  \<^item> Release: archive, checksum file and list of parts agree.

  \<^bold>\<open>Bounds and fuel.\<close> \<open>int\<close> and \<open>int64\<close> are 64 bits wide, with wrap-around written out (\<open>wrap64\<close>). Decoding a JSON literal has the length
  of the text as its fuel, of which each step uses at least one; nesting is limited to \<open>10000\<close> as in the library. The decimal exponent of a float looks for at most 400 zeros
  after the point, and the smallest float has 323. Printing a float tries 1 to 17 significant
  digits, of which 17 identify every 64-bit float; that they do is not proved, so the theorems on settings
  ask for numbers whose text is read back (\<open>number_ok\<close>). The copy of a body may not end and is a \<open>while_option\<close>; when it
  ends is a theorem of \<open>Proxy_Stream\<close>.

  \<^bold>\<open>Not modelled.\<close> The packages below \<open>pkg/\<close> are aliases and one-line forwards to \<open>internal/\<close>. Left out are
  the usage texts package \<open>flag\<close> prints, the wording of errors that the library makes, file modes other than what
  the store sets, directories without files (so that a directory at the path of a stored object, which the store never makes, is not
  told from a path where nothing is), connection handling and timeouts of the HTTP server, the desktop application (TypeScript) and everything
  that is not Go. The engine that runs WASM, the formats of zip, tar and gzip and \<open>debug.ReadBuildInfo\<close> are parameters.
\<close>

end
